(* ===== verification/QF_Prelude.thy ===== *)
theory QF_Prelude
  imports Main "HOL-Library.Word"
begin

text \<open>
  Shared ground of the development: the machine integers of the Rust sources, the parts of
  \<open>std\<close> that several components call (saturating arithmetic, \<open>Duration\<close> and
  \<open>Instant\<close>, \<open>Iterator::min_by_key\<close>, \<open>Iterator::position\<close>, \<open>Iterator::find\<close>), and the
  list lemmas the component proofs share.

  Conventions used throughout:
  \<^item> \<open>u64\<close>, \<open>u32\<close>, \<open>u8\<close> and \<open>usize\<close> (64-bit targets) are machine words where the code's
    arithmetic can wrap or saturate;
  \<^item> a \<open>Duration\<close> and an \<open>Instant\<close> are natural numbers of nanoseconds;
  \<^item> a method with \<open>&self\<close> and interior mutability (atomics, mutexes) becomes a function that
    returns the result and the new state.
\<close>

section \<open>Collections of proof rules\<close>

named_theorems inv_intros \<open>introduction rules: an operation keeps the invariant of its component\<close>
named_theorems frame_simps \<open>what an operation leaves unchanged\<close>

section \<open>Machine integers\<close>

type_synonym u8 = "8 word"
type_synonym u32 = "32 word"
type_synonym u64 = "64 word"
type_synonym usize = "64 word"

text \<open>\<open>uN::saturating_add\<close> and \<open>uN::saturating_sub\<close>.\<close>

definition saturating_add :: "'a::len word \<Rightarrow> 'a word \<Rightarrow> 'a word" where
  "saturating_add a b = (if a \<le> a + b then a + b else - 1)"

definition saturating_sub :: "'a::len word \<Rightarrow> 'a word \<Rightarrow> 'a word" where
  "saturating_sub a b = (if a < b then 0 else a - b)"

lemma unat_less: "unat w < 2 ^ LENGTH('a)" for w :: "'a::len word"
  by (rule unsigned_less)

lemma unat_saturating_sub: "unat (saturating_sub a b) = unat a - unat b"
  by (auto simp: saturating_sub_def word_less_nat_alt unat_sub_if_size)

lemma unat_saturating_add:
  "unat (saturating_add a b) = min (unat a + unat b) (2 ^ LENGTH('a) - 1)"
  for a b :: "'a::len word"
proof (cases "a \<le> a + b")
  case True
  then have "unat (a + b) = unat a + unat b"
    by (simp add: unat_plus_simple)
  moreover have "unat (a + b) < 2 ^ LENGTH('a)" by (rule unat_less)
  ultimately show ?thesis using True by (auto simp: saturating_add_def)
next
  case False
  then have "2 ^ LENGTH('a) \<le> unat a + unat b"
    using no_olen_add_nat [of a b] by (auto simp: not_less)
  moreover have "unat (- 1 :: 'a word) = 2 ^ LENGTH('a) - 1"
    by (simp add: unsigned_minus_1_eq_mask mask_eq_exp_minus_1)
  ultimately show ?thesis using False by (simp add: saturating_add_def)
qed

lemma unat_min: "unat (min a b) = min (unat a) (unat b)" for a b :: "'a::len word"
  by (simp add: min_def word_le_nat_alt)

lemma word_less_plus1_le: "a < b \<Longrightarrow> a + 1 \<le> b" for a b :: "'a::len word"
  by (rule inc_le)

lemma unat_plus1_less: "a < b \<Longrightarrow> unat (a + 1) = Suc (unat a)" for a b :: "'a::len word"
proof -
  assume "a < b"
  then have "unat a < unat b" by (simp add: word_less_nat_alt)
  then have "Suc (unat a) < 2 ^ LENGTH('a)"
    using unat_less [of b] by linarith
  then show ?thesis by (simp add: unat_word_ariths)
qed

lemma unat_minus1_pos: "a \<noteq> 0 \<Longrightarrow> unat (a - 1) = unat a - 1" for a :: "'a::len word"
  by (simp add: unat_minus_one)

section \<open>Time\<close>

text \<open>
  A \<open>Duration\<close> holds at most \<open>u64::MAX\<close> seconds and 999999999 nanoseconds; \<open>saturating_mul\<close>
  stops there. An \<open>Instant\<close> holds its seconds in a signed 64-bit field, so \<open>checked_add\<close>
  fails past \<open>i64::MAX\<close> seconds. \<open>saturating_duration_since\<close> is truncated subtraction.
\<close>

type_synonym duration = nat
type_synonym instant = nat

definition duration_max :: duration where
  "duration_max = (2 ^ 64 - 1) * 1000000000 + 999999999"

definition duration_from_secs :: "u64 \<Rightarrow> duration" where
  "duration_from_secs s = unat s * 1000000000"

definition duration_saturating_mul :: "duration \<Rightarrow> nat \<Rightarrow> duration" where
  "duration_saturating_mul d k = min (d * k) duration_max"

definition instant_checked_add :: "instant \<Rightarrow> duration \<Rightarrow> instant option" where
  "instant_checked_add t d =
     (if (t + d) div 1000000000 < 2 ^ 63 then Some (t + d) else None)"

definition saturating_duration_since :: "instant \<Rightarrow> instant \<Rightarrow> duration" where
  "saturating_duration_since later earlier = later - earlier"

lemma duration_from_secs_le_max: "duration_from_secs s \<le> duration_max"
proof -
  have "unat s \<le> 2 ^ 64 - 1" using unat_less [of s] by simp
  then have "unat s * 1000000000 \<le> (2 ^ 64 - 1) * 1000000000"
    by (rule mult_le_mono1)
  then show ?thesis unfolding duration_from_secs_def duration_max_def by linarith
qed

section \<open>Iterators\<close>

text \<open>\<open>Iterator::min_by_key\<close> returns the first of several equal minima.\<close>

fun min_by_key :: "('a \<Rightarrow> 'b::linorder) \<Rightarrow> 'a list \<Rightarrow> 'a option" where
  "min_by_key k [] = None"
| "min_by_key k (x # xs) =
     (case min_by_key k xs of
        None \<Rightarrow> Some x
      | Some y \<Rightarrow> if k y < k x then Some y else Some x)"

lemma min_by_key_None [simp]: "min_by_key k xs = None \<longleftrightarrow> xs = []"
  by (cases xs) (auto split: option.splits)

lemma min_by_key_in: "min_by_key k xs = Some x \<Longrightarrow> x \<in> set xs"
  by (induction xs arbitrary: x) (auto split: option.splits if_splits)

lemma min_by_key_le: "min_by_key k xs = Some x \<Longrightarrow> y \<in> set xs \<Longrightarrow> k x \<le> k y"
proof (induction xs arbitrary: x y)
  case (Cons a xs)
  then show ?case
    by (cases "min_by_key k xs") (fastforce split: if_splits)+
qed simp

text \<open>\<open>Iterator::position\<close>: the index of the first element that satisfies a predicate.\<close>

fun position :: "('a \<Rightarrow> bool) \<Rightarrow> 'a list \<Rightarrow> nat option" where
  "position p [] = None"
| "position p (x # xs) = (if p x then Some 0 else map_option Suc (position p xs))"

lemma position_Some:
  "position p xs = Some i \<Longrightarrow> i < length xs \<and> p (xs ! i) \<and> (\<forall>j<i. \<not> p (xs ! j))"
proof (induction xs arbitrary: i)
  case (Cons x xs)
  then show ?case by (auto split: if_splits simp: nth_Cons split: nat.splits)
qed simp

lemma position_None [simp]: "position p xs = None \<longleftrightarrow> (\<forall>x \<in> set xs. \<not> p x)"
  by (induction xs) auto

lemma position_Some_ex: "x \<in> set xs \<Longrightarrow> p x \<Longrightarrow> \<exists>i. position p xs = Some i"
  by (cases "position p xs") auto

lemma position_eqI:
  assumes "i < length xs" "p (xs ! i)" "\<And>j. j < i \<Longrightarrow> \<not> p (xs ! j)"
  shows "position p xs = Some i"
proof -
  obtain j where j: "position p xs = Some j" using assms position_Some_ex by fastforce
  then have "\<not> j < i" "\<not> i < j" using assms position_Some [OF j] by auto
  with j show ?thesis by simp
qed

section \<open>Lists\<close>

lemma sum_list_update:
  "i < length xs \<Longrightarrow> sum_list (xs[i := v]) + xs ! i = sum_list xs + v"
  for xs :: "nat list"
  by (induction xs arbitrary: i) (auto split: nat.splits)

lemma sum_list_nth_le: "i < length xs \<Longrightarrow> xs ! i \<le> sum_list xs" for xs :: "nat list"
  by (rule elem_le_sum_list)

lemma length_filter_append1:
  "length (filter p (xs @ [x])) = length (filter p xs) + (if p x then 1 else 0)"
  by simp

end
