(* ===== verification/Rust_Strings.thy ===== *)
theory Rust_Strings
  imports QF_Prelude
begin

text \<open>
  The string operations of Rust's \<open>std\<close> that the components call. A Rust string is a list of
  Unicode scalar values; the model's \<open>string\<close> holds the scalar values U+0000 to U+00FF (one HOL
  character each, not one UTF-8 byte), so the definitions below are exact on text in that range
  and its UTF-8 length counts two bytes from U+0080 on. Text beyond U+00FF is outside the model.
\<close>

section \<open>Characters\<close>

definition is_whitespace :: "char \<Rightarrow> bool" where
  "is_whitespace c \<longleftrightarrow>
     (let n = of_char c :: nat in (9 \<le> n \<and> n \<le> 13) \<or> n = 32 \<or> n = 0x85 \<or> n = 0xA0)"

text \<open>\<open>char::is_alphanumeric\<close>: Unicode letters and numbers, so also the superscripts and fractions.\<close>

definition is_ascii_alphanumeric :: "char \<Rightarrow> bool" where
  "is_ascii_alphanumeric c \<longleftrightarrow>
     (let n = of_char c :: nat in
        (48 \<le> n \<and> n \<le> 57) \<or> (65 \<le> n \<and> n \<le> 90) \<or> (97 \<le> n \<and> n \<le> 122))"

definition is_alphanumeric :: "char \<Rightarrow> bool" where
  "is_alphanumeric c \<longleftrightarrow>
     is_ascii_alphanumeric c \<or>
     (let n = of_char c :: nat in
        n \<in> {0xAA, 0xB2, 0xB3, 0xB5, 0xB9, 0xBA, 0xBC, 0xBD, 0xBE}
        \<or> (0xC0 \<le> n \<and> n \<le> 0xFF \<and> n \<noteq> 0xD7 \<and> n \<noteq> 0xF7))"

definition ascii_lower :: "char \<Rightarrow> char" where
  "ascii_lower c =
     (let n = of_char c :: nat in if 65 \<le> n \<and> n \<le> 90 then char_of (n + 32) else c)"

definition char_lower :: "char \<Rightarrow> char" where
  "char_lower c =
     (let n = of_char c :: nat in
      if (65 \<le> n \<and> n \<le> 90) \<or> (0xC0 \<le> n \<and> n \<le> 0xDE \<and> n \<noteq> 0xD7) then char_of (n + 32) else c)"

definition len_utf8 :: "char \<Rightarrow> nat" where
  "len_utf8 c = (if (of_char c :: nat) < 0x80 then 1 else 2)"

section \<open>Strings\<close>

definition to_ascii_lowercase :: "string \<Rightarrow> string" where
  "to_ascii_lowercase = map ascii_lower"

definition to_lowercase :: "string \<Rightarrow> string" where
  "to_lowercase = map char_lower"

text \<open>\<open>str::len\<close>, in bytes.\<close>

definition str_len :: "string \<Rightarrow> nat" where
  "str_len s = sum_list (map len_utf8 s)"

text \<open>
  \<open>&s[..n]\<close> for \<open>n \<le> s.len()\<close>: the prefix of \<open>n\<close> bytes, or a panic (\<open>None\<close>) when byte
  \<open>n\<close> is not a character boundary or lies past the end.
\<close>

fun byte_prefix :: "nat \<Rightarrow> string \<Rightarrow> string option" where
  "byte_prefix 0 s = Some []"
| "byte_prefix (Suc n) [] = None"
| "byte_prefix (Suc n) (c # cs) =
     (if Suc n < len_utf8 c then None else map_option ((#) c) (byte_prefix (Suc n - len_utf8 c) cs))"

definition trim :: "string \<Rightarrow> string" where
  "trim s = rev (dropWhile is_whitespace (rev (dropWhile is_whitespace s)))"

text \<open>\<open>str::split(c)\<close>: never empty, and the empty string splits into one empty piece.\<close>

fun split_on :: "char \<Rightarrow> string \<Rightarrow> string list" where
  "split_on d [] = [[]]"
| "split_on d (c # cs) =
     (if c = d then [] # split_on d cs
      else (case split_on d cs of [] \<Rightarrow> [[c]] | p # ps \<Rightarrow> (c # p) # ps))"

fun split_once :: "char \<Rightarrow> string \<Rightarrow> (string \<times> string) option" where
  "split_once d [] = None"
| "split_once d (c # cs) =
     (if c = d then Some ([], cs)
      else map_option (\<lambda>(a, b). (c # a, b)) (split_once d cs))"

text \<open>Decimal rendering of an unsigned number.\<close>

fun show_nat :: "nat \<Rightarrow> string" where
  "show_nat n =
     (if n < 10 then [char_of (48 + n)] else show_nat (n div 10) @ [char_of (48 + n mod 10)])"

declare show_nat.simps [simp del]

fun starts_with :: "string \<Rightarrow> string \<Rightarrow> bool" where
  "starts_with [] s = True"
| "starts_with (p # ps) [] = False"
| "starts_with (p # ps) (c # cs) = (p = c \<and> starts_with ps cs)"

fun str_contains :: "string \<Rightarrow> string \<Rightarrow> bool" where
  "str_contains pat [] = (pat = [])"
| "str_contains pat (c # cs) = (starts_with pat (c # cs) \<or> str_contains pat cs)"

text \<open>
  \<open>str::find\<close> of a string, as the text before and after the first occurrence, \<open>str::strip_prefix\<close>
  and \<open>str::trim_start\<close>.
\<close>

fun strip_prefix :: "string \<Rightarrow> string \<Rightarrow> string option" where
  "strip_prefix [] s = Some s"
| "strip_prefix (p # ps) [] = None"
| "strip_prefix (p # ps) (c # cs) = (if p = c then strip_prefix ps cs else None)"

fun find_str :: "string \<Rightarrow> string \<Rightarrow> (string \<times> string) option" where
  "find_str pat [] = (if pat = [] then Some ([], []) else None)"
| "find_str pat (c # cs) =
     (case strip_prefix pat (c # cs) of
        Some rest \<Rightarrow> Some ([], rest)
      | None \<Rightarrow> map_option (\<lambda>(a, b). (c # a, b)) (find_str pat cs))"

definition trim_start :: "string \<Rightarrow> string" where
  "trim_start s = dropWhile is_whitespace s"

text \<open>\<open>[String]::join\<close>, and \<open>str::replace\<close> of one character.\<close>

fun join :: "string \<Rightarrow> string list \<Rightarrow> string" where
  "join sep [] = []"
| "join sep [s] = s"
| "join sep (s # ss) = s @ sep @ join sep ss"

definition replace_char :: "char \<Rightarrow> string \<Rightarrow> string \<Rightarrow> string" where
  "replace_char c r s = concat (map (\<lambda>x. if x = c then r else [x]) s)"

text \<open>The \<open>Debug\<close> form of a string: in double quotes, with the unprintable characters escaped.\<close>

fun show_hex :: "nat \<Rightarrow> string" where
  "show_hex n =
     (let d = n mod 16; c = [char_of (if d < 10 then 48 + d else 87 + d)]
      in if n < 16 then c else show_hex (n div 16) @ c)"

declare show_hex.simps [simp del]

definition debug_char :: "char \<Rightarrow> string" where
  "debug_char c =
     (let n = of_char c :: nat in
      if n = 0x22 \<or> n = 0x5C then [CHR 0x5C, c]
      else if n = 0x09 then [CHR 0x5C, CHR ''t'']
      else if n = 0x0A then [CHR 0x5C, CHR ''n'']
      else if n = 0x0D then [CHR 0x5C, CHR ''r'']
      else if n = 0 then [CHR 0x5C, CHR ''0'']
      else if n < 0x20 \<or> 0x7F \<le> n \<and> n \<le> 0xA0 \<or> n = 0xAD then
        [CHR 0x5C, CHR ''u'', CHR ''{''] @ show_hex n @ [CHR ''}'']
      else [c])"

definition debug_str :: "string \<Rightarrow> string" where
  "debug_str s = [CHR 0x22] @ concat (map debug_char s) @ [CHR 0x22]"

section \<open>Facts the components use\<close>

lemma strip_prefix_Some: "strip_prefix p s = Some t \<longleftrightarrow> s = p @ t"
  by (induction p s rule: strip_prefix.induct) auto

lemma strip_prefix_None: "strip_prefix p s = None \<longleftrightarrow> (\<nexists>t. s = p @ t)"
  using strip_prefix_Some [of p s] by (cases "strip_prefix p s") auto

lemma find_str_Some: "find_str p s = Some (a, b) \<Longrightarrow> s = a @ p @ b"
proof (induction s arbitrary: a)
  case (Cons c cs)
  then show ?case by (auto simp: strip_prefix_Some split: option.splits)
qed (auto split: if_splits)

text \<open>The occurrence found is the first: no other leaves a longer rest.\<close>

lemma find_str_first: "s = x @ p @ y \<Longrightarrow> \<exists>a b z. find_str p s = Some (a, b) \<and> b = z @ y"
proof (induction s arbitrary: x)
  case Nil
  then show ?case by simp
next
  case (Cons c cs)
  show ?case
  proof (cases "strip_prefix p (c # cs)")
    case None
    then obtain x' where "x = c # x'" "cs = x' @ p @ y"
      using Cons.prems by (cases x) (auto simp: strip_prefix_None)
    then show ?thesis using Cons.IH [of x'] None by auto
  next
    case (Some rest)
    then have "p @ rest = x @ p @ y" using Cons.prems by (simp add: strip_prefix_Some)
    then have "length rest = length x + length y" by (metis add.left_commute add_left_cancel length_append)
    moreover have "rest = drop (length p) (x @ p @ y)" using \<open>p @ rest = x @ p @ y\<close> by (metis append_eq_conv_conj)
    ultimately have "rest = take (length x) rest @ y"
      by (metis add_diff_cancel_right' append_take_drop_id drop_drop add.commute
          append.assoc append_eq_conv_conj length_append)
    then show ?thesis using Some by auto
  qed
qed

lemma is_alphanumeric_ascii: "is_ascii_alphanumeric c \<Longrightarrow> is_alphanumeric c"
  by (simp add: is_alphanumeric_def)

lemma split_on_nonempty [simp]: "split_on d s \<noteq> []"
  by (induction s) (auto split: list.splits)

lemma split_on_no_delim: "d \<notin> set s \<Longrightarrow> split_on d s = [s]"
  by (induction s) auto

lemma split_on_pieces: "p \<in> set (split_on d s) \<Longrightarrow> d \<notin> set p"
proof (induction s arbitrary: p)
  case (Cons c cs)
  then show ?case
    by (cases "split_on d cs") (auto split: if_splits)
qed simp

lemma split_on_append:
  "d \<notin> set a \<Longrightarrow> split_on d (a @ d # b) = a # split_on d b"
  by (induction a) auto

lemma split_once_append: "d \<notin> set a \<Longrightarrow> split_once d (a @ d # b) = Some (a, b)"
  by (induction a) auto

lemma split_once_None [simp]: "split_once d s = None \<longleftrightarrow> d \<notin> set s"
  by (induction s) auto

lemma dropWhile_hd_id: "(s = [] \<or> \<not> P (hd s)) \<Longrightarrow> dropWhile P s = s"
  by (cases s) auto

lemma trim_id:
  assumes "s = [] \<or> \<not> is_whitespace (hd s) \<and> \<not> is_whitespace (last s)"
  shows "trim s = s"
proof -
  have "dropWhile is_whitespace s = s" using assms by (intro dropWhile_hd_id) auto
  moreover have "dropWhile is_whitespace (rev s) = rev s"
    using assms by (intro dropWhile_hd_id) (auto simp: hd_rev)
  ultimately show ?thesis by (simp add: trim_def)
qed

lemma str_len_append [simp]: "str_len (a @ b) = str_len a + str_len b"
  by (simp add: str_len_def)

lemma str_len_Cons [simp]: "str_len (c # s) = len_utf8 c + str_len s"
  by (simp add: str_len_def)

lemma str_len_Nil [simp]: "str_len [] = 0"
  by (simp add: str_len_def)

lemma len_utf8_bounds: "1 \<le> len_utf8 c" "len_utf8 c \<le> 2"
  by (simp_all add: len_utf8_def)

lemma length_le_str_len: "length s \<le> str_len s"
  by (induction s) (use len_utf8_bounds in \<open>auto simp: Suc_le_eq intro: add_mono\<close>, force simp: len_utf8_def)

lemma byte_prefix_Some:
  "byte_prefix n s = Some p \<Longrightarrow> str_len p = n \<and> (\<exists>rest. s = p @ rest)"
proof (induction n s arbitrary: p rule: byte_prefix.induct)
  case (3 n c cs)
  then obtain q where q: "byte_prefix (Suc n - len_utf8 c) cs = Some q" "p = c # q"
    "\<not> Suc n < len_utf8 c"
    by (auto split: if_splits)
  with 3 have "str_len q = Suc n - len_utf8 c \<and> (\<exists>rest. cs = q @ rest)" by simp
  with q show ?case by auto
qed auto

text \<open>On ASCII text every byte index is a boundary, so slicing cannot panic.\<close>

lemma byte_prefix_ascii:
  "\<forall>c \<in> set s. len_utf8 c = 1 \<Longrightarrow> n \<le> str_len s \<Longrightarrow> byte_prefix n s = Some (take n s)"
  by (induction n s rule: byte_prefix.induct) (auto simp: len_utf8_def)

lemma starts_with_iff: "starts_with p s \<longleftrightarrow> (\<exists>t. s = p @ t)"
  by (induction p s rule: starts_with.induct) auto

lemma str_contains_iff: "str_contains p s \<longleftrightarrow> (\<exists>a b. s = a @ p @ b)"
proof (induction s)
  case (Cons c cs)
  have "(\<exists>a b. c # cs = a @ p @ b) \<longleftrightarrow>
        (\<exists>t. c # cs = p @ t) \<or> (\<exists>a b. cs = a @ p @ b)"
    by (metis append_Cons append_Nil list.inject neq_Nil_conv)
  with Cons show ?case by (simp add: starts_with_iff)
qed auto

lemma find_str_None: "find_str p s = None \<longleftrightarrow> \<not> str_contains p s"
proof
  assume "find_str p s = None"
  then show "\<not> str_contains p s" using find_str_first [of s _ p] by (metis str_contains_iff option.distinct(1))
next
  assume "\<not> str_contains p s"
  then show "find_str p s = None" using find_str_Some [of p s] by (cases "find_str p s") (auto simp: str_contains_iff)
qed

lemma set_trim: "set (trim s) \<subseteq> set s"
  by (auto simp: trim_def dest!: set_dropWhileD)

lemma set_split_on: "p \<in> set (split_on d s) \<Longrightarrow> set p \<subseteq> set s"
proof (induction s arbitrary: p)
  case (Cons c cs)
  then show ?case
    by (cases "split_on d cs") (auto split: if_splits, blast+)
qed simp

lemma set_split_once: "split_once d s = Some (a, b) \<Longrightarrow> set a \<subseteq> set s \<and> set b \<subseteq> set s"
proof (induction s arbitrary: a)
  case (Cons c cs)
  then show ?case by (fastforce split: if_splits)
qed simp

end
