(* ===== verification/Core_Types.thy ===== *)
theory Core_Types
  imports Rust_Strings
begin

text \<open>
  The data shared by every crate: \<open>crates/queryflux-core/src/query.rs\<close> (identifiers, protocols,
  engines, SQL dialects) and \<open>crates/queryflux-core/src/error.rs\<close> (the error type, how backend
  replies are classified and which errors may be retried). The newtypes \<open>ClusterName\<close>,
  \<open>ClusterGroupName\<close>, \<open>ProxyQueryId\<close> and \<open>BackendQueryId\<close> wrap a \<open>String\<close> and are strings here.
\<close>

section \<open>Identifiers\<close>

type_synonym ProxyQueryId = string
type_synonym BackendQueryId = string
type_synonym ClusterGroupName = string
type_synonym ClusterName = string

section \<open>Protocols, engines and dialects\<close>

datatype SqlDialect =
    D_Trino | D_Athena | D_DuckDb | D_StarRocks | D_ClickHouse | D_MySql | D_Postgres | D_Sqlite
  | D_Snowflake | D_BigQuery | D_Databricks | D_MsSql | D_Redshift | D_Exasol | D_Generic
  | D_Sqlglot string

datatype FrontendProtocol =
    TrinoHttp | PostgresWire | MySqlWire | ClickHouseHttp | FlightSql
  | SnowflakeHttp | SnowflakeSqlApi | Mcp

fun default_dialect :: "FrontendProtocol \<Rightarrow> SqlDialect" where
  "default_dialect TrinoHttp = D_Trino"
| "default_dialect PostgresWire = D_Postgres"
| "default_dialect MySqlWire = D_MySql"
| "default_dialect ClickHouseHttp = D_ClickHouse"
| "default_dialect FlightSql = D_Generic"
| "default_dialect Mcp = D_Generic"
| "default_dialect SnowflakeHttp = D_Snowflake"
| "default_dialect SnowflakeSqlApi = D_Snowflake"

datatype EngineType =
    E_Trino | E_DuckDb | E_DuckDbHttp | E_StarRocks | E_ClickHouse | E_Athena | E_Adbc
  | E_Postgres | E_MySql | E_Sqlite | E_Snowflake | E_BigQuery | E_Databricks | E_MsSql
  | E_Redshift | E_Exasol | E_SingleStore | E_Undispatched | E_Cache

fun engine_dialect :: "EngineType \<Rightarrow> SqlDialect" where
  "engine_dialect E_Trino = D_Trino"
| "engine_dialect E_Athena = D_Athena"
| "engine_dialect E_DuckDb = D_DuckDb"
| "engine_dialect E_DuckDbHttp = D_DuckDb"
| "engine_dialect E_StarRocks = D_StarRocks"
| "engine_dialect E_ClickHouse = D_ClickHouse"
| "engine_dialect E_Adbc = D_Generic"
| "engine_dialect E_Postgres = D_Postgres"
| "engine_dialect E_MySql = D_MySql"
| "engine_dialect E_Sqlite = D_Sqlite"
| "engine_dialect E_Snowflake = D_Snowflake"
| "engine_dialect E_BigQuery = D_BigQuery"
| "engine_dialect E_Databricks = D_Databricks"
| "engine_dialect E_MsSql = D_MsSql"
| "engine_dialect E_Redshift = D_Redshift"
| "engine_dialect E_Exasol = D_Exasol"
| "engine_dialect E_SingleStore = D_MySql"
| "engine_dialect E_Undispatched = D_Generic"
| "engine_dialect E_Cache = D_Generic"

definition is_compatible_with :: "SqlDialect \<Rightarrow> SqlDialect \<Rightarrow> bool" where
  "is_compatible_with a b \<longleftrightarrow>
     a = b \<or> (a = D_MySql \<and> b = D_StarRocks) \<or> (a = D_StarRocks \<and> b = D_MySql)"

fun sqlglot_name :: "SqlDialect \<Rightarrow> string" where
  "sqlglot_name (D_Sqlglot _) = ''''"
| "sqlglot_name D_Trino = ''trino''"
| "sqlglot_name D_Athena = ''athena''"
| "sqlglot_name D_DuckDb = ''duckdb''"
| "sqlglot_name D_StarRocks = ''starrocks''"
| "sqlglot_name D_ClickHouse = ''clickhouse''"
| "sqlglot_name D_MySql = ''mysql''"
| "sqlglot_name D_Postgres = ''postgres''"
| "sqlglot_name D_Sqlite = ''sqlite''"
| "sqlglot_name D_Snowflake = ''snowflake''"
| "sqlglot_name D_BigQuery = ''bigquery''"
| "sqlglot_name D_Databricks = ''databricks''"
| "sqlglot_name D_MsSql = ''tsql''"
| "sqlglot_name D_Redshift = ''redshift''"
| "sqlglot_name D_Exasol = ''exasol''"
| "sqlglot_name D_Generic = ''''"

definition sqlglot_write_name :: "SqlDialect \<Rightarrow> string" where
  "sqlglot_write_name d = (case d of D_Sqlglot s \<Rightarrow> s | _ \<Rightarrow> sqlglot_name d)"

definition from_known_name :: "string \<Rightarrow> SqlDialect option" where
  "from_known_name name =
     (let n = to_ascii_lowercase name in
      if n = ''trino'' then Some D_Trino
      else if n = ''athena'' \<or> n = ''presto'' then Some D_Athena
      else if n = ''duckdb'' then Some D_DuckDb
      else if n = ''starrocks'' then Some D_StarRocks
      else if n = ''clickhouse'' then Some D_ClickHouse
      else if n = ''mysql'' then Some D_MySql
      else if n = ''postgres'' \<or> n = ''postgresql'' then Some D_Postgres
      else if n = ''sqlite'' then Some D_Sqlite
      else if n = ''snowflake'' then Some D_Snowflake
      else if n = ''bigquery'' then Some D_BigQuery
      else if n = ''databricks'' then Some D_Databricks
      else if n = ''tsql'' \<or> n = ''mssql'' then Some D_MsSql
      else if n = ''redshift'' then Some D_Redshift
      else if n = ''exasol'' then Some D_Exasol
      else if n = ''generic'' then Some D_Generic
      else None)"

definition KNOWN_DIALECT_NAMES :: "string list" where
  "KNOWN_DIALECT_NAMES =
     [''trino'', ''athena'', ''duckdb'', ''starrocks'', ''clickhouse'', ''mysql'', ''postgres'',
      ''sqlite'', ''snowflake'', ''bigquery'', ''databricks'', ''tsql'', ''redshift'', ''exasol'',
      ''generic'']"

section \<open>Errors\<close>

datatype QueryFluxError =
    Engine string
  | BackendFailure string
  | BackendTimeout string
  | Translation string
  | Routing string
  | Catalog string
  | Persistence string
  | Config string
  | Auth string
  | Unauthorized string
  | Denied string
  | QueryNotFound string
  | ClusterNotFound string
  | NotConfigured string
  | NoClusterGroupAvailable string
  | SyncEngineRequired string
  | QueueFull string u64 u64
  | CapacityWaitTimeout string u64
  | Other string

type_synonym 'a result = "QueryFluxError + 'a"

definition backend_transport :: "string \<Rightarrow> bool \<Rightarrow> QueryFluxError" where
  "backend_transport message timed_out =
     (if timed_out then BackendTimeout message else BackendFailure message)"

definition backend_http_status :: "nat \<Rightarrow> string \<Rightarrow> QueryFluxError" where
  "backend_http_status status message =
     (if status = 408 \<or> status = 504 then BackendTimeout message
      else if status = 429 \<or> status = 502 \<or> status = 503 then BackendFailure message
      else Engine message)"

fun is_transient :: "QueryFluxError \<Rightarrow> bool" where
  "is_transient (BackendFailure _) = True"
| "is_transient (BackendTimeout _) = True"
| "is_transient (NotConfigured _) = True"
| "is_transient (Persistence msg) =
     (let m = to_lowercase msg in
        str_contains ''connection refused'' m
        \<or> str_contains ''connection reset'' m
        \<or> str_contains ''broken pipe'' m
        \<or> str_contains ''pool timed out'' m
        \<or> str_contains ''timed out'' m
        \<or> str_contains ''could not connect'' m
        \<or> str_contains ''40001'' m
        \<or> str_contains ''serialization failure'' m
        \<or> str_contains ''deadlock detected'' m)"
| "is_transient (Engine msg) =
     (let m = to_lowercase msg in
        str_contains ''connection refused'' m
        \<or> str_contains ''timed out'' m
        \<or> str_contains ''unavailable'' m
        \<or> str_contains ''503'' m
        \<or> str_contains ''429'' m)"
| "is_transient _ = False"

section \<open>Dialects\<close>

text \<open>
  Whether SQL may pass untranslated is an equivalence relation on dialects: it is
  reflexive, symmetric and transitive, and relates distinct dialects only for the MySQL and
  StarRocks pair.
\<close>

theorem is_compatible_with_equiv:
  "equivp is_compatible_with
   \<and> (is_compatible_with a b \<longleftrightarrow> a = b \<or> {a, b} = {D_MySql, D_StarRocks})"
proof
  show "equivp is_compatible_with"
    by (rule equivpI) (auto simp: reflp_def symp_def transp_def is_compatible_with_def)
  show "is_compatible_with a b \<longleftrightarrow> a = b \<or> {a, b} = {D_MySql, D_StarRocks}"
    by (auto simp: is_compatible_with_def doubleton_eq_iff)
qed

lemma from_known_name_not_sqlglot: "from_known_name n \<noteq> Some (D_Sqlglot s)"
  by (simp add: from_known_name_def Let_def)

text \<open>
  Dialect names round-trip: every built-in dialect other than \<open>Generic\<close> parses back
  from its sqlglot name, and the advertised names are exactly the names that parse to the
  fifteen built-in variants, one name each, none of them the unvalidated \<open>Sqlglot\<close> variant.
\<close>

theorem dialect_name_roundtrip:
  "(\<forall>d. d \<noteq> D_Generic \<and> (\<forall>s. d \<noteq> D_Sqlglot s)
        \<longrightarrow> from_known_name (sqlglot_name d) = Some d \<and> sqlglot_name d \<in> set KNOWN_DIALECT_NAMES)
   \<and> map from_known_name KNOWN_DIALECT_NAMES =
       map Some [D_Trino, D_Athena, D_DuckDb, D_StarRocks, D_ClickHouse, D_MySql, D_Postgres,
         D_Sqlite, D_Snowflake, D_BigQuery, D_Databricks, D_MsSql, D_Redshift, D_Exasol, D_Generic]
   \<and> (\<forall>n s. from_known_name n \<noteq> Some (D_Sqlglot s))"
proof (intro conjI allI impI)
  fix d :: SqlDialect
  assume "d \<noteq> D_Generic \<and> (\<forall>s. d \<noteq> D_Sqlglot s)"
  then show "from_known_name (sqlglot_name d) = Some d"
    by (cases d) (auto simp: from_known_name_def to_ascii_lowercase_def ascii_lower_def)
  show "sqlglot_name d \<in> set KNOWN_DIALECT_NAMES"
    using \<open>d \<noteq> D_Generic \<and> (\<forall>s. d \<noteq> D_Sqlglot s)\<close> by (cases d) (auto simp: KNOWN_DIALECT_NAMES_def)
next
  show "map from_known_name KNOWN_DIALECT_NAMES =
       map Some [D_Trino, D_Athena, D_DuckDb, D_StarRocks, D_ClickHouse, D_MySql, D_Postgres,
         D_Sqlite, D_Snowflake, D_BigQuery, D_Databricks, D_MsSql, D_Redshift, D_Exasol, D_Generic]"
    by (simp add: KNOWN_DIALECT_NAMES_def from_known_name_def to_ascii_lowercase_def ascii_lower_def)
qed (rule from_known_name_not_sqlglot)

theorem dialect_name_roundtrip_witness: "from_known_name (sqlglot_name D_MsSql) = Some D_MsSql"
proof -
  have "D_MsSql \<noteq> D_Generic \<and> (\<forall>s. D_MsSql \<noteq> D_Sqlglot s)" by simp
  with conjunct1 [OF dialect_name_roundtrip] show ?thesis by blast
qed

section \<open>Error classification\<close>

text \<open>
  An HTTP reply of a backend is classified by its status alone: the five availability
  statuses give an error that is transient whatever the body says, every other status gives a
  plain engine error, and the two outcomes the breaker distinguishes never mix.
\<close>

theorem backend_http_status_class:
  "(case backend_http_status status msg of
      BackendTimeout m \<Rightarrow> status \<in> {408, 504} \<and> m = msg
    | BackendFailure m \<Rightarrow> status \<in> {429, 502, 503} \<and> m = msg
    | Engine m \<Rightarrow> status \<notin> {408, 429, 502, 503, 504} \<and> m = msg
    | _ \<Rightarrow> False)
   \<and> (status \<in> {408, 429, 502, 503, 504} \<longrightarrow> is_transient (backend_http_status status msg))"
  by (simp add: backend_http_status_def)

theorem backend_http_status_class_witness:
  "is_transient (backend_http_status 503 ''syntax error'')"
  using conjunct2 [OF backend_http_status_class, of 503 "''syntax error''"] by simp

end
