(* ===== verification/Capacity.thy ===== *)
theory Capacity
  imports Core_Types
begin

text \<open>
  The capacity-store interface of \<open>crates/queryflux-persistence/src/lib.rs\<close>: the operations a
  wrapper calls on the store it wraps, over a store of state \<open>'st\<close>, with the trait's default
  \<open>release_many\<close>, and the pass-through implementation of \<open>in_memory.rs\<close>.
\<close>

type_synonym lease = "string \<times> string"

record 'st CapacityOps =
  cap_try_acquire :: "'st \<Rightarrow> string \<Rightarrow> u64 \<Rightarrow> string \<Rightarrow> string \<Rightarrow> bool result \<times> 'st"
  cap_release :: "'st \<Rightarrow> string \<Rightarrow> string \<Rightarrow> unit result \<times> 'st"
  cap_release_many :: "'st \<Rightarrow> lease list \<Rightarrow> unit result \<times> 'st"

fun default_release_many ::
  "('st \<Rightarrow> string \<Rightarrow> string \<Rightarrow> unit result \<times> 'st) \<Rightarrow> 'st \<Rightarrow> lease list \<Rightarrow> unit result \<times> 'st" where
  "default_release_many rel st [] = (Inr (), st)"
| "default_release_many rel st ((cluster, query_id) # ls) =
     (case rel st cluster query_id of
        (Inl e, st') \<Rightarrow> (Inl e, st')
      | (Inr _, st') \<Rightarrow> default_release_many rel st' ls)"

definition in_memory_try_acquire :: "'st \<Rightarrow> string \<Rightarrow> u64 \<Rightarrow> string \<Rightarrow> string \<Rightarrow> bool result \<times> 'st" where
  "in_memory_try_acquire st cluster mx instance_id query_id = (Inr True, st)"

definition in_memory_release :: "'st \<Rightarrow> string \<Rightarrow> string \<Rightarrow> unit result \<times> 'st" where
  "in_memory_release st cluster query_id = (Inr (), st)"

definition in_memory_capacity :: "'st CapacityOps" where
  "in_memory_capacity =
     \<lparr>cap_try_acquire = in_memory_try_acquire, cap_release = in_memory_release,
      cap_release_many = default_release_many in_memory_release\<rparr>"

section \<open>The contract of a release\<close>

text \<open>
  What the wrappers rely on: a release, alone or in a batch, never grants a slot, and once it
  has succeeded none of its leases is held. A failed batch may have released some of them.
\<close>

locale releasing_store =
  fixes ops :: "'st CapacityOps" and held :: "'st \<Rightarrow> lease set"
  assumes release_shrinks: "cap_release ops st c q = (r, st') \<Longrightarrow> held st' \<subseteq> held st"
    and release_done: "cap_release ops st c q = (Inr u, st') \<Longrightarrow> (c, q) \<notin> held st'"
    and release_many_shrinks: "cap_release_many ops st ls = (r, st') \<Longrightarrow> held st' \<subseteq> held st"
    and release_many_done: "cap_release_many ops st ls = (Inr u, st') \<Longrightarrow> held st' \<inter> set ls = {}"

text \<open>A store that relies on the default batch only has to promise single releases.\<close>

locale single_release_store =
  fixes acquire :: "'st \<Rightarrow> string \<Rightarrow> u64 \<Rightarrow> string \<Rightarrow> string \<Rightarrow> bool result \<times> 'st"
    and rel :: "'st \<Rightarrow> string \<Rightarrow> string \<Rightarrow> unit result \<times> 'st"
    and held :: "'st \<Rightarrow> lease set"
  assumes rel_shrinks: "rel st c q = (r, st') \<Longrightarrow> held st' \<subseteq> held st"
    and rel_done: "rel st c q = (Inr u, st') \<Longrightarrow> (c, q) \<notin> held st'"
begin

lemma default_many_shrinks: "default_release_many rel st ls = (r, st') \<Longrightarrow> held st' \<subseteq> held st"
proof (induction ls arbitrary: st)
  case (Cons l ls)
  obtain c q where l: "l = (c, q)" by (cases l)
  obtain x st1 where s: "rel st c q = (x, st1)" by fastforce
  from rel_shrinks [OF s] Cons s show ?case by (cases x) (auto simp: l)
qed simp

lemma default_many_done: "default_release_many rel st ls = (Inr u, st') \<Longrightarrow> held st' \<inter> set ls = {}"
proof (induction ls arbitrary: st)
  case (Cons l ls)
  obtain c q where l: "l = (c, q)" by (cases l)
  obtain x st1 where s: "rel st c q = (x, st1)" by fastforce
  with Cons.prems l obtain v where x: "x = Inr v" by (cases x) auto
  have rest: "default_release_many rel st1 ls = (Inr u, st')" using Cons.prems s x l by simp
  from Cons.IH [OF rest] default_many_shrinks [OF rest] rel_done [OF s [unfolded x]] show ?case
    by (auto simp: l)
qed simp

end

sublocale single_release_store \<subseteq> releasing_store
  "\<lparr>cap_try_acquire = acquire, cap_release = rel, cap_release_many = default_release_many rel\<rparr>" held
  by unfold_locales (auto dest: rel_shrinks rel_done default_many_shrinks default_many_done)

interpretation in_memory_store: single_release_store in_memory_try_acquire in_memory_release "\<lambda>_. {}"
  by unfold_locales auto

end
