(* ===== verification/Batched_Release.thy ===== *)
theory Batched_Release
  imports Capacity "HOL-Library.Multiset" "HOL-Library.AList"
begin

text \<open>
  Batched capacity releases: \<open>crates/queryflux-persistence/src/batched_release.rs\<close>. The state holds
  the channel between the callers and the flusher task, the shared counters, and the
  flusher's local variables at the head of its loop. One flusher round (a received message with
  what has queued up behind it, or a retry) is one step; callers' operations are the other
  steps. The wrapped store is a parameter. \<open>b_accepted\<close>, \<open>b_sent\<close> and \<open>b_snaps\<close> are history
  variables: the releases queued and confirmed so far, and what had been queued when each flush
  was requested. Counters (\<open>usize\<close>, \<open>u32\<close>) are natural numbers.
\<close>

section \<open>State\<close>

datatype Msg = Release string string | Flush nat

definition MAX_BATCH :: nat where "MAX_BATCH = 500"
definition MAX_PENDING :: nat where "MAX_PENDING = 100000"
definition RETRY_MIN :: duration where "RETRY_MIN = 50 * 10 ^ 6"
definition RETRY_MAX :: duration where "RETRY_MAX = 5 * 10 ^ 9"

record 'st Batch =
  b_inner :: 'st
  b_chan :: "Msg list"
  b_alive :: bool
  b_pending :: nat
  b_queued :: "(string \<times> nat) list"
  b_retry :: "lease list"
  b_retry_at :: instant
  b_retry_delay :: duration
  b_attempts :: nat
  b_flushes :: "nat list"
  b_acked :: "nat list"
  b_accepted :: "lease list"
  b_sent :: "lease list"
  b_snaps :: "(nat \<times> lease list) list"

definition Batch_new :: "'st \<Rightarrow> instant \<Rightarrow> 'st Batch" where
  "Batch_new st now =
     \<lparr>b_inner = st, b_chan = [], b_alive = True, b_pending = 0, b_queued = [], b_retry = [],
      b_retry_at = now, b_retry_delay = RETRY_MIN, b_attempts = 0, b_flushes = [], b_acked = [],
      b_accepted = [], b_sent = [], b_snaps = []\<rparr>"

definition queued_inc :: "string \<Rightarrow> (string \<times> nat) list \<Rightarrow> (string \<times> nat) list" where
  "queued_inc i q = AList.update i ((case map_of q i of Some n \<Rightarrow> n | None \<Rightarrow> 0) + 1) q"

definition queued_dec :: "string \<Rightarrow> (string \<times> nat) list \<Rightarrow> (string \<times> nat) list" where
  "queued_dec i q =
     (case map_of q i of
        None \<Rightarrow> q
      | Some n \<Rightarrow> if n - 1 = 0 then AList.delete i q else AList.update i (n - 1) q)"

section \<open>Callers\<close>

definition batch_release ::
  "'st CapacityOps \<Rightarrow> 'st Batch \<Rightarrow> string \<Rightarrow> string \<Rightarrow> unit result \<times> 'st Batch" where
  "batch_release ops b cluster query_id =
     (let direct = (\<lambda>b. case cap_release ops (b_inner b) cluster query_id of
                          (r, st) \<Rightarrow> (r, b\<lparr>b_inner := st\<rparr>))
      in if b_pending b < MAX_PENDING then
           let b1 = b\<lparr>b_pending := b_pending b + 1, b_queued := queued_inc query_id (b_queued b)\<rparr>
           in if b_alive b then
                (Inr (), b1\<lparr>b_chan := b_chan b1 @ [Release cluster query_id],
                            b_accepted := b_accepted b1 @ [(cluster, query_id)]\<rparr>)
              else direct (b1\<lparr>b_pending := b_pending b1 - 1, b_queued := queued_dec query_id (b_queued b1)\<rparr>)
         else direct b)"

text \<open>Requesting a flush; the answer arrives when its number is in \<open>b_acked\<close>.\<close>

definition batch_flush :: "'st Batch \<Rightarrow> nat \<Rightarrow> 'st Batch" where
  "batch_flush b k =
     (if b_alive b
      then b\<lparr>b_chan := b_chan b @ [Flush k], b_snaps := AList.update k (b_accepted b) (b_snaps b)\<rparr>
      else b)"

text \<open>
  Acquiring waits for a queued release of the same query. \<open>wait\<close> is the run of the flusher during
  the wait: whether the flush was answered in time, and the state then.
\<close>

definition batch_try_acquire ::
  "'st CapacityOps \<Rightarrow> ('st Batch \<Rightarrow> bool \<times> 'st Batch) \<Rightarrow> 'st Batch \<Rightarrow> string \<Rightarrow> u64 \<Rightarrow> string \<Rightarrow> string
   \<Rightarrow> bool result \<times> 'st Batch" where
  "batch_try_acquire ops wait b cluster mx instance_id query_id =
     (let (ok, b1) = (if map_of (b_queued b) query_id \<noteq> None then wait b else (True, b)) in
      if \<not> ok then
        (Inl (Persistence (''a release for query '' @ query_id @ '' is still queued; retry'')), b1)
      else
        (case cap_try_acquire ops (b_inner b1) cluster mx instance_id query_id of
           (r, st) \<Rightarrow> (r, b1\<lparr>b_inner := st\<rparr>)))"

section \<open>The flusher\<close>

definition mark_sent :: "lease list \<Rightarrow> 'st Batch \<Rightarrow> 'st Batch" where
  "mark_sent done' b =
     b\<lparr>b_pending := b_pending b - length done',
       b_queued := fold (\<lambda>l. queued_dec (snd l)) done' (b_queued b),
       b_sent := b_sent b @ done'\<rparr>"

fun send_each :: "'st CapacityOps \<Rightarrow> lease list \<Rightarrow> 'st Batch \<Rightarrow> lease list \<times> 'st Batch" where
  "send_each ops [] b = ([], b)"
| "send_each ops (l # ls) b =
     (case cap_release ops (b_inner b) (fst l) (snd l) of
        (Inr _, st) \<Rightarrow> send_each ops ls (mark_sent [l] (b\<lparr>b_inner := st\<rparr>))
      | (Inl _, st) \<Rightarrow>
          (case send_each ops ls (b\<lparr>b_inner := st\<rparr>) of (failed, b') \<Rightarrow> (l # failed, b')))"

definition send :: "'st CapacityOps \<Rightarrow> lease list \<Rightarrow> bool \<Rightarrow> 'st Batch \<Rightarrow> lease list \<times> 'st Batch" where
  "send ops leases one_by_one b =
     (if leases = [] then ([], b)
      else if \<not> one_by_one \<or> length leases = 1 then
        (case cap_release_many ops (b_inner b) leases of
           (Inr _, st) \<Rightarrow> ([], mark_sent leases (b\<lparr>b_inner := st\<rparr>))
         | (Inl _, st) \<Rightarrow> (leases, b\<lparr>b_inner := st\<rparr>))
      else send_each ops leases b)"

text \<open>Reading the channel: until it is empty or a full batch has been read.\<close>

fun drain :: "Msg list \<Rightarrow> lease list \<Rightarrow> nat list \<Rightarrow> lease list \<times> nat list \<times> Msg list" where
  "drain [] fresh flushes = (fresh, flushes, [])"
| "drain (m # ms) fresh flushes =
     (case m of
        Release c q \<Rightarrow>
          if length (fresh @ [(c, q)]) \<ge> MAX_BATCH then (fresh @ [(c, q)], flushes, ms)
          else drain ms (fresh @ [(c, q)]) flushes
      | Flush k \<Rightarrow>
          if length fresh \<ge> MAX_BATCH then (fresh, flushes @ [k], ms)
          else drain ms fresh (flushes @ [k]))"

definition end_round :: "'st Batch \<Rightarrow> 'st Batch" where
  "end_round b =
     (if b_retry b \<noteq> [] then b
      else b\<lparr>b_attempts := 0, b_retry_delay := RETRY_MIN, b_acked := b_acked b @ b_flushes b,
             b_flushes := []\<rparr>)"

definition msg_round :: "'st CapacityOps \<Rightarrow> instant \<Rightarrow> 'st Batch \<Rightarrow> 'st Batch" where
  "msg_round ops now b =
     (case drain (b_chan b) [] (b_flushes b) of
        (fresh, flushes, rest) \<Rightarrow>
          (case send ops fresh False (b\<lparr>b_chan := rest, b_flushes := flushes\<rparr>) of
             (failed, b1) \<Rightarrow>
               let b2 = (if failed \<noteq> [] \<and> b_retry b1 = []
                         then b1\<lparr>b_retry_at := now + b_retry_delay b1\<rparr> else b1)
               in end_round (b2\<lparr>b_retry := b_retry b2 @ failed\<rparr>)))"

definition retry_round :: "'st CapacityOps \<Rightarrow> instant \<Rightarrow> 'st Batch \<Rightarrow> 'st Batch" where
  "retry_round ops now b =
     (case send ops (b_retry b) (b_attempts b \<ge> 3) (b\<lparr>b_retry := []\<rparr>) of
        (still, b1) \<Rightarrow>
          let delay = min (b_retry_delay b1 * 2) RETRY_MAX in
          end_round (b1\<lparr>b_attempts := b_attempts b1 + 1, b_retry_delay := delay,
                        b_retry_at := now + delay, b_retry := still\<rparr>))"

text \<open>
  The steps of the system. The flusher wakes for a message when the channel is not empty, and
  for a retry when one is due. It may be gone (the runtime is shutting down): sends fail then.
  Acquisitions and other processes change the wrapped store at any time.
\<close>

inductive batch_step :: "'st CapacityOps \<Rightarrow> 'st Batch \<Rightarrow> 'st Batch \<Rightarrow> bool" for ops where
  step_release: "batch_step ops b (snd (batch_release ops b c q))"
| step_flush: "k \<notin> fst ` set (b_snaps b) \<Longrightarrow> batch_step ops b (batch_flush b k)"
| step_store: "batch_step ops b (b\<lparr>b_inner := st\<rparr>)"
| step_msg: "b_alive b \<Longrightarrow> b_chan b \<noteq> [] \<Longrightarrow> batch_step ops b (msg_round ops now b)"
| step_retry: "b_alive b \<Longrightarrow> b_retry b \<noteq> [] \<Longrightarrow> now \<ge> b_retry_at b \<Longrightarrow>
    batch_step ops b (retry_round ops now b)"
| step_gone: "batch_step ops b (b\<lparr>b_alive := False\<rparr>)"

inductive batch_reachable :: "'st CapacityOps \<Rightarrow> 'st Batch \<Rightarrow> bool" for ops where
  batch_init: "batch_reachable ops (Batch_new st now)"
| batch_next: "batch_reachable ops b \<Longrightarrow> batch_step ops b b' \<Longrightarrow> batch_reachable ops b'"

section \<open>Outstanding releases\<close>

fun releases :: "Msg list \<Rightarrow> lease list" where
  "releases [] = []"
| "releases (Release c q # ms) = (c, q) # releases ms"
| "releases (Flush k # ms) = releases ms"

fun flush_ids :: "Msg list \<Rightarrow> nat list" where
  "flush_ids [] = []"
| "flush_ids (Release c q # ms) = flush_ids ms"
| "flush_ids (Flush k # ms) = k # flush_ids ms"

lemma releases_append [simp]: "releases (xs @ ys) = releases xs @ releases ys"
  by (induction xs rule: releases.induct) auto

lemma flush_ids_append [simp]: "flush_ids (xs @ ys) = flush_ids xs @ flush_ids ys"
  by (induction xs rule: flush_ids.induct) auto

lemma flush_ids_split: "k \<in> set (flush_ids ms) \<Longrightarrow> \<exists>xs ys. ms = xs @ Flush k # ys"
proof (induction ms rule: flush_ids.induct)
  case (2 c q ms)
  then obtain xs ys where "ms = xs @ Flush k # ys" by auto
  then have "Release c q # ms = (Release c q # xs) @ Flush k # ys" by simp
  then show ?case by blast
next
  case (3 j ms)
  show ?case
  proof (cases "j = k")
    case False
    with 3 obtain xs ys where "ms = xs @ Flush k # ys" by auto
    then have "Flush j # ms = (Flush j # xs) @ Flush k # ys" by simp
    then show ?thesis by blast
  qed auto
qed simp

definition outstanding :: "'st Batch \<Rightarrow> lease list" where
  "outstanding b = releases (b_chan b) @ b_retry b"

definition queued_count :: "(string \<times> nat) list \<Rightarrow> string \<Rightarrow> nat" where
  "queued_count q i = (case map_of q i of Some n \<Rightarrow> n | None \<Rightarrow> 0)"

definition queued_pos :: "(string \<times> nat) list \<Rightarrow> bool" where
  "queued_pos q \<longleftrightarrow> (\<forall>i n. map_of q i = Some n \<longrightarrow> n > 0)"

lemma queued_inc_facts:
  "queued_count (queued_inc i q) j = queued_count q j + (if i = j then 1 else 0)"
  "queued_pos q \<Longrightarrow> queued_pos (queued_inc i q)"
  by (auto simp: queued_count_def queued_pos_def queued_inc_def update_conv' split: option.splits)

lemma queued_dec_facts:
  "queued_count (queued_dec i q) j = queued_count q j - (if i = j then 1 else 0)"
  "queued_pos q \<Longrightarrow> queued_pos (queued_dec i q)"
  by (auto simp: queued_count_def queued_pos_def queued_dec_def update_conv' delete_conv' split: option.splits if_splits)

lemma queued_dec_fold:
  "queued_count (fold (\<lambda>l. queued_dec (snd l)) ls q) j = queued_count q j - count_list (map snd ls) j"
  "queued_pos q \<Longrightarrow> queued_pos (fold (\<lambda>l. queued_dec (snd l)) ls q)"
  by (induction ls arbitrary: q) (auto simp: queued_dec_facts)

lemma mark_sent_mark_sent [simp]: "mark_sent ys (mark_sent xs b) = mark_sent (xs @ ys) b"
  by (simp add: mark_sent_def)

lemma mark_sent_inner: "(mark_sent xs b)\<lparr>b_inner := st\<rparr> = mark_sent xs (b\<lparr>b_inner := st\<rparr>)"
  by (simp add: mark_sent_def)

lemma send_each_spec:
  "send_each ops ls b = (failed, b') \<Longrightarrow>
     \<exists>done' st. mset ls = mset done' + mset failed \<and> b' = mark_sent done' (b\<lparr>b_inner := st\<rparr>)"
proof (induction ls arbitrary: b failed b')
  case Nil
  have "b = mark_sent [] (b\<lparr>b_inner := b_inner b\<rparr>)" by (simp add: mark_sent_def)
  with Nil show ?case by (metis add.right_neutral mset.simps(1) prod.inject send_each.simps(1))
next
  case (Cons l ls)
  obtain r st where r: "cap_release ops (b_inner b) (fst l) (snd l) = (r, st)" by fastforce
  show ?case
  proof (cases r)
    case (Inr u)
    with Cons.prems r have "send_each ops ls (mark_sent [l] (b\<lparr>b_inner := st\<rparr>)) = (failed, b')" by simp
    from Cons.IH [OF this] obtain d st' where
      d: "mset ls = mset d + mset failed" "b' = mark_sent d ((mark_sent [l] (b\<lparr>b_inner := st\<rparr>))\<lparr>b_inner := st'\<rparr>)" by blast
    then have "mset (l # ls) = mset (l # d) + mset failed" "b' = mark_sent (l # d) (b\<lparr>b_inner := st'\<rparr>)"
      by (simp_all add: mark_sent_inner)
    then show ?thesis by blast
  next
    case (Inl e)
    obtain f b1 where f: "send_each ops ls (b\<lparr>b_inner := st\<rparr>) = (f, b1)" by fastforce
    with Cons.prems r Inl have eq: "failed = l # f" "b' = b1" by auto
    from Cons.IH [OF f] obtain d st' where
      "mset ls = mset d + mset f" "b1 = mark_sent d (b\<lparr>b_inner := st'\<rparr>)" by auto
    with eq show ?thesis by (metis mset.simps(2) union_mset_add_mset_right)
  qed
qed

lemma send_spec:
  assumes "send ops ls o' b = (failed, b')"
  shows "\<exists>done' st. mset ls = mset done' + mset failed \<and> b' = mark_sent done' (b\<lparr>b_inner := st\<rparr>)"
proof -
  have id: "b\<lparr>b_inner := st\<rparr> = mark_sent [] (b\<lparr>b_inner := st\<rparr>)" for st by (simp add: mark_sent_def)
  consider "ls = []" | "ls \<noteq> []" "\<not> o' \<or> length ls = 1" | "ls \<noteq> []" "\<not> (\<not> o' \<or> length ls = 1)" by blast
  then show ?thesis
  proof cases
    case 1
    with assms have "failed = []" "b' = b\<lparr>b_inner := b_inner b\<rparr>" by (auto simp: send_def)
    with 1 id show ?thesis by (metis add.right_neutral mset.simps(1))
  next
    case 2
    obtain r st where r: "cap_release_many ops (b_inner b) ls = (r, st)" by fastforce
    show ?thesis
    proof (cases r)
      case (Inl e)
      with 2 assms r have "failed = ls" "b' = b\<lparr>b_inner := st\<rparr>" by (auto simp: send_def)
      with id show ?thesis by (metis add.left_neutral mset.simps(1))
    next
      case (Inr u)
      with 2 assms r have "failed = []" "b' = mark_sent ls (b\<lparr>b_inner := st\<rparr>)" by (auto simp: send_def)
      then show ?thesis by (metis add.right_neutral mset.simps(1))
    qed
  next
    case 3
    with assms have "send_each ops ls b = (failed, b')" by (auto simp: send_def)
    then show ?thesis by (rule send_each_spec)
  qed
qed

lemma drain_spec:
  "drain ms fresh fl = (fresh', fl', rest) \<Longrightarrow>
     \<exists>pre. ms = pre @ rest \<and> fresh' = fresh @ releases pre \<and> fl' = fl @ flush_ids pre"
proof (induction ms fresh fl rule: drain.induct)
  case (2 m ms fresh fl)
  show ?case
  proof (cases m)
    case (Release c q)
    show ?thesis
    proof (cases "length (fresh @ [(c, q)]) \<ge> MAX_BATCH")
      case True
      with 2(3) Release have "m # ms = [m] @ rest" "fresh' = fresh @ releases [m]" "fl' = fl @ flush_ids [m]" by auto
      then show ?thesis by blast
    next
      case False
      with 2(1) [OF Release False] 2(3) Release obtain pre where
        "ms = pre @ rest" "fresh' = (fresh @ [(c, q)]) @ releases pre" "fl' = fl @ flush_ids pre" by auto
      with Release have "m # ms = (m # pre) @ rest" "fresh' = fresh @ releases (m # pre)" "fl' = fl @ flush_ids (m # pre)" by auto
      then show ?thesis by blast
    qed
  next
    case (Flush k)
    show ?thesis
    proof (cases "length fresh \<ge> MAX_BATCH")
      case True
      with 2(3) Flush have "m # ms = [m] @ rest" "fresh' = fresh @ releases [m]" "fl' = fl @ flush_ids [m]" by auto
      then show ?thesis by blast
    next
      case False
      with 2(2) [OF Flush False] 2(3) Flush obtain pre where
        "ms = pre @ rest" "fresh' = fresh @ releases pre" "fl' = (fl @ [k]) @ flush_ids pre" by auto
      with Flush have "m # ms = (m # pre) @ rest" "fresh' = fresh @ releases (m # pre)" "fl' = fl @ flush_ids (m # pre)" by auto
      then show ?thesis by blast
    qed
  qed
qed simp

section \<open>The invariant\<close>

definition batch_inv :: "'st Batch \<Rightarrow> bool" where
  "batch_inv b \<longleftrightarrow>
     b_pending b = length (outstanding b)
     \<and> queued_pos (b_queued b) \<and> (\<forall>i. queued_count (b_queued b) i = count_list (map snd (outstanding b)) i)
     \<and> mset (b_accepted b) = mset (b_sent b) + mset (outstanding b)"

definition covered :: "'st Batch \<Rightarrow> nat \<Rightarrow> lease list \<Rightarrow> bool" where
  "covered b k S \<longleftrightarrow>
     (k \<in> set (b_acked b) \<longrightarrow> mset S \<subseteq># mset (b_sent b))
     \<and> (k \<in> set (b_flushes b) \<longrightarrow> mset S \<subseteq># mset (b_sent b) + mset (b_retry b))
     \<and> (\<forall>xs ys. b_chan b = xs @ Flush k # ys \<longrightarrow>
          mset S \<subseteq># mset (b_sent b) + mset (b_retry b) + mset (releases xs))"

definition flush_inv :: "'st Batch \<Rightarrow> bool" where
  "flush_inv b \<longleftrightarrow>
     set (flush_ids (b_chan b)) \<union> set (b_flushes b) \<union> set (b_acked b) \<subseteq> fst ` set (b_snaps b)
     \<and> (\<forall>k S. map_of (b_snaps b) k = Some S \<longrightarrow> covered b k S)"

lemma count_list_mset: "count_list xs x = count (mset xs) x"
  by (induction xs) auto

text \<open>One round: the flusher reads a prefix of the channel, sends a list of leases and keeps the failed ones.\<close>

lemma round_inv:
  assumes inv: "batch_inv b" and out: "mset (outstanding b) = mset done' + mset (outstanding b')"
    and b': "b_pending b' = b_pending b - length done'"
      "b_queued b' = fold (\<lambda>l. queued_dec (snd l)) done' (b_queued b)"
      "b_sent b' = b_sent b @ done'" "b_accepted b' = b_accepted b"
  shows "batch_inv b'"
proof -
  have len: "length (outstanding b) = length done' + length (outstanding b')"
    using arg_cong [OF out, of size] by simp
  have "mset (map snd (outstanding b)) = mset (map snd done') + mset (map snd (outstanding b'))"
    using arg_cong [OF out, of "image_mset snd"] by simp
  then have cnt: "count_list (map snd (outstanding b)) i
      = count_list (map snd done') i + count_list (map snd (outstanding b')) i" for i
    by (metis count_list_mset count_union)
  show ?thesis
    using inv out len cnt by (simp add: batch_inv_def b' queued_dec_fold)
qed

lemma end_round_simps [simp]:
  "outstanding (end_round b) = outstanding b" "b_pending (end_round b) = b_pending b"
  "b_queued (end_round b) = b_queued b" "b_sent (end_round b) = b_sent b"
  "b_accepted (end_round b) = b_accepted b" "b_chan (end_round b) = b_chan b"
  "b_retry (end_round b) = b_retry b" "b_snaps (end_round b) = b_snaps b"
  by (simp_all add: end_round_def outstanding_def)

lemma mark_sent_simps [simp]:
  "b_chan (mark_sent d b) = b_chan b" "b_retry (mark_sent d b) = b_retry b"
  "b_accepted (mark_sent d b) = b_accepted b" "b_sent (mark_sent d b) = b_sent b @ d"
  "b_pending (mark_sent d b) = b_pending b - length d"
  "b_queued (mark_sent d b) = fold (\<lambda>l. queued_dec (snd l)) d (b_queued b)"
  "b_flushes (mark_sent d b) = b_flushes b" "b_acked (mark_sent d b) = b_acked b"
  "b_snaps (mark_sent d b) = b_snaps b"
  by (simp_all add: mark_sent_def)

lemma flush_inv_end_round:
  assumes "flush_inv b" shows "flush_inv (end_round b)"
proof (cases "b_retry b = []")
  case True
  with assms show ?thesis by (auto simp: flush_inv_def covered_def end_round_def)
next
  case False
  with assms show ?thesis by (simp add: end_round_def)
qed

text \<open>What a message round does to the parts the invariants speak about.\<close>

lemma msg_round_effect:
  obtains pre rest done' failed b1 where
    "b_chan b = pre @ rest" "mset (releases pre) = mset done' + mset failed" "msg_round ops now b = end_round b1"
    "b_chan b1 = rest" "b_retry b1 = b_retry b @ failed" "b_sent b1 = b_sent b @ done'"
    "b_pending b1 = b_pending b - length done'" "b_accepted b1 = b_accepted b" "b_snaps b1 = b_snaps b"
    "b_queued b1 = fold (\<lambda>l. queued_dec (snd l)) done' (b_queued b)"
    "b_flushes b1 = b_flushes b @ flush_ids pre" "b_acked b1 = b_acked b"
proof -
  obtain fresh fl rest where d: "drain (b_chan b) [] (b_flushes b) = (fresh, fl, rest)" by (metis prod.exhaust)
  from drain_spec [OF d] obtain pre where pre: "b_chan b = pre @ rest" "fresh = releases pre"
    "fl = b_flushes b @ flush_ids pre" by auto
  obtain failed b0 where s: "send ops fresh False (b\<lparr>b_chan := rest, b_flushes := fl\<rparr>) = (failed, b0)" by fastforce
  from send_spec [OF s] obtain done' st where
    b0: "mset fresh = mset done' + mset failed" "b0 = mark_sent done' (b\<lparr>b_chan := rest, b_flushes := fl, b_inner := st\<rparr>)"
    by auto
  let ?b2 = "if failed \<noteq> [] \<and> b_retry b0 = [] then b0\<lparr>b_retry_at := now + b_retry_delay b0\<rparr> else b0"
  let ?b1 = "?b2\<lparr>b_retry := b_retry ?b2 @ failed\<rparr>"
  have m: "msg_round ops now b = end_round ?b1" by (simp add: msg_round_def d s Let_def)
  show thesis
    by (rule that [of pre rest done' failed ?b1]) (use pre b0 m in simp_all)
qed

lemma retry_round_effect:
  obtains done' still b1 where
    "mset (b_retry b) = mset done' + mset still" "retry_round ops now b = end_round b1"
    "b_chan b1 = b_chan b" "b_retry b1 = still" "b_sent b1 = b_sent b @ done'"
    "b_pending b1 = b_pending b - length done'" "b_accepted b1 = b_accepted b" "b_snaps b1 = b_snaps b"
    "b_queued b1 = fold (\<lambda>l. queued_dec (snd l)) done' (b_queued b)"
    "b_flushes b1 = b_flushes b" "b_acked b1 = b_acked b"
proof -
  obtain still b0 where s: "send ops (b_retry b) (b_attempts b \<ge> 3) (b\<lparr>b_retry := []\<rparr>) = (still, b0)" by fastforce
  from send_spec [OF s] obtain done' st where
    b0: "mset (b_retry b) = mset done' + mset still" "b0 = mark_sent done' (b\<lparr>b_retry := [], b_inner := st\<rparr>)"
    by auto
  let ?d = "min (b_retry_delay b0 * 2) RETRY_MAX"
  let ?b1 = "b0\<lparr>b_attempts := b_attempts b0 + 1, b_retry_delay := ?d, b_retry_at := now + ?d, b_retry := still\<rparr>"
  have m: "retry_round ops now b = end_round ?b1" by (simp add: retry_round_def s Let_def)
  show thesis by (rule that [of done' still ?b1]) (use b0 m in simp_all)
qed


lemma batch_release_cases:
  obtains st where "snd (batch_release ops b c q) = b\<lparr>b_inner := st\<rparr>"
  | "snd (batch_release ops b c q) =
      b\<lparr>b_pending := b_pending b + 1, b_queued := queued_inc q (b_queued b),
        b_chan := b_chan b @ [Release c q], b_accepted := b_accepted b @ [(c, q)]\<rparr>"
  | st where "b_pending b < MAX_PENDING" "snd (batch_release ops b c q) =
      b\<lparr>b_inner := st, b_queued := queued_dec q (queued_inc q (b_queued b))\<rparr>"
proof -
  obtain r st where r: "cap_release ops (b_inner b) c q = (r, st)" by fastforce
  consider "\<not> b_pending b < MAX_PENDING" | "b_pending b < MAX_PENDING" "b_alive b"
    | "b_pending b < MAX_PENDING" "\<not> b_alive b" by blast
  then show thesis
  proof cases
    case 1
    with r that(1) [of st] show thesis by (simp add: batch_release_def Let_def)
  next
    case 2
    with that(2) show thesis by (simp add: batch_release_def Let_def)
  next
    case 3
    have "snd (batch_release ops b c q) = b\<lparr>b_inner := st, b_queued := queued_dec q (queued_inc q (b_queued b))\<rparr>"
      using 3 r by (cases b) (simp add: batch_release_def Let_def)
    with 3 that(3) show thesis by blast
  qed
qed

lemma batch_inv_step: "batch_step ops b b' \<Longrightarrow> batch_inv b \<Longrightarrow> batch_inv b'"
proof (induction rule: batch_step.induct)
  case (step_release b c q)
  show ?case
    by (rule batch_release_cases [of ops b c q])
      (use step_release in \<open>auto simp: batch_inv_def outstanding_def queued_inc_facts queued_dec_facts\<close>)
next
  case (step_flush k b)
  then show ?case by (auto simp: batch_inv_def batch_flush_def outstanding_def)
next
  case (step_msg b now)
  obtain pre rest d failed b1 where e: "b_chan b = pre @ rest" "mset (releases pre) = mset d + mset failed"
    "msg_round ops now b = end_round b1"
    "b_chan b1 = rest" "b_retry b1 = b_retry b @ failed" "b_sent b1 = b_sent b @ d"
    "b_pending b1 = b_pending b - length d" "b_accepted b1 = b_accepted b"
    "b_queued b1 = fold (\<lambda>l. queued_dec (snd l)) d (b_queued b)"
    by (rule msg_round_effect)
  show ?case
    by (rule round_inv [OF step_msg(3), of d]) (use e in \<open>simp_all add: outstanding_def\<close>)
next
  case (step_retry b now)
  obtain d still b1 where e: "mset (b_retry b) = mset d + mset still" "retry_round ops now b = end_round b1"
    "b_chan b1 = b_chan b" "b_retry b1 = still" "b_sent b1 = b_sent b @ d"
    "b_pending b1 = b_pending b - length d" "b_accepted b1 = b_accepted b"
    "b_queued b1 = fold (\<lambda>l. queued_dec (snd l)) d (b_queued b)"
    by (rule retry_round_effect)
  show ?case
    by (rule round_inv [OF step_retry(4), of d]) (use e in \<open>simp_all add: outstanding_def\<close>)
qed (auto simp: batch_inv_def outstanding_def)

lemma flush_inv_same:
  assumes "flush_inv b" "b_chan b' = b_chan b" "b_flushes b' = b_flushes b" "b_acked b' = b_acked b"
    "b_snaps b' = b_snaps b" "b_sent b' = b_sent b" "b_retry b' = b_retry b"
  shows "flush_inv b'"
  using assms by (simp add: flush_inv_def covered_def)

lemma flush_inv_send:
  assumes inv: "flush_inv b" and b': "b_chan b' = b_chan b @ [Release c q]" "b_flushes b' = b_flushes b"
    "b_acked b' = b_acked b" "b_snaps b' = b_snaps b" "b_sent b' = b_sent b" "b_retry b' = b_retry b"
  shows "flush_inv b'"
proof -
  have sp: "\<exists>zs. b_chan b = xs @ Flush k # zs" if "b_chan b @ [Release c q] = xs @ Flush k # ys" for k xs ys
    using that by (cases ys rule: rev_cases) auto
  have "covered b' k S" if "covered b k S" for k S
    using that sp unfolding covered_def b' by blast
  with inv show ?thesis by (simp add: flush_inv_def b')
qed

lemma covered_round:
  assumes cov: "covered b k S" and ch: "b_chan b = pre @ b_chan b'"
    and fl: "b_flushes b' = b_flushes b @ flush_ids pre" "b_acked b' = b_acked b"
    and eq: "mset (b_sent b') + mset (b_retry b') = mset (b_sent b) + mset (b_retry b) + mset (releases pre)"
    and mono: "mset (b_sent b) \<subseteq># mset (b_sent b')"
  shows "covered b' k S"
  unfolding covered_def
proof (intro conjI allI impI)
  have old: "k \<in> set (b_acked b) \<Longrightarrow> mset S \<subseteq># mset (b_sent b)"
    "k \<in> set (b_flushes b) \<Longrightarrow> mset S \<subseteq># mset (b_sent b) + mset (b_retry b)"
    "\<And>xs ys. b_chan b = xs @ Flush k # ys \<Longrightarrow> mset S \<subseteq># mset (b_sent b) + mset (b_retry b) + mset (releases xs)"
    using cov unfolding covered_def by blast+
  show "mset S \<subseteq># mset (b_sent b')" if "k \<in> set (b_acked b')"
    using subset_mset.order_trans [OF old(1) mono] that fl(2) by simp
  show "mset S \<subseteq># mset (b_sent b') + mset (b_retry b')" if "k \<in> set (b_flushes b')"
  proof (cases "k \<in> set (b_flushes b)")
    case True
    from subset_mset.order_trans [OF old(2) [OF True] mset_subset_eq_add_left] show ?thesis
      unfolding eq .
  next
    case False
    with that fl(1) have "k \<in> set (flush_ids pre)" by simp
    from flush_ids_split [OF this] obtain xs ys where pre: "pre = xs @ Flush k # ys" by blast
    then have "b_chan b = xs @ Flush k # (ys @ b_chan b')" using ch by simp
    from subset_mset.order_trans [OF old(3) [OF this] mset_subset_eq_add_left] show ?thesis
      unfolding eq pre by (simp add: add.assoc)
  qed
  show "mset S \<subseteq># mset (b_sent b') + mset (b_retry b') + mset (releases xs)"
    if "b_chan b' = xs @ Flush k # ys" for xs ys
    using old(3) [of "pre @ xs" ys] that ch unfolding eq by (simp add: add.assoc)
qed

lemma flush_inv_round:
  assumes inv: "flush_inv b" and ch: "b_chan b = pre @ b_chan b'"
    and fl: "b_flushes b' = b_flushes b @ flush_ids pre" "b_acked b' = b_acked b" "b_snaps b' = b_snaps b"
    and eq: "mset (b_sent b') + mset (b_retry b') = mset (b_sent b) + mset (b_retry b) + mset (releases pre)"
    and mono: "mset (b_sent b) \<subseteq># mset (b_sent b')"
  shows "flush_inv b'"
proof -
  have "set (flush_ids (b_chan b')) \<union> set (b_flushes b') \<union> set (b_acked b') \<subseteq> fst ` set (b_snaps b')"
    using inv by (auto simp: flush_inv_def fl ch)
  moreover have "covered b' k S" if "map_of (b_snaps b') k = Some S" for k S
    using inv that covered_round [OF _ ch fl(1,2) eq mono] unfolding flush_inv_def fl(3) by blast
  ultimately show ?thesis by (simp add: flush_inv_def)
qed

lemma flush_inv_request:
  assumes inv: "flush_inv b" "batch_inv b" and k: "k \<notin> fst ` set (b_snaps b)"
  shows "flush_inv (batch_flush b k)"
proof (cases "b_alive b")
  case True
  let ?b = "b\<lparr>b_chan := b_chan b @ [Flush k], b_snaps := AList.update k (b_accepted b) (b_snaps b)\<rparr>"
  have acc: "mset (b_accepted b) \<subseteq># mset (b_sent b) + mset (b_retry b) + mset (releases (b_chan b))"
    using inv(2) by (simp add: batch_inv_def outstanding_def ac_simps)
  have new: "k \<notin> set (flush_ids (b_chan b))" "k \<notin> set (b_flushes b)" "k \<notin> set (b_acked b)"
    using inv(1) k by (auto simp: flush_inv_def)
  have sp: "(xs = b_chan b \<and> j = k) \<or> (\<exists>zs. b_chan b = xs @ Flush j # zs)"
    if "b_chan b @ [Flush k] = xs @ Flush j # ys" for j xs ys
    using that by (cases ys rule: rev_cases) auto
  have none: "b_chan b \<noteq> xs @ Flush k # zs" for xs zs using new(1) by auto
  have "xs = b_chan b" if "b_chan b @ [Flush k] = xs @ Flush k # ys" for xs ys
    using sp [OF that] none by blast
  then have cov_k: "covered ?b k (b_accepted b)" using new acc by (auto simp: covered_def)
  have cov_j: "covered ?b j S" if "j \<noteq> k" "covered b j S" for j S
  proof -
    have "mset S \<subseteq># mset (b_sent b) + mset (b_retry b) + mset (releases xs)"
      if "b_chan b @ [Flush k] = xs @ Flush j # ys" for xs ys
      using sp [OF that] \<open>j \<noteq> k\<close> \<open>covered b j S\<close> unfolding covered_def by blast
    with that show ?thesis by (simp add: covered_def)
  qed
  have "covered ?b j S" if "map_of (b_snaps ?b) j = Some S" for j S
    using that cov_k cov_j inv(1) by (cases "j = k") (auto simp: flush_inv_def update_conv')
  moreover have "set (flush_ids (b_chan ?b)) \<union> set (b_flushes ?b) \<union> set (b_acked ?b) \<subseteq> fst ` set (b_snaps ?b)"
    using inv(1) by (auto simp: flush_inv_def dom_update)
  ultimately show ?thesis using True by (simp add: flush_inv_def batch_flush_def)
qed (use inv in \<open>simp add: batch_flush_def\<close>)

lemma flush_inv_step:
  assumes "batch_step ops b b'" "batch_inv b" "flush_inv b" shows "flush_inv b'"
  using assms
proof (induction rule: batch_step.induct)
  case (step_release b c q)
  show ?case
  proof (cases rule: batch_release_cases [of ops b c q])
    case 2
    then show ?thesis by (intro flush_inv_send [OF step_release(2)]) auto
  qed (auto intro!: flush_inv_same [OF step_release(2)])
next
  case (step_flush k b)
  then show ?case by (intro flush_inv_request)
next
  case (step_msg b now)
  obtain pre rest d failed b1 where e: "b_chan b = pre @ rest" "mset (releases pre) = mset d + mset failed"
    "msg_round ops now b = end_round b1"
    "b_chan b1 = rest" "b_retry b1 = b_retry b @ failed" "b_sent b1 = b_sent b @ d" "b_snaps b1 = b_snaps b"
    "b_flushes b1 = b_flushes b @ flush_ids pre" "b_acked b1 = b_acked b"
    by (rule msg_round_effect)
  have "flush_inv b1"
    by (rule flush_inv_round [OF step_msg(4), of pre]) (use e in \<open>simp_all add: ac_simps\<close>)
  with e(3) show ?case by (simp add: flush_inv_end_round)
next
  case (step_retry b now)
  obtain d still b1 where e: "mset (b_retry b) = mset d + mset still" "retry_round ops now b = end_round b1"
    "b_chan b1 = b_chan b" "b_retry b1 = still" "b_sent b1 = b_sent b @ d" "b_snaps b1 = b_snaps b"
    "b_flushes b1 = b_flushes b" "b_acked b1 = b_acked b"
    by (rule retry_round_effect)
  have "flush_inv b1"
    by (rule flush_inv_round [OF step_retry(5), of "[]"]) (use e in \<open>simp_all add: ac_simps\<close>)
  with e(2) show ?case by (simp add: flush_inv_end_round)
next
  case (step_store b st)
  show ?case by (rule flush_inv_same [OF step_store(2)]) simp_all
next
  case (step_gone b)
  show ?case by (rule flush_inv_same [OF step_gone(2)]) simp_all
qed

lemma batch_reachable_inv: "batch_reachable ops b \<Longrightarrow> batch_inv b \<and> flush_inv b"
proof (induction rule: batch_reachable.induct)
  case (batch_init st now)
  show ?case
    by (simp add: batch_inv_def flush_inv_def Batch_new_def outstanding_def queued_pos_def queued_count_def)
next
  case (batch_next b b')
  then show ?case using batch_inv_step flush_inv_step by blast
qed


section \<open>What a confirmed release means\<close>

lemma b_inner_mark_sent [simp]: "b_inner (mark_sent d b) = b_inner b"
  by (simp add: mark_sent_def)

context releasing_store
begin

lemma send_each_shrinks: "send_each ops ls b = (failed, b') \<Longrightarrow> held (b_inner b') \<subseteq> held (b_inner b)"
proof (induction ls arbitrary: b failed b')
  case (Cons l ls)
  obtain r st where r: "cap_release ops (b_inner b) (fst l) (snd l) = (r, st)" by fastforce
  show ?case
  proof (cases r)
    case (Inr u)
    with Cons.prems r have "send_each ops ls (mark_sent [l] (b\<lparr>b_inner := st\<rparr>)) = (failed, b')" by simp
    from Cons.IH [OF this] release_shrinks [OF r] show ?thesis by simp
  next
    case (Inl e)
    obtain f b1 where f: "send_each ops ls (b\<lparr>b_inner := st\<rparr>) = (f, b1)" by fastforce
    with Cons.prems r Inl have "b' = b1" by auto
    with Cons.IH [OF f] release_shrinks [OF r] show ?thesis by simp
  qed
qed simp

lemma send_each_confirmed:
  "send_each ops ls b = (failed, b') \<Longrightarrow> held (b_inner b') \<inter> (set ls - set failed) = {}"
proof (induction ls arbitrary: b failed b')
  case (Cons l ls)
  obtain r st where r: "cap_release ops (b_inner b) (fst l) (snd l) = (r, st)" by fastforce
  show ?case
  proof (cases r)
    case (Inr u)
    with Cons.prems r have s: "send_each ops ls (mark_sent [l] (b\<lparr>b_inner := st\<rparr>)) = (failed, b')" by simp
    have "l \<notin> held st" using release_done r Inr by (metis prod.collapse)
    with send_each_shrinks [OF s] Cons.IH [OF s] show ?thesis by auto
  next
    case (Inl e)
    obtain f b1 where f: "send_each ops ls (b\<lparr>b_inner := st\<rparr>) = (f, b1)" by fastforce
    with Cons.prems r Inl have "b' = b1" "failed = l # f" by auto
    with Cons.IH [OF f] show ?thesis by auto
  qed
qed simp

lemma send_confirmed:
  "send ops ls o' b = (failed, b') \<Longrightarrow> held (b_inner b') \<inter> (set ls - set failed) = {}"
  using send_each_confirmed [of ls b failed b'] release_many_done [of "b_inner b" ls]
  by (fastforce simp: send_def split: if_splits prod.splits sum.splits)

end

section \<open>Properties\<close>

text \<open>
  Claim C14. Releases are neither lost nor counted twice. In every reachable state of callers and
  flusher, whatever the wrapped store answers: the releases accepted so far are exactly those
  the store has confirmed together with those still queued or waiting for a retry; the pending
  counter is the number of the latter; and the table of query ids lists an id exactly when a
  release for it is outstanding, with their number.
\<close>

theorem release_accounting:
  assumes "batch_reachable ops b"
  shows "mset (b_accepted b) = mset (b_sent b) + mset (releases (b_chan b)) + mset (b_retry b)
    \<and> b_pending b = length (releases (b_chan b)) + length (b_retry b)
    \<and> (\<forall>i. map_of (b_queued b) i =
          (let n = count_list (map snd (releases (b_chan b) @ b_retry b)) i
           in if n = 0 then None else Some n))"
proof -
  have inv: "batch_inv b" using batch_reachable_inv [OF assms] by simp
  have "map_of (b_queued b) i = (let n = count_list (map snd (outstanding b)) i in if n = 0 then None else Some n)" for i
    using inv by (auto simp: batch_inv_def queued_count_def queued_pos_def Let_def split: option.splits)
      (metis less_irrefl option.exhaust)+
  with inv show ?thesis by (simp add: batch_inv_def outstanding_def add.assoc)
qed

text \<open>
  An answered flush means what it promises: every release that had been queued when the
  flush was requested has been confirmed by the wrapped store, retries included. This is what
  an acquire for a query with a queued release waits for.
\<close>

theorem flush_covers_earlier_releases:
  assumes "batch_reachable ops b" "k \<in> set (b_acked b)"
  shows "\<exists>S. map_of (b_snaps b) k = Some S \<and> mset S \<subseteq># mset (b_sent b)"
proof -
  have inv: "flush_inv b" using batch_reachable_inv [OF assms(1)] by simp
  then have "k \<in> fst ` set (b_snaps b)" using assms(2) by (auto simp: flush_inv_def)
  then obtain S where S: "map_of (b_snaps b) k = Some S" by (metis map_of_eq_None_iff not_None_eq)
  with inv assms(2) show ?thesis by (auto simp: flush_inv_def covered_def)
qed

definition example_batch :: "unit Batch" where
  "example_batch = msg_round in_memory_capacity 1
     (batch_flush (snd (batch_release in_memory_capacity (Batch_new () 0) ''c'' ''q'')) 7)"

lemmas batch_eval = example_batch_def msg_round_def batch_flush_def batch_release_def Batch_new_def
  MAX_PENDING_def MAX_BATCH_def send_def in_memory_capacity_def in_memory_release_def mark_sent_def
  end_round_def queued_inc_def queued_dec_def Let_def

lemma example_batch_reachable: "batch_reachable in_memory_capacity example_batch"
proof -
  let ?b1 = "snd (batch_release in_memory_capacity (Batch_new () 0) ''c'' ''q'')"
  have "batch_reachable in_memory_capacity ?b1"
    by (rule batch_next [OF batch_init step_release])
  moreover have "7 \<notin> fst ` set (b_snaps ?b1)" by (simp add: batch_eval)
  ultimately have r: "batch_reachable in_memory_capacity (batch_flush ?b1 7)"
    by (blast intro: batch_next step_flush)
  have "b_alive (batch_flush ?b1 7)" "b_chan (batch_flush ?b1 7) \<noteq> []" by (simp_all add: batch_eval)
  with r show ?thesis unfolding example_batch_def by (blast intro: batch_next step_msg)
qed

theorem release_accounting_witness:
  "mset (b_accepted example_batch) = {#(''c'', ''q'')#} \<and> b_pending example_batch = 0"
  using release_accounting [OF example_batch_reachable] by (simp add: batch_eval)

theorem flush_covers_earlier_releases_witness:
  "\<exists>S. map_of (b_snaps example_batch) 7 = Some S \<and> mset S \<subseteq># mset (b_sent example_batch)"
proof (rule flush_covers_earlier_releases [OF example_batch_reachable])
  show "7 \<in> set (b_acked example_batch)" by (simp add: batch_eval)
qed

end
