(* ===== verification/Query_Tags.thy ===== *)
theory Query_Tags
  imports Rust_Strings "HOL-Library.AList"
begin

text \<open>
  Query tags: \<open>crates/queryflux-core/src/tags.rs\<close>. A tag map (\<open>HashMap<String, Option<String>>\<close>)
  is an association list with distinct keys. \<open>serde_json\<close> is a parameter: \<open>json raw\<close> is the
  entries of the object that \<open>serde_json::from_str\<close> reads from \<open>raw\<close>, or \<open>None\<close> when the text is
  not JSON or not an object. A value other than null and a string is only ever rendered, so it
  is kept as its rendering. A result \<open>None\<close> of the parsers is the panic of a byte slice that
  cuts a character in half.
\<close>

section \<open>Data\<close>

type_synonym QueryTags = "(string \<times> string option) list"

datatype json_value = Json_Null | Json_String string | Json_Other string

type_synonym json_object = "(string \<times> json_value) list"

definition MAX_TAGS :: nat where "MAX_TAGS = 20"
definition MAX_KEY_LEN :: nat where "MAX_KEY_LEN = 128"
definition MAX_VAL_LEN :: nat where "MAX_VAL_LEN = 128"

definition quoted :: "string \<Rightarrow> string" where
  "quoted s = CHR 0x27 # s @ [CHR 0x27]"

definition warn_max :: string where
  "warn_max = ''query_tags: max 20 tags exceeded, remaining tags dropped''"

definition warn_key_len :: "string \<Rightarrow> string" where
  "warn_key_len p = ''query_tags: key '' @ quoted (p @ ''...'') @ '' exceeds 128 chars, dropped''"

definition warn_key_chars :: "string \<Rightarrow> string" where
  "warn_key_chars k = ''query_tags: key '' @ quoted k @ '' contains invalid characters, dropped''"

definition warn_val_len :: "string \<Rightarrow> string" where
  "warn_val_len k = ''query_tags: value for key '' @ quoted k @ '' exceeds 128 chars, dropped''"

section \<open>Operations\<close>

definition tag_char :: "char \<Rightarrow> bool" where
  "tag_char c \<longleftrightarrow> is_alphanumeric c \<or> c = CHR ''_'' \<or> c = CHR ''-''"

fun validate_loop ::
  "(string \<times> string option) list \<Rightarrow> QueryTags \<Rightarrow> string list \<Rightarrow> (QueryTags \<times> string list) option" where
  "validate_loop [] tags ws = Some (tags, ws)"
| "validate_loop ((key, val) # rest) tags ws =
     (if length tags \<ge> MAX_TAGS then Some (tags, ws @ [warn_max])
      else if key = [] then validate_loop rest tags ws
      else if str_len key > MAX_KEY_LEN then
        (case byte_prefix (min MAX_KEY_LEN (str_len key)) key of
           None \<Rightarrow> None
         | Some p \<Rightarrow> validate_loop rest tags (ws @ [warn_key_len p]))
      else if \<not> list_all tag_char key then validate_loop rest tags (ws @ [warn_key_chars key])
      else if (case val of None \<Rightarrow> False | Some v \<Rightarrow> str_len v > MAX_VAL_LEN)
        then validate_loop rest tags (ws @ [warn_val_len key])
      else validate_loop rest (AList.update key val tags) ws)"

definition validate_tags :: "(string \<times> string option) list \<Rightarrow> (QueryTags \<times> string list) option" where
  "validate_tags entries = validate_loop entries [] []"

fun json_tag_value :: "json_value \<Rightarrow> string option" where
  "json_tag_value Json_Null = None"
| "json_tag_value (Json_String s) = Some s"
| "json_tag_value (Json_Other text) = Some text"

definition kv_entry :: "string \<Rightarrow> string \<times> string option" where
  "kv_entry part =
     (let part = trim part in
      case split_once (CHR '':'') part of
        Some (k, v) \<Rightarrow> (trim k, Some (trim v))
      | None \<Rightarrow> (part, None))"

definition parse_query_tags ::
  "(string \<Rightarrow> json_object option) \<Rightarrow> string \<Rightarrow> (QueryTags \<times> string list) option" where
  "parse_query_tags json raw0 =
     (let raw = trim raw0 in
      if raw = [] then Some ([], [])
      else
        (case (if starts_with ''{'' raw then json raw else None) of
           Some obj \<Rightarrow> validate_tags (map (\<lambda>(k, v). (k, json_tag_value v)) obj)
         | None \<Rightarrow> validate_tags (map kv_entry (split_on (CHR '','') raw))))"

definition merge_tags :: "QueryTags \<Rightarrow> QueryTags \<Rightarrow> QueryTags" where
  "merge_tags base over = AList.updates (map fst over) (map snd over) base"

definition tags_to_json :: "QueryTags \<Rightarrow> json_object" where
  "tags_to_json tags =
     map (\<lambda>(k, v). (k, case v of Some s \<Rightarrow> Json_String s | None \<Rightarrow> Json_Null)) tags"

section \<open>The invariant of a parsed map\<close>

definition valid_entry :: "string \<times> string option \<Rightarrow> bool" where
  "valid_entry e \<longleftrightarrow>
     (case e of (k, v) \<Rightarrow> k \<noteq> [] \<and> str_len k \<le> MAX_KEY_LEN \<and> list_all tag_char k
        \<and> (case v of None \<Rightarrow> True | Some s \<Rightarrow> str_len s \<le> MAX_VAL_LEN))"

definition valid_tags :: "QueryTags \<Rightarrow> bool" where
  "valid_tags tags \<longleftrightarrow>
     length tags \<le> MAX_TAGS \<and> distinct (map fst tags) \<and> list_all valid_entry tags"

lemma length_update_le: "length (AList.update k v al) \<le> Suc (length al)"
  by (induction al) auto

lemma set_update_subset: "set (AList.update k v al) \<subseteq> insert (k, v) (set al)"
  by (induction al) auto

lemma valid_tags_update [inv_intros]:
  assumes "valid_tags tags" "valid_entry (k, v)" "length tags < MAX_TAGS"
  shows "valid_tags (AList.update k v tags)"
  using assms length_update_le [of k v tags] set_update_subset [of k v tags] distinct_update [of tags k v]
  unfolding valid_tags_def list_all_iff by auto

lemma validate_loop_valid:
  "validate_loop es tags ws = Some (tags', ws') \<Longrightarrow> valid_tags tags \<Longrightarrow> valid_tags tags'"
proof (induction es tags ws rule: validate_loop.induct)
  case (2 key val rest tags ws)
  have "valid_tags (AList.update key val tags)"
    if "\<not> MAX_TAGS \<le> length tags" "key \<noteq> []" "\<not> MAX_KEY_LEN < str_len key" "list_all tag_char key"
      "\<not> (case val of None \<Rightarrow> False | Some v \<Rightarrow> MAX_VAL_LEN < str_len v)"
    using that "2.prems"(2) by (intro inv_intros) (auto simp: valid_entry_def split: option.splits)
  with 2 show ?case by (auto split: if_splits option.splits)
qed auto

lemma validate_loop_no_panic:
  assumes "\<forall>(k, v) \<in> set es. \<forall>c \<in> set k. len_utf8 c = 1"
  shows "validate_loop es tags ws \<noteq> None"
  using assms
proof (induction es tags ws rule: validate_loop.induct)
  case (2 key val rest tags ws)
  have "byte_prefix (min MAX_KEY_LEN (str_len key)) key \<noteq> None"
    using 2 by (simp add: byte_prefix_ascii)
  with 2 show ?case by (auto split: option.splits)
qed simp

lemma validate_loop_accepts:
  assumes "list_all valid_entry es" "distinct (map fst (tags @ es))" "length (tags @ es) \<le> MAX_TAGS"
  shows "validate_loop es tags ws = Some (tags @ es, ws)"
  using assms
proof (induction es arbitrary: tags)
  case (Cons e es)
  obtain k v where e: "e = (k, v)" by (cases e)
  have new: "k \<notin> fst ` set tags" using Cons.prems(2) e by auto
  then have "AList.update k v tags = tags @ [e]"
    unfolding e by (induction tags) auto
  moreover have "validate_loop es (tags @ [e]) ws = Some (tags @ e # es, ws)"
    using Cons by simp
  moreover have "valid_entry (k, v)" using Cons.prems e by simp
  ultimately show ?case
    using Cons.prems(3) by (auto simp: e valid_entry_def split: option.splits)
qed simp

section \<open>Properties\<close>

text \<open>
  Claim C40. Whatever a client sends and whatever the JSON parser makes of it, a parsed tag map
  has at most twenty entries with distinct, non-empty keys of at most 128 bytes made of
  alphanumeric characters, underscore and hyphen, and values of at most 128 bytes.
\<close>

theorem parse_query_tags_valid:
  assumes "parse_query_tags json raw = Some (tags, warnings)"
  shows "length tags \<le> 20 \<and> distinct (map fst tags)
    \<and> (\<forall>(k, v) \<in> set tags. k \<noteq> [] \<and> str_len k \<le> 128
         \<and> (\<forall>c \<in> set k. is_alphanumeric c \<or> c = CHR ''_'' \<or> c = CHR ''-'')
         \<and> (\<forall>s. v = Some s \<longrightarrow> str_len s \<le> 128))"
proof -
  have "valid_tags []" by (simp add: valid_tags_def)
  with assms have "valid_tags tags"
    by (auto simp: parse_query_tags_def validate_tags_def Let_def
        dest: validate_loop_valid split: if_splits option.splits)
  then show ?thesis
    by (fastforce simp: valid_tags_def list_all_iff valid_entry_def tag_char_def MAX_TAGS_def
        MAX_KEY_LEN_def MAX_VAL_LEN_def)
qed

theorem parse_query_tags_valid_witness:
  "parse_query_tags (\<lambda>_. None) '' team:eng, batch'' = Some ([(''team'', Some ''eng''), (''batch'', None)], [])
   \<and> length [(''team'', Some ''eng''), (''batch'', None :: string option)] \<le> 20"
proof -
  have p: "parse_query_tags (\<lambda>_. None) '' team:eng, batch'' = Some ([(''team'', Some ''eng''), (''batch'', None)], [])"
    by code_simp
  from parse_query_tags_valid [OF p] p show ?thesis by simp
qed

text \<open>
  Storing tags and reading them back: for a valid tag map, a JSON text whose object is
  the one \<open>tags_to_json\<close> builds parses to the same map, with no warning.
\<close>

theorem tags_json_roundtrip:
  assumes "valid_tags tags" "trim raw = raw" "starts_with ''{'' raw"
    and json: "json raw = Some (tags_to_json tags)"
  shows "parse_query_tags json raw = Some (tags, [])"
proof -
  have "map (\<lambda>(k, v). (k, json_tag_value v)) (tags_to_json tags) = tags"
    unfolding tags_to_json_def by (induction tags) (auto split: option.splits)
  moreover have "validate_loop tags [] [] = Some (tags, [])"
    using assms(1) validate_loop_accepts [of tags "[]"] by (simp add: valid_tags_def)
  moreover have "raw \<noteq> []" using assms(3) by auto
  ultimately show ?thesis
    using assms by (simp add: parse_query_tags_def validate_tags_def)
qed

theorem tags_json_roundtrip_witness:
  "parse_query_tags (\<lambda>_. Some [(''team'', Json_String ''eng''), (''batch'', Json_Null)]) ''{..}''
     = Some ([(''team'', Some ''eng''), (''batch'', None)], [])"
proof (rule tags_json_roundtrip)
  show "valid_tags [(''team'', Some ''eng''), (''batch'', None)]" by code_simp
  show "trim ''{..}'' = ''{..}''" by code_simp
qed (simp_all add: tags_to_json_def)

lemma kv_entry_key: "set (fst (kv_entry part)) \<subseteq> set part"
  using set_trim [of part] set_trim set_split_once [of "CHR '':''" "trim part"]
  by (fastforce simp: kv_entry_def Let_def split: option.splits)

text \<open>
  A client-supplied key can crash the request: parsing succeeds on every tag text
  made of ASCII characters (with the comma-separated form), but a key of more than 128 bytes
  whose byte 128 falls inside a two-byte character makes the truncation for the warning panic.
\<close>

theorem tag_key_panic:
  "((\<forall>c \<in> set raw. len_utf8 c = 1) \<longrightarrow> parse_query_tags (\<lambda>_. None) raw \<noteq> None)
   \<and> parse_query_tags (\<lambda>_. None) (replicate 127 (CHR ''a'') @ [CHR 0xE9]) = None"
proof
  show "(\<forall>c \<in> set raw. len_utf8 c = 1) \<longrightarrow> parse_query_tags (\<lambda>_. None) raw \<noteq> None"
  proof
    assume ascii: "\<forall>c \<in> set raw. len_utf8 c = 1"
    have "set k \<subseteq> set raw" if kv: "(k, v) \<in> set (map kv_entry (split_on (CHR '','') (trim raw)))" for k v
    proof -
      obtain part where part: "part \<in> set (split_on (CHR '','') (trim raw))" "k = fst (kv_entry part)"
        using kv by (metis fst_conv image_iff list.set_map)
      show ?thesis
        using kv_entry_key [of part] set_split_on [OF part(1)] set_trim [of raw] part(2) by blast
    qed
    with ascii have "validate_loop (map kv_entry (split_on (CHR '','') (trim raw))) [] [] \<noteq> None"
      by (intro validate_loop_no_panic) blast
    then show "parse_query_tags (\<lambda>_. None) raw \<noteq> None"
      by (simp add: parse_query_tags_def validate_tags_def Let_def)
  qed
  show "parse_query_tags (\<lambda>_. None) (replicate 127 (CHR ''a'') @ [CHR 0xE9]) = None"
    by code_simp
qed

theorem tag_key_panic_witness:
  "parse_query_tags (\<lambda>_. None) ''team:eng'' \<noteq> None"
proof -
  have "\<forall>c \<in> set ''team:eng''. len_utf8 c = 1" by code_simp
  with tag_key_panic [of "''team:eng''"] show ?thesis by simp
qed

section \<open>Merging\<close>

lemma map_of_merge_tags:
  "distinct (map fst over) \<Longrightarrow> map_of (merge_tags base over) = map_of base ++ map_of over"
  unfolding merge_tags_def
proof (induction over arbitrary: base)
  case (Cons e over)
  then have "map_of over (fst e) = None" by (simp add: map_of_eq_None_iff)
  with Cons show ?case by (auto simp: update_conv' map_add_def fun_eq_iff split: option.splits)
qed simp

lemma distinct_merge_tags: "distinct (map fst base) \<Longrightarrow> distinct (map fst (merge_tags base over))"
  by (simp add: merge_tags_def distinct_updates)

end
