(* ===== verification/Session.thy ===== *)
theory Session
  imports Query_Tags Core_Types
begin

text \<open>
  Session metadata and verified identity: \<open>crates/queryflux-core/src/session.rs\<close> and the
  \<open>AuthContext\<close> of \<open>crates/queryflux-auth/src/credentials.rs\<close> (its ABAC attributes, a map of JSON
  values, are opaque here and left out). String maps are association lists.
  Upper-casing follows Unicode on Latin-1: the sharp s becomes two letters; the micro sign and
  y with diaeresis leave Latin-1, which no pattern searched for can observe, so they stay.
\<close>

section \<open>Intent of an agent query\<close>

datatype QueryIntent = SchemaExploration | Aggregation | Lookup | Mutation | UnknownIntent

definition intent_from_header :: "string \<Rightarrow> QueryIntent" where
  "intent_from_header s =
     (let l = to_lowercase s in
      if l = ''schema_exploration'' then SchemaExploration
      else if l = ''aggregation'' then Aggregation
      else if l = ''lookup'' then Lookup
      else if l = ''mutation'' then Mutation
      else UnknownIntent)"

fun intent_as_str :: "QueryIntent \<Rightarrow> string" where
  "intent_as_str SchemaExploration = ''schema_exploration''"
| "intent_as_str Aggregation = ''aggregation''"
| "intent_as_str Lookup = ''lookup''"
| "intent_as_str Mutation = ''mutation''"
| "intent_as_str UnknownIntent = ''unknown''"

definition char_upper :: "char \<Rightarrow> string" where
  "char_upper c =
     (let n = of_char c :: nat in
      if 97 \<le> n \<and> n \<le> 122 \<or> 0xE0 \<le> n \<and> n \<le> 0xFE \<and> n \<noteq> 0xF7 then [char_of (n - 32)]
      else if n = 0xDF then ''SS'' else [c])"

definition to_uppercase :: "string \<Rightarrow> string" where
  "to_uppercase s = concat (map char_upper s)"

definition infer_from_sql :: "string \<Rightarrow> QueryIntent" where
  "infer_from_sql sql =
     (let upper = to_uppercase sql;
          is_select = starts_with ''SELECT'' (dropWhile is_whitespace upper);
          has_write = str_contains ''INSERT'' upper \<or> str_contains ''UPDATE'' upper
            \<or> str_contains ''DELETE'' upper \<or> str_contains ''CREATE'' upper
            \<or> str_contains ''DROP'' upper \<or> str_contains ''TRUNCATE'' upper
      in if has_write then Mutation
      else if \<not> is_select then UnknownIntent
      else
        let has_agg = str_contains ''COUNT('' upper \<or> str_contains ''SUM('' upper
              \<or> str_contains ''AVG('' upper \<or> str_contains ''GROUP BY'' upper
        in if has_agg then Aggregation
        else
          let has_where = str_contains ''WHERE'' upper;
              is_star = str_contains ''SELECT *'' upper
                \<or> str_contains (''SELECT'' @ [CHR 0x0A, CHR ''*'']) upper
          in if is_star \<and> \<not> has_where then SchemaExploration
          else if has_where then Lookup
          else UnknownIntent)"

section \<open>Agent identity\<close>

record AgentContext =
  agent_id :: string
  conversation_id :: string
  step_index :: "u32 option"
  tool_call_id :: "string option"
  query_intent :: QueryIntent

definition is_digit :: "char \<Rightarrow> bool" where
  "is_digit c \<longleftrightarrow> (let n = of_char c :: nat in 48 \<le> n \<and> n \<le> 57)"

text \<open>\<open>str::parse::<u32>\<close>: an optional plus sign, then decimal digits, within range.\<close>

definition parse_u32 :: "string \<Rightarrow> u32 option" where
  "parse_u32 s =
     (let ds = (if starts_with ''+'' s then tl s else s);
          n = foldl (\<lambda>acc c. 10 * acc + (of_char c - 48)) (0 :: nat) ds
      in if ds \<noteq> [] \<and> list_all is_digit ds \<and> n < 2 ^ 32 then Some (of_nat n) else None)"

definition or_else :: "'a option \<Rightarrow> 'a option \<Rightarrow> 'a option" where
  "or_else a b = (case a of Some x \<Rightarrow> Some x | None \<Rightarrow> b)"

definition agent_from_headers :: "(string \<times> string) list \<Rightarrow> AgentContext option" where
  "agent_from_headers headers =
     (let get = map_of headers in
      case or_else (get ''x-agent-id'') (get ''agent_id'') of
        None \<Rightarrow> None
      | Some aid \<Rightarrow>
          (case or_else (get ''x-conversation-id'') (get ''conversation_id'') of
             None \<Rightarrow> None
           | Some cid \<Rightarrow>
               Some \<lparr>agent_id = aid, conversation_id = cid,
                 step_index = Option.bind (or_else (get ''x-step-index'') (get ''step_index'')) parse_u32,
                 tool_call_id = or_else (get ''x-tool-call-id'') (get ''tool_call_id''),
                 query_intent =
                   (case or_else (get ''x-query-intent'') (get ''query_intent'') of
                      Some v \<Rightarrow> intent_from_header v | None \<Rightarrow> UnknownIntent)\<rparr>))"

section \<open>The session\<close>

record SessionContext =
  sess_user :: "string option"
  sess_database :: "string option"
  sess_catalog :: "string option"
  sess_tags :: QueryTags
  sess_extra :: "(string \<times> string) list"
  sess_agent_context :: "AgentContext option"

definition SessionContext_default :: SessionContext where
  "SessionContext_default = \<lparr>sess_user = None, sess_database = None, sess_catalog = None,
     sess_tags = [], sess_extra = [], sess_agent_context = None\<rparr>"

definition extra_get :: "SessionContext \<Rightarrow> string \<Rightarrow> string option" where
  "extra_get s k = map_of (sess_extra s) k"

definition database_hint :: "SessionContext \<Rightarrow> string option" where
  "database_hint s = or_else (sess_database s) (sess_catalog s)"

definition resolved_agent_context :: "SessionContext \<Rightarrow> AgentContext option" where
  "resolved_agent_context s = or_else (sess_agent_context s) (agent_from_headers (sess_extra s))"

definition client_source :: "SessionContext \<Rightarrow> string option" where
  "client_source s =
     or_else (or_else (extra_get s ''x-trino-source'') (extra_get s ''application_name''))
       (extra_get s ''client_name'')"

definition without_auth_headers :: "SessionContext \<Rightarrow> SessionContext" where
  "without_auth_headers s =
     s\<lparr>sess_extra := AList.delete ''proxy-authorization'' (AList.delete ''authorization'' (sess_extra s))\<rparr>"

record AuthContext =
  auth_user :: string
  auth_groups :: "string list"
  auth_roles :: "string list"
  auth_raw_token :: "string option"
  auth_raw_password :: "string option"
  auth_attributes :: "(string \<times> string) list"

section \<open>Lemmas\<close>

lemma intent_roundtrip: "intent_from_header (intent_as_str i) = i"
  by (cases i) (hypsubst, code_simp)+

lemma intent_from_header_case: "to_lowercase s = to_lowercase t \<Longrightarrow> intent_from_header s = intent_from_header t"
  by (simp add: intent_from_header_def)

lemma without_auth_headers_extra:
  "extra_get (without_auth_headers s) k =
     (if k = ''authorization'' \<or> k = ''proxy-authorization'' then None else extra_get s k)"
  by (simp add: extra_get_def without_auth_headers_def delete_conv')

lemma without_auth_headers_idem [simp]:
  "without_auth_headers (without_auth_headers s) = without_auth_headers s"
  by (simp add: without_auth_headers_def AList.delete_idem AList.delete_twist)

end
