(* ===== verification/Identity.thy ===== *)
theory Identity
  imports Session
begin

text \<open>
  Under which identity a query reaches its cluster: \<open>crates/queryflux-auth/src/resolver.rs\<close> with
  \<open>QueryCredentials\<close> of \<open>credentials.rs\<close>, and the wire form of a credential,
  \<open>crates/queryflux-engine-adapters/src/wire_auth.rs\<close>. The answer of the token endpoint, the readings
  of the clock and the hash of \<open>std\<close> are arguments. A panic of the code is the result \<open>None\<close>.
\<close>

section \<open>Configuration and credentials\<close>

record TokenExchangeConfig =
  tx_token_endpoint :: string
  tx_client_id :: string
  tx_client_secret :: string
  tx_target_audience :: "string option"
  tx_scope :: "string option"

datatype QueryAuthConfig = QA_ServiceAccount | QA_Passthrough | QA_Impersonate | QA_TokenExchange TokenExchangeConfig

datatype QueryCredentials = ServiceAccount | Passthrough | Impersonate string | Bearer string

datatype StoredWireAuth = WireAuthorization string | WireImpersonateUser string

section \<open>Token exchange\<close>

type_synonym TokenCacheKey = "string \<times> string \<times> string \<times> string option \<times> string option \<times> u64"
type_synonym token_cache = "(TokenCacheKey \<times> string \<times> instant) list"

definition TOKEN_EXCHANGE_CACHE_BUFFER :: duration where
  "TOKEN_EXCHANGE_CACHE_BUFFER = 30 * 10 ^ 9"

text \<open>What the endpoint gives: no reply, a failed status with its text, a body that is no JSON, or the fields used.\<close>

datatype ExchangeReply =
    XR_SendError string
  | XR_Status string string
  | XR_BadJson string
  | XR_Json "string option" "u64 option"

definition token_cache_key :: "(string \<Rightarrow> u64) \<Rightarrow> AuthContext \<Rightarrow> TokenExchangeConfig \<Rightarrow> string \<Rightarrow> TokenCacheKey" where
  "token_cache_key digest auth cfg raw =
     (auth_user auth, tx_token_endpoint cfg, tx_client_id cfg, tx_target_audience cfg, tx_scope cfg, digest raw)"

definition exchange_params :: "TokenExchangeConfig \<Rightarrow> string \<Rightarrow> (string \<times> string) list" where
  "exchange_params cfg raw =
     [(''grant_type'', ''urn:ietf:params:oauth:grant-type:token-exchange''),
      (''subject_token'', raw),
      (''subject_token_type'', ''urn:ietf:params:oauth:token-type:access_token''),
      (''client_id'', tx_client_id cfg),
      (''client_secret'', tx_client_secret cfg)]
     @ (case tx_target_audience cfg of Some a \<Rightarrow> [(''audience'', a)] | None \<Rightarrow> [])
     @ (case tx_scope cfg of Some s \<Rightarrow> [(''scope'', s)] | None \<Rightarrow> [])"

definition store_token :: "TokenCacheKey \<Rightarrow> string \<Rightarrow> instant \<Rightarrow> instant \<Rightarrow> token_cache \<Rightarrow> token_cache" where
  "store_token key token expires_at sweep cache =
     filter (\<lambda>(_, _, e). sweep < e) (AList.update key (token, expires_at) cache)"

text \<open>
  \<open>server\<close> is the endpoint, \<open>now\<close>, \<open>later\<close> and \<open>sweep\<close> the three readings of the clock: at the
  lookup, when the reply has come, and before the sweep.
\<close>

definition exchange_token ::
  "(string \<Rightarrow> u64) \<Rightarrow> (string \<Rightarrow> (string \<times> string) list \<Rightarrow> ExchangeReply) \<Rightarrow> instant \<Rightarrow> instant \<Rightarrow> instant
   \<Rightarrow> AuthContext \<Rightarrow> TokenExchangeConfig \<Rightarrow> token_cache \<Rightarrow> string result option \<times> token_cache" where
  "exchange_token digest server now later sweep auth cfg cache =
     (case auth_raw_token auth of
        None \<Rightarrow> (Some (Inl (Auth ''tokenExchange requires a bearer token (use OidcAuthProvider on the frontend)'')), cache)
      | Some raw \<Rightarrow>
          let key = token_cache_key digest auth cfg raw;
              exchange =
                (case server (tx_token_endpoint cfg) (exchange_params cfg raw) of
                   XR_SendError e \<Rightarrow> (Some (Inl (Auth (''tokenExchange HTTP error: '' @ e))), cache)
                 | XR_Status st body \<Rightarrow>
                     (Some (Inl (Auth (''tokenExchange: server returned '' @ st @ '': '' @ body))), cache)
                 | XR_BadJson e \<Rightarrow> (Some (Inl (Auth (''tokenExchange: failed to parse response: '' @ e))), cache)
                 | XR_Json access expires \<Rightarrow>
                     (case access of
                        None \<Rightarrow> (Some (Inl (Auth (''tokenExchange: response missing '' @ [CHR 0x27] @ ''access_token'' @ [CHR 0x27]))), cache)
                      | Some token \<Rightarrow>
                          (case instant_checked_add later
                                  (duration_from_secs (case expires of Some s \<Rightarrow> s | None \<Rightarrow> 300)) of
                             None \<Rightarrow> (None, cache)
                           | Some expires_at \<Rightarrow>
                               (Some (Inr token), store_token key token expires_at sweep cache))))
          in (case map_of cache key of
                Some (token, expires_at) \<Rightarrow>
                  if now + TOKEN_EXCHANGE_CACHE_BUFFER < expires_at then (Some (Inr token), cache) else exchange
              | None \<Rightarrow> exchange))"

section \<open>Resolution\<close>

definition resolve ::
  "(string \<Rightarrow> u64) \<Rightarrow> (string \<Rightarrow> (string \<times> string) list \<Rightarrow> ExchangeReply) \<Rightarrow> instant \<Rightarrow> instant \<Rightarrow> instant
   \<Rightarrow> AuthContext \<Rightarrow> QueryAuthConfig option \<Rightarrow> token_cache \<Rightarrow> QueryCredentials result option \<times> token_cache" where
  "resolve digest server now later sweep auth mode cache =
     (if auth_user auth = ''anonymous'' then
        (case mode of
           None \<Rightarrow> (Some (Inr ServiceAccount), cache)
         | Some QA_ServiceAccount \<Rightarrow> (Some (Inr ServiceAccount), cache)
         | Some _ \<Rightarrow>
             (Some (Inl (Auth ''anonymous requests cannot use explicit per-user query authentication'')), cache))
      else
        (case mode of
           None \<Rightarrow> (Some (Inr ServiceAccount), cache)
         | Some QA_ServiceAccount \<Rightarrow> (Some (Inr ServiceAccount), cache)
         | Some QA_Passthrough \<Rightarrow> (Some (Inr Passthrough), cache)
         | Some QA_Impersonate \<Rightarrow> (Some (Inr (Impersonate (auth_user auth))), cache)
         | Some (QA_TokenExchange cfg) \<Rightarrow>
             (case exchange_token digest server now later sweep auth cfg cache of
                (None, c) \<Rightarrow> (None, c)
              | (Some (Inr token), c) \<Rightarrow> (Some (Inr (Bearer token)), c)
              | (Some (Inl e), c) \<Rightarrow> (Some (Inl e), c))))"

section \<open>On the wire\<close>

definition resolve_stored_wire_auth :: "QueryCredentials \<Rightarrow> SessionContext \<Rightarrow> bool \<Rightarrow> StoredWireAuth option" where
  "resolve_stored_wire_auth credentials session cluster_sets_http_authorization =
     (case credentials of
        ServiceAccount \<Rightarrow>
          if cluster_sets_http_authorization then None
          else map_option WireAuthorization (extra_get session ''authorization'')
      | Passthrough \<Rightarrow> map_option WireAuthorization (extra_get session ''authorization'')
      | Impersonate user \<Rightarrow> Some (WireImpersonateUser user)
      | Bearer token \<Rightarrow> Some (WireAuthorization (''Bearer '' @ token)))"

definition or_insert :: "string \<Rightarrow> string \<Rightarrow> SessionContext \<Rightarrow> SessionContext" where
  "or_insert k v s = (case extra_get s k of Some _ \<Rightarrow> s | None \<Rightarrow> s\<lparr>sess_extra := AList.update k v (sess_extra s)\<rparr>)"

definition enrich_session_for_passthrough :: "SessionContext \<Rightarrow> QueryCredentials \<Rightarrow> AuthContext \<Rightarrow> SessionContext" where
  "enrich_session_for_passthrough session credentials auth =
     (if credentials \<noteq> Passthrough then session
      else
        (let s1 = (case extra_get session ''authorization'' of
                     Some _ \<Rightarrow> session
                   | None \<Rightarrow>
                       (case auth_raw_token auth of
                          Some token \<Rightarrow>
                            session\<lparr>sess_extra := AList.update ''authorization'' (''Bearer '' @ token) (sess_extra session)\<rparr>
                        | None \<Rightarrow> session))
         in case auth_raw_password auth of
              Some password \<Rightarrow>
                or_insert ''passthrough_password'' password (or_insert ''passthrough_username'' (auth_user auth) s1)
            | None \<Rightarrow> s1))"

section \<open>Histories of the token cache\<close>

text \<open>
  Queries resolve at the same time, so the cache changes between a lookup and the storing of the
  token it led to: each is a step of its own, and entries may be lost. The log holds the tokens that endpoints issued: for whom, in which
  configuration, for which subject token, and until when.
\<close>

type_synonym issued = "AuthContext \<times> TokenExchangeConfig \<times> string \<times> string \<times> instant"

inductive tokens_reachable :: "(string \<Rightarrow> u64) \<Rightarrow> token_cache \<Rightarrow> issued set \<Rightarrow> bool" for digest where
  start: "tokens_reachable digest [] {}"
| answered: "tokens_reachable digest cache log \<Longrightarrow>
    auth_raw_token auth = Some raw \<Longrightarrow>
    server (tx_token_endpoint cfg) (exchange_params cfg raw) = XR_Json (Some token) expires \<Longrightarrow>
    instant_checked_add later (duration_from_secs (case expires of Some s \<Rightarrow> s | None \<Rightarrow> 300)) = Some expires_at \<Longrightarrow>
    tokens_reachable digest (store_token (token_cache_key digest auth cfg raw) token expires_at sweep cache)
      (insert (auth, cfg, raw, token, expires_at) log)"
| lost: "tokens_reachable digest cache log \<Longrightarrow> tokens_reachable digest (filter P cache) log"

definition cache_issued :: "(string \<Rightarrow> u64) \<Rightarrow> token_cache \<Rightarrow> issued set \<Rightarrow> bool" where
  "cache_issued digest cache log \<longleftrightarrow>
     distinct (map fst cache)
     \<and> (\<forall>key token e. (key, token, e) \<in> set cache \<longrightarrow>
          (\<exists>auth cfg raw. (auth, cfg, raw, token, e) \<in> log \<and> key = token_cache_key digest auth cfg raw))"

lemma distinct_fst_filter: "distinct (map fst xs) \<Longrightarrow> distinct (map fst (filter P xs))"
  by (induction xs) auto

lemma set_update_cases: "x \<in> set (AList.update k v xs) \<Longrightarrow> x = (k, v) \<or> x \<in> set xs"
  by (induction xs) (auto split: if_splits)

lemma cache_issued_reachable: "tokens_reachable digest cache log \<Longrightarrow> cache_issued digest cache log"
proof (induction rule: tokens_reachable.induct)
  case start
  then show ?case by (simp add: cache_issued_def)
next
  case (answered cache log auth raw server cfg token expires later expires_at sweep)
  let ?key = "token_cache_key digest auth cfg raw"
  let ?cache = "store_token ?key token expires_at sweep cache"
  have "distinct (map fst ?cache)"
    unfolding store_token_def using answered(5) by (intro distinct_fst_filter) (simp add: cache_issued_def distinct_update)
  moreover have "\<exists>a f r. (a, f, r, tk, e) \<in> insert (auth, cfg, raw, token, expires_at) log \<and> key = token_cache_key digest a f r"
    if "(key, tk, e) \<in> set ?cache" for key tk e
  proof -
    have "(key, tk, e) = (?key, token, expires_at) \<or> (key, tk, e) \<in> set cache"
      using that set_update_cases unfolding store_token_def by fastforce
    then show ?thesis using answered(5) unfolding cache_issued_def by blast
  qed
  ultimately show ?case unfolding cache_issued_def by blast
next
  case (lost cache log P)
  then show ?case by (auto simp: cache_issued_def distinct_fst_filter)
qed

text \<open>
  Claim C15. A query never runs under a weaker identity than its cluster asks for. In every history of the
  token cache, a resolution that succeeds uses the service account only when the cluster is
  configured for it, passes the client's credential on or impersonates the authenticated user as
  configured, and presents a token only if the endpoint issues it for this user's own subject token
  now, or issued it before to the same user under the same client, audience and scope, for a subject
  token of the same digest, and it stays valid for more than half a minute. Everything else is an
  error: no failure of the exchange falls back to the service account.
\<close>
theorem identity_never_downgraded:
  assumes "tokens_reachable digest cache log"
    and "resolve digest server now later sweep auth mode cache = (Some (Inr cred), cache')"
  shows "case cred of
      ServiceAccount \<Rightarrow> mode = None \<or> mode = Some QA_ServiceAccount
    | Passthrough \<Rightarrow> mode = Some QA_Passthrough \<and> auth_user auth \<noteq> ''anonymous''
    | Impersonate user \<Rightarrow> mode = Some QA_Impersonate \<and> user = auth_user auth \<and> user \<noteq> ''anonymous''
    | Bearer token \<Rightarrow>
        \<exists>cfg raw. mode = Some (QA_TokenExchange cfg) \<and> auth_user auth \<noteq> ''anonymous'' \<and> auth_raw_token auth = Some raw
          \<and> ((\<exists>expires. server (tx_token_endpoint cfg) (exchange_params cfg raw) = XR_Json (Some token) expires)
             \<or> (\<exists>auth' cfg' raw' e. (auth', cfg', raw', token, e) \<in> log \<and> now + TOKEN_EXCHANGE_CACHE_BUFFER < e
                  \<and> auth_user auth' = auth_user auth \<and> tx_token_endpoint cfg' = tx_token_endpoint cfg
                  \<and> tx_client_id cfg' = tx_client_id cfg \<and> tx_target_audience cfg' = tx_target_audience cfg
                  \<and> tx_scope cfg' = tx_scope cfg \<and> digest raw' = digest raw))"
proof (cases cred)
  case (Bearer token)
  then obtain cfg where cfg: "mode = Some (QA_TokenExchange cfg)" "auth_user auth \<noteq> ''anonymous''"
      and ex: "exchange_token digest server now later sweep auth cfg cache = (Some (Inr token), cache')"
    using assms(2) by (auto simp: resolve_def split: if_splits option.splits QueryAuthConfig.splits prod.splits sum.splits)
  then obtain raw where raw: "auth_raw_token auth = Some raw" by (auto simp: exchange_token_def split: option.splits)
  have "(\<exists>expires. server (tx_token_endpoint cfg) (exchange_params cfg raw) = XR_Json (Some token) expires)
      \<or> (\<exists>e. map_of cache (token_cache_key digest auth cfg raw) = Some (token, e) \<and> now + TOKEN_EXCHANGE_CACHE_BUFFER < e)"
    using ex raw by (auto simp: exchange_token_def Let_def split: option.splits if_splits ExchangeReply.splits)
  moreover have "\<exists>auth' cfg' raw'. (auth', cfg', raw', token, e) \<in> log
      \<and> token_cache_key digest auth' cfg' raw' = token_cache_key digest auth cfg raw"
    if "map_of cache (token_cache_key digest auth cfg raw) = Some (token, e)" for e
    using cache_issued_reachable [OF assms(1)] map_of_SomeD [OF that] unfolding cache_issued_def by metis
  ultimately have "(\<exists>expires. server (tx_token_endpoint cfg) (exchange_params cfg raw) = XR_Json (Some token) expires)
      \<or> (\<exists>auth' cfg' raw' e. (auth', cfg', raw', token, e) \<in> log \<and> now + TOKEN_EXCHANGE_CACHE_BUFFER < e
           \<and> token_cache_key digest auth' cfg' raw' = token_cache_key digest auth cfg raw)" by blast
  then show ?thesis using Bearer cfg raw by (fastforce simp: token_cache_key_def)
qed (use assms(2) in \<open>auto simp: resolve_def split: if_splits option.splits QueryAuthConfig.splits prod.splits sum.splits\<close>)

definition example_exchange :: TokenExchangeConfig where
  "example_exchange = \<lparr>tx_token_endpoint = ''https://idp/token'', tx_client_id = ''qf'', tx_client_secret = ''s'',
     tx_target_audience = None, tx_scope = None\<rparr>"

definition example_oidc_user :: AuthContext where
  "example_oidc_user = \<lparr>auth_user = ''ann'', auth_groups = [], auth_roles = [], auth_raw_token = Some ''jwt'',
     auth_raw_password = None, auth_attributes = []\<rparr>"

text \<open>A token issued at the start is served again, within its lifetime, while the endpoint is down.\<close>

definition example_token_cache :: token_cache where
  "example_token_cache = store_token (token_cache_key (\<lambda>_. 7) example_oidc_user example_exchange ''jwt'') ''tok'' (60 * 10 ^ 9) 0 []"

lemma example_token_cache:
  "tokens_reachable (\<lambda>_. 7) example_token_cache {(example_oidc_user, example_exchange, ''jwt'', ''tok'', 60 * 10 ^ 9)}"
  using tokens_reachable.answered [OF tokens_reachable.start, of example_oidc_user "''jwt''" "\<lambda>_ _. XR_Json (Some ''tok'') (Some 60)"
      example_exchange "''tok''" "Some 60" 0 "60 * 10 ^ 9" "\<lambda>_. 7" 0]
  by (simp add: example_token_cache_def example_oidc_user_def instant_checked_add_def duration_from_secs_def)

theorem identity_never_downgraded_witness:
  "\<exists>auth' e. (auth', example_exchange, ''jwt'', ''tok'', e) \<in> {(example_oidc_user, example_exchange, ''jwt'', ''tok'', 60 * 10 ^ 9)}
     \<and> auth_user auth' = ''ann''
     \<and> fst (resolve (\<lambda>_. 7) (\<lambda>_ _. XR_SendError ''down'') 0 0 0 example_oidc_user
              (Some (QA_TokenExchange example_exchange)) example_token_cache) = Some (Inr (Bearer ''tok''))"
proof -
  let ?r = "resolve (\<lambda>_. 7) (\<lambda>_ _. XR_SendError ''down'') 0 0 0 example_oidc_user
              (Some (QA_TokenExchange example_exchange)) example_token_cache"
  have t: "fst ?r = Some (Inr (Bearer ''tok''))"
    by (simp add: resolve_def exchange_token_def example_oidc_user_def example_token_cache_def store_token_def
        token_cache_key_def TOKEN_EXCHANGE_CACHE_BUFFER_def)
  then have r: "?r = (Some (Inr (Bearer ''tok'')), snd ?r)" by (metis prod.collapse)
  show ?thesis using identity_never_downgraded [OF example_token_cache r] t by (auto simp: example_oidc_user_def)
qed
text \<open>A reply whose lifetime does not fit the clock makes the resolution panic.\<close>

lemma exchange_lifetime_panics:
  "fst (resolve (\<lambda>_. 0) (\<lambda>_ _. XR_Json (Some ''tok'') (Some (2 ^ 63))) 0 0 0 example_oidc_user
     (Some (QA_TokenExchange example_exchange)) []) = None"
  by (simp add: resolve_def exchange_token_def example_oidc_user_def instant_checked_add_def duration_from_secs_def)

text \<open>A passthrough query with a token of its own always has a credential to forward.\<close>

lemma passthrough_credential:
  assumes "auth_raw_token auth = Some token"
  shows "\<exists>v. resolve_stored_wire_auth Passthrough (enrich_session_for_passthrough s Passthrough auth) b = Some (WireAuthorization v)"
proof -
  have upd: "extra_get (t\<lparr>sess_extra := AList.update k v (sess_extra t)\<rparr>) j = (if j = k then Some v else extra_get t j)" for t k v j
    by (simp add: extra_get_def update_conv')
  have keep: "extra_get t j = Some x \<Longrightarrow> extra_get (or_insert k v t) j = Some x" for t k v j x
    by (auto simp: or_insert_def upd split: option.splits)
  let ?s1 = "case extra_get s ''authorization'' of Some _ \<Rightarrow> s
    | None \<Rightarrow> s\<lparr>sess_extra := AList.update ''authorization'' (''Bearer '' @ token) (sess_extra s)\<rparr>"
  obtain v where "extra_get ?s1 ''authorization'' = Some v" by (cases "extra_get s ''authorization''") (auto simp: upd)
  then have "extra_get (enrich_session_for_passthrough s Passthrough auth) ''authorization'' = Some v"
    using assms keep by (auto simp: enrich_session_for_passthrough_def Let_def split: option.splits)
  then show ?thesis by (simp add: resolve_stored_wire_auth_def)
qed

end
