(* ===== verification/Circuit_Breaker.thy ===== *)
theory Circuit_Breaker
  imports QF_Prelude
begin

text \<open>
  The query circuit breaker of one cluster: \<open>crates/queryflux-cluster-manager/src/circuit_breaker.rs\<close>
  and its configuration (\<open>CircuitBreakerConfig\<close> in \<open>crates/queryflux-core/src/config.rs\<close>).
  The mutex around \<open>Inner\<close> makes every method atomic, so each method is one function from
  breaker to breaker; \<open>Instant::now()\<close> is the explicit argument \<open>now\<close>, as it is in the
  source's \<open>_at\<close> methods. The lemmas show that the counters always agree with the retained
  samples, when exactly the breaker opens, that only one probe is ever out, and how it recovers.
\<close>

section \<open>Configuration\<close>

record CircuitBreakerConfig =
  window_secs :: u64
  min_requests :: usize
  failure_rate_percent :: u8
  timeout_rate_percent :: u8
  initial_backoff_secs :: u64
  max_backoff_secs :: u64

definition CircuitBreakerConfig_default :: CircuitBreakerConfig where
  "CircuitBreakerConfig_default =
     \<lparr>window_secs = 60, min_requests = 10, failure_rate_percent = 50,
      timeout_rate_percent = 25, initial_backoff_secs = 30, max_backoff_secs = 300\<rparr>"

datatype CircuitBreakerConfigError =
    WindowOrMinRequestsZero
  | MinRequestsTooLarge
  | RateOutOfRange
  | BackoffOrder
  | BackoffTooLarge

definition CircuitBreakerConfig_validate :: "CircuitBreakerConfig \<Rightarrow> CircuitBreakerConfigError + unit" where
  "CircuitBreakerConfig_validate c =
     (if window_secs c = 0 \<or> min_requests c = 0 then Inl WindowOrMinRequestsZero
      else if min_requests c > 10000 then Inl MinRequestsTooLarge
      else if \<not> (1 \<le> failure_rate_percent c \<and> failure_rate_percent c \<le> 100)
           \<or> \<not> (1 \<le> timeout_rate_percent c \<and> timeout_rate_percent c \<le> 100) then Inl RateOutOfRange
      else if initial_backoff_secs c = 0 \<or> max_backoff_secs c < initial_backoff_secs c
           then Inl BackoffOrder
      else if max_backoff_secs c > 365 * 24 * 60 * 60 then Inl BackoffTooLarge
      else Inr ())"

section \<open>State\<close>

datatype BackendOutcome = BO_Success | BO_Failure | BO_Timeout

datatype CircuitState = Closed | Open | HalfOpen

record Sample =
  sample_at :: instant
  outcome :: BackendOutcome

record Inner =
  in_state :: CircuitState
  samples :: "Sample list"
  failures :: nat
  timeouts :: nat
  retry_at :: "instant option"
  backoff :: duration

record CircuitBreaker =
  cb_config :: CircuitBreakerConfig
  inner :: Inner

section \<open>Operations\<close>

definition CircuitBreaker_new :: "CircuitBreakerConfig \<Rightarrow> CircuitBreaker" where
  "CircuitBreaker_new c =
     \<lparr>cb_config = c,
      inner = \<lparr>in_state = Closed, samples = [], failures = 0, timeouts = 0,
               retry_at = None, backoff = duration_from_secs (initial_backoff_secs c)\<rparr>\<rparr>"

definition cb_state :: "CircuitBreaker \<Rightarrow> CircuitState" where
  "cb_state b = in_state (inner b)"

definition allows_queries :: "CircuitBreaker \<Rightarrow> bool" where
  "allows_queries b \<longleftrightarrow> cb_state b = Closed"

definition evict_oldest :: "Inner \<Rightarrow> Inner" where
  "evict_oldest i =
     (case samples i of
        [] \<Rightarrow> i
      | s # rest \<Rightarrow>
          i\<lparr>samples := rest,
            failures := failures i - (if outcome s \<noteq> BO_Success then 1 else 0),
            timeouts := timeouts i - (if outcome s = BO_Timeout then 1 else 0)\<rparr>)"

text \<open>The two eviction loops of \<open>record_at\<close>.\<close>

function evict_expired :: "instant \<Rightarrow> duration \<Rightarrow> Inner \<Rightarrow> Inner" where
  "evict_expired now window i =
     (case samples i of
        [] \<Rightarrow> i
      | s # _ \<Rightarrow> if saturating_duration_since now (sample_at s) > window
                then evict_expired now window (evict_oldest i) else i)"
  by pat_completeness auto
termination
  by (relation "measure (\<lambda>(_, _, i). length (samples i))") (auto simp: evict_oldest_def)

definition MAX_SAMPLES :: nat where
  "MAX_SAMPLES = 10000"

function evict_overflow :: "Inner \<Rightarrow> Inner" where
  "evict_overflow i =
     (if length (samples i) > MAX_SAMPLES then evict_overflow (evict_oldest i) else i)"
  by pat_completeness auto
termination
  by (relation "measure (\<lambda>i. length (samples i))") (auto simp: evict_oldest_def split: list.splits)

declare evict_expired.simps [simp del] evict_overflow.simps [simp del]

definition record_at :: "CircuitBreaker \<Rightarrow> BackendOutcome \<Rightarrow> instant \<Rightarrow> CircuitState option \<times> CircuitBreaker" where
  "record_at b o' now =
     (let c = cb_config b; i0 = inner b in
      if in_state i0 \<noteq> Closed then (None, b)
      else
        let i1 = i0\<lparr>samples := samples i0 @ [\<lparr>sample_at = now, outcome = o'\<rparr>],
                    failures := failures i0 + (if o' \<noteq> BO_Success then 1 else 0),
                    timeouts := timeouts i0 + (if o' = BO_Timeout then 1 else 0)\<rparr>;
            i2 = evict_expired now (duration_from_secs (window_secs c)) i1;
            i3 = evict_overflow i2;
            total = length (samples i3)
        in if total < unat (min_requests c) then (None, b\<lparr>inner := i3\<rparr>)
           else if failures i3 * 100 \<ge> total * unat (failure_rate_percent c)
                 \<or> timeouts i3 * 100 \<ge> total * unat (timeout_rate_percent c)
           then (Some Open,
                 b\<lparr>inner := i3\<lparr>in_state := Open,
                    retry_at := Some (case instant_checked_add now (backoff i3) of
                                        Some t \<Rightarrow> t | None \<Rightarrow> now),
                    samples := [], failures := 0, timeouts := 0\<rparr>\<rparr>)
           else (None, b\<lparr>inner := i3\<rparr>))"

definition begin_probe_at :: "CircuitBreaker \<Rightarrow> instant \<Rightarrow> bool \<times> CircuitBreaker" where
  "begin_probe_at b now =
     (let i = inner b in
      if in_state i \<noteq> Open \<or> (case retry_at i of None \<Rightarrow> True | Some t \<Rightarrow> now < t)
      then (False, b)
      else (True, b\<lparr>inner := i\<lparr>in_state := HalfOpen\<rparr>\<rparr>))"

definition finish_probe_at :: "CircuitBreaker \<Rightarrow> bool \<Rightarrow> instant \<Rightarrow> CircuitState \<times> CircuitBreaker" where
  "finish_probe_at b healthy now =
     (let c = cb_config b; i = inner b in
      if in_state i \<noteq> HalfOpen then (in_state i, b)
      else if healthy then
        (Closed,
         b\<lparr>inner := i\<lparr>in_state := Closed, samples := [], failures := 0, timeouts := 0,
            retry_at := None, backoff := duration_from_secs (initial_backoff_secs c)\<rparr>\<rparr>)
      else
        let bo = min (duration_saturating_mul (backoff i) 2)
                     (duration_from_secs (max_backoff_secs c))
        in (Open,
            b\<lparr>inner := i\<lparr>in_state := Open, backoff := bo,
               retry_at := Some (case instant_checked_add now bo of
                                   Some t \<Rightarrow> t | None \<Rightarrow> now)\<rparr>\<rparr>))"

section \<open>Counters agree with the retained samples\<close>

definition n_failures :: "Sample list \<Rightarrow> nat" where
  "n_failures ss = length (filter (\<lambda>s. outcome s \<noteq> BO_Success) ss)"

definition n_timeouts :: "Sample list \<Rightarrow> nat" where
  "n_timeouts ss = length (filter (\<lambda>s. outcome s = BO_Timeout) ss)"

definition counters_ok :: "Inner \<Rightarrow> bool" where
  "counters_ok i \<longleftrightarrow> failures i = n_failures (samples i) \<and> timeouts i = n_timeouts (samples i)"

lemma n_failures_simps [simp]:
  "n_failures [] = 0"
  "n_failures (s # ss) = (if outcome s \<noteq> BO_Success then 1 else 0) + n_failures ss"
  "n_failures (ss @ ts) = n_failures ss + n_failures ts"
  by (simp_all add: n_failures_def)

lemma n_timeouts_simps [simp]:
  "n_timeouts [] = 0"
  "n_timeouts (s # ss) = (if outcome s = BO_Timeout then 1 else 0) + n_timeouts ss"
  "n_timeouts (ss @ ts) = n_timeouts ss + n_timeouts ts"
  by (simp_all add: n_timeouts_def)

lemma evict_oldest_counters: "counters_ok i \<Longrightarrow> counters_ok (evict_oldest i)"
  by (auto simp: counters_ok_def evict_oldest_def split: list.splits)

lemma samples_evict_oldest: "samples (evict_oldest i) = tl (samples i)"
  by (auto simp: evict_oldest_def split: list.splits)

lemma evict_oldest_frame [frame_simps]:
  "in_state (evict_oldest i) = in_state i"
  "retry_at (evict_oldest i) = retry_at i"
  "backoff (evict_oldest i) = backoff i"
  by (auto simp: evict_oldest_def split: list.splits)

text \<open>
  What the loops retain: the suffix of the samples from the first one inside the window on,
  and of that at most the \<open>MAX_SAMPLES\<close> newest.
\<close>

definition expired :: "instant \<Rightarrow> duration \<Rightarrow> Sample \<Rightarrow> bool" where
  "expired now window s \<longleftrightarrow> saturating_duration_since now (sample_at s) > window"

definition retained :: "instant \<Rightarrow> duration \<Rightarrow> Sample list \<Rightarrow> Sample list" where
  "retained now window ss =
     (let live = dropWhile (expired now window) ss in drop (length live - MAX_SAMPLES) live)"

lemma evict_expired_spec:
  "samples (evict_expired now w i) = dropWhile (expired now w) (samples i)
   \<and> in_state (evict_expired now w i) = in_state i
   \<and> retry_at (evict_expired now w i) = retry_at i
   \<and> backoff (evict_expired now w i) = backoff i
   \<and> (counters_ok i \<longrightarrow> counters_ok (evict_expired now w i))"
proof (induction now w i rule: evict_expired.induct)
  case (1 now w i)
  show ?case
  proof (cases "samples i")
    case Nil
    then show ?thesis by (subst (1 2 3 4 5) evict_expired.simps) simp
  next
    case (Cons s ss)
    show ?thesis
    proof (cases "expired now w s")
      case True
      have "evict_expired now w i = evict_expired now w (evict_oldest i)"
        using Cons True by (subst evict_expired.simps) (simp add: expired_def)
      with 1 Cons True show ?thesis
        by (simp add: expired_def samples_evict_oldest frame_simps evict_oldest_counters)
    next
      case False
      then show ?thesis using Cons
        by (subst (1 2 3 4 5) evict_expired.simps) (simp add: expired_def)
    qed
  qed
qed

lemma evict_overflow_spec:
  "samples (evict_overflow i) = drop (length (samples i) - MAX_SAMPLES) (samples i)
   \<and> in_state (evict_overflow i) = in_state i
   \<and> retry_at (evict_overflow i) = retry_at i
   \<and> backoff (evict_overflow i) = backoff i
   \<and> (counters_ok i \<longrightarrow> counters_ok (evict_overflow i))"
proof (induction i rule: evict_overflow.induct)
  case (1 i)
  show ?case
  proof (cases "length (samples i) > MAX_SAMPLES")
    case True
    then have eq: "evict_overflow i = evict_overflow (evict_oldest i)"
      by (subst evict_overflow.simps) simp
    have "drop (length (samples i) - MAX_SAMPLES) (samples i)
          = drop (length (samples i) - 1 - MAX_SAMPLES) (tl (samples i))"
      using True by (cases "samples i") (auto simp: Suc_diff_le less_Suc_eq_le)
    with 1 True eq show ?thesis
      by (simp add: samples_evict_oldest frame_simps evict_oldest_counters)
  next
    case False
    then show ?thesis by (subst (1 2 3 4 5) evict_overflow.simps) simp
  qed
qed

lemmas evict_specs = evict_expired_spec evict_overflow_spec

lemma length_retained: "length (retained now w ss) \<le> MAX_SAMPLES"
  by (simp add: retained_def Let_def)

section \<open>When the breaker opens\<close>

text \<open>
  The abstract description of one recorded outcome: append it, keep what \<open>retained\<close> keeps,
  and trip when enough samples are left and the failure or the timeout share reaches its limit.
\<close>

definition window_after :: "CircuitBreaker \<Rightarrow> BackendOutcome \<Rightarrow> instant \<Rightarrow> Sample list" where
  "window_after b o' now =
     retained now (duration_from_secs (window_secs (cb_config b)))
       (samples (inner b) @ [\<lparr>sample_at = now, outcome = o'\<rparr>])"

definition trips :: "CircuitBreakerConfig \<Rightarrow> Sample list \<Rightarrow> bool" where
  "trips c ss \<longleftrightarrow>
     unat (min_requests c) \<le> length ss
     \<and> (length ss * unat (failure_rate_percent c) \<le> 100 * n_failures ss
        \<or> length ss * unat (timeout_rate_percent c) \<le> 100 * n_timeouts ss)"

definition opened_inner :: "Inner \<Rightarrow> instant \<Rightarrow> Inner" where
  "opened_inner i now =
     i\<lparr>in_state := Open, samples := [], failures := 0, timeouts := 0,
       retry_at := Some (case instant_checked_add now (backoff i) of Some t \<Rightarrow> t | None \<Rightarrow> now)\<rparr>"

lemma record_at_closed:
  assumes closed: "in_state (inner b) = Closed" and ok: "counters_ok (inner b)"
  shows "record_at b o' now =
     (if trips (cb_config b) (window_after b o' now)
      then (Some Open, b\<lparr>inner := opened_inner (inner b) now\<rparr>)
      else (None, b\<lparr>inner := (inner b)\<lparr>samples := window_after b o' now,
                      failures := n_failures (window_after b o' now),
                      timeouts := n_timeouts (window_after b o' now)\<rparr>\<rparr>))"
proof -
  define w where "w = duration_from_secs (window_secs (cb_config b))"
  define i1 where "i1 = (inner b)
     \<lparr>samples := samples (inner b) @ [\<lparr>sample_at = now, outcome = o'\<rparr>],
      failures := failures (inner b) + (if o' \<noteq> BO_Success then 1 else 0),
      timeouts := timeouts (inner b) + (if o' = BO_Timeout then 1 else 0)\<rparr>"
  define i3 where "i3 = evict_overflow (evict_expired now w i1)"
  have "counters_ok i1"
    using ok by (auto simp: i1_def counters_ok_def)
  then have c3: "counters_ok i3" unfolding i3_def using evict_specs by blast
  have s3: "samples i3 = window_after b o' now"
    by (simp add: i3_def evict_specs window_after_def retained_def i1_def w_def Let_def)
  have f3: "in_state i3 = Closed" "retry_at i3 = retry_at (inner b)" "backoff i3 = backoff (inner b)"
    using closed by (simp_all add: i3_def evict_specs i1_def)
  have i3_eq: "i3 = (inner b)\<lparr>samples := window_after b o' now,
      failures := n_failures (window_after b o' now), timeouts := n_timeouts (window_after b o' now)\<rparr>"
    using c3 s3 f3 closed by (simp add: counters_ok_def)
  have "record_at b o' now =
      (if length (samples i3) < unat (min_requests (cb_config b)) then (None, b\<lparr>inner := i3\<rparr>)
       else if failures i3 * 100 \<ge> length (samples i3) * unat (failure_rate_percent (cb_config b))
             \<or> timeouts i3 * 100 \<ge> length (samples i3) * unat (timeout_rate_percent (cb_config b))
       then (Some Open, b\<lparr>inner := opened_inner i3 now\<rparr>) else (None, b\<lparr>inner := i3\<rparr>))"
    using closed by (simp add: record_at_def Let_def i1_def w_def i3_def opened_inner_def)
  also have "\<dots> = (if trips (cb_config b) (samples i3)
       then (Some Open, b\<lparr>inner := opened_inner i3 now\<rparr>) else (None, b\<lparr>inner := i3\<rparr>))"
    using c3 by (auto simp: trips_def counters_ok_def mult.commute)
  finally show ?thesis
    unfolding s3 by (simp add: i3_eq opened_inner_def)
qed

section \<open>Reachable breakers\<close>

text \<open>
  One rule per method. Calls from many tasks interleave in any order, and their clocks may be
  read before the mutex is taken, so nothing is assumed about the order of the instants.
\<close>

inductive cb_step :: "CircuitBreaker \<Rightarrow> CircuitBreaker \<Rightarrow> bool" where
  record_step: "record_at b o' now = (r, b') \<Longrightarrow> cb_step b b'"
| begin_step: "begin_probe_at b now = (r, b') \<Longrightarrow> cb_step b b'"
| finish_step: "finish_probe_at b healthy now = (st, b') \<Longrightarrow> cb_step b b'"

inductive cb_reachable :: "CircuitBreakerConfig \<Rightarrow> CircuitBreaker \<Rightarrow> bool" for c where
  cb_init: "cb_reachable c (CircuitBreaker_new c)"
| cb_next: "cb_reachable c b \<Longrightarrow> cb_step b b' \<Longrightarrow> cb_reachable c b'"

definition breaker_inv :: "CircuitBreakerConfig \<Rightarrow> CircuitBreaker \<Rightarrow> bool" where
  "breaker_inv c b \<longleftrightarrow>
     cb_config b = c
     \<and> counters_ok (inner b)
     \<and> length (samples (inner b)) \<le> MAX_SAMPLES
     \<and> (in_state (inner b) = Closed \<longleftrightarrow> retry_at (inner b) = None)
     \<and> (in_state (inner b) \<noteq> Closed \<longrightarrow> samples (inner b) = [])
     \<and> (in_state (inner b) = Closed \<longrightarrow>
          backoff (inner b) = duration_from_secs (initial_backoff_secs c))
     \<and> backoff (inner b) \<le> max (duration_from_secs (initial_backoff_secs c))
                                (duration_from_secs (max_backoff_secs c))"

lemma breaker_inv_new [inv_intros]: "breaker_inv c (CircuitBreaker_new c)"
  by (simp add: breaker_inv_def CircuitBreaker_new_def counters_ok_def)

lemma breaker_inv_record [inv_intros]:
  assumes "breaker_inv c b" and "record_at b o' now = (r, b')"
  shows "breaker_inv c b'"
proof (cases "in_state (inner b) = Closed")
  case True
  then show ?thesis
    using assms record_at_closed [of b o' now] length_retained
    by (auto simp: breaker_inv_def opened_inner_def counters_ok_def window_after_def split: if_splits)
next
  case False
  then show ?thesis using assms by (auto simp: record_at_def Let_def)
qed

lemma breaker_inv_begin [inv_intros]:
  assumes "breaker_inv c b" and "begin_probe_at b now = (r, b')"
  shows "breaker_inv c b'"
  using assms
  by (auto simp: begin_probe_at_def Let_def breaker_inv_def counters_ok_def split: if_splits option.splits)

lemma breaker_inv_finish [inv_intros]:
  assumes "breaker_inv c b" and "finish_probe_at b healthy now = (st, b')"
  shows "breaker_inv c b'"
  using assms
  by (auto simp: finish_probe_at_def Let_def breaker_inv_def counters_ok_def split: if_splits)

lemma cb_step_inv: "cb_step b b' \<Longrightarrow> breaker_inv c b \<Longrightarrow> breaker_inv c b'"
  by (induction rule: cb_step.induct) (blast intro: inv_intros)+

lemma cb_reachable_inv: "cb_reachable c b \<Longrightarrow> breaker_inv c b"
  by (induction rule: cb_reachable.induct) (auto intro: inv_intros cb_step_inv)

subsection \<open>The properties\<close>

text \<open>
  Claim C18. However calls of \<open>record\<close>, \<open>begin_probe\<close> and \<open>finish_probe\<close> interleave, the
  incrementally kept failure and timeout counters equal the counts over the retained samples
  (so the \<open>-=\<close> of \<open>evict_oldest\<close> never underflows), at most 10000 samples are kept, a retry
  deadline exists exactly while the breaker is not closed, no sample survives opening, and the
  backoff never exceeds the larger of the two configured delays.
\<close>

theorem breaker_reachable_invariant:
  assumes "cb_reachable c b"
  shows "failures (inner b) = n_failures (samples (inner b))
    \<and> timeouts (inner b) = n_timeouts (samples (inner b))
    \<and> length (samples (inner b)) \<le> 10000
    \<and> (cb_state b = Closed \<longleftrightarrow> retry_at (inner b) = None)
    \<and> (cb_state b \<noteq> Closed \<longrightarrow> samples (inner b) = [])
    \<and> backoff (inner b) \<le> max (duration_from_secs (initial_backoff_secs c))
                                (duration_from_secs (max_backoff_secs c))"
  using cb_reachable_inv [OF assms]
  by (simp add: breaker_inv_def counters_ok_def cb_state_def MAX_SAMPLES_def)

definition example_config :: CircuitBreakerConfig where
  "example_config =
     \<lparr>window_secs = 10, min_requests = 1, failure_rate_percent = 50,
      timeout_rate_percent = 25, initial_backoff_secs = 2, max_backoff_secs = 8\<rparr>"

lemma example_open:
  "record_at (CircuitBreaker_new example_config) BO_Failure 5 =
     (Some Open, (CircuitBreaker_new example_config)
        \<lparr>inner := opened_inner (inner (CircuitBreaker_new example_config)) 5\<rparr>)"
proof -
  have "trips example_config (window_after (CircuitBreaker_new example_config) BO_Failure 5)"
    by (simp add: trips_def window_after_def retained_def CircuitBreaker_new_def example_config_def
        duration_from_secs_def expired_def saturating_duration_since_def MAX_SAMPLES_def Let_def)
  then show ?thesis
    by (subst record_at_closed)
      (simp_all add: CircuitBreaker_new_def counters_ok_def)
qed

theorem breaker_reachable_invariant_witness:
  "failures (inner (snd (record_at (CircuitBreaker_new example_config) BO_Failure 5))) = 0
   \<and> cb_state (snd (record_at (CircuitBreaker_new example_config) BO_Failure 5)) = Open"
proof -
  let ?b = "snd (record_at (CircuitBreaker_new example_config) BO_Failure 5)"
  have "cb_reachable example_config ?b"
    by (rule cb_next [OF cb_init]) (rule record_step, rule surjective_pairing)
  from breaker_reachable_invariant [OF this] show ?thesis
    by (simp add: example_open opened_inner_def cb_state_def)
qed

text \<open>
  Claim C34. A closed breaker opens on an outcome exactly when, after the outcome is appended
  and samples outside the rolling window (and beyond the newest 10000) are dropped, at least
  \<open>min_requests\<close> samples are left and the failures (timeouts included) or the timeouts alone
  reach their percentage of them; otherwise it stays closed and keeps exactly that window.
\<close>

theorem record_opens_iff:
  assumes "cb_reachable c b" and "cb_state b = Closed"
  shows "(fst (record_at b o' now) = Some Open \<longleftrightarrow>
            (let win = retained now (duration_from_secs (window_secs c))
                         (samples (inner b) @ [\<lparr>sample_at = now, outcome = o'\<rparr>])
             in unat (min_requests c) \<le> length win
                \<and> (length win * unat (failure_rate_percent c) \<le> 100 * n_failures win
                   \<or> length win * unat (timeout_rate_percent c) \<le> 100 * n_timeouts win)))
    \<and> cb_state (snd (record_at b o' now)) =
        (if fst (record_at b o' now) = Some Open then Open else Closed)
    \<and> (fst (record_at b o' now) \<noteq> Some Open \<longrightarrow>
         samples (inner (snd (record_at b o' now))) =
           retained now (duration_from_secs (window_secs c))
             (samples (inner b) @ [\<lparr>sample_at = now, outcome = o'\<rparr>]))"
proof -
  have inv: "breaker_inv c b" by (rule cb_reachable_inv [OF assms(1)])
  then have "counters_ok (inner b)" and cfg: "cb_config b = c"
    by (simp_all add: breaker_inv_def)
  with record_at_closed [of b o' now] assms(2) show ?thesis
    by (simp add: cb_state_def trips_def window_after_def opened_inner_def Let_def cfg)
qed

theorem record_opens_iff_witness:
  "fst (record_at (CircuitBreaker_new example_config) BO_Failure 5) = Some Open"
proof -
  have "cb_state (CircuitBreaker_new example_config) = Closed"
    by (simp add: cb_state_def CircuitBreaker_new_def)
  from record_opens_iff [OF cb_init this, of BO_Failure 5] show ?thesis
    by (simp add: CircuitBreaker_new_def example_config_def retained_def expired_def
        duration_from_secs_def saturating_duration_since_def MAX_SAMPLES_def Let_def)
qed

text \<open>
  Claim C35. An open breaker always has a deadline; a half-open probe is granted exactly from
  that deadline on, queries stay excluded while the probe is out, and a healthy probe puts the
  breaker back into precisely the state of a freshly created one.
\<close>

theorem breaker_recovers:
  assumes "cb_reachable c b" and "cb_state b = Open"
  shows "\<exists>t. retry_at (inner b) = Some t
    \<and> (\<forall>now. fst (begin_probe_at b now) \<longleftrightarrow> t \<le> now)
    \<and> (\<forall>now \<ge> t. \<not> allows_queries (snd (begin_probe_at b now))
         \<and> (\<forall>later. finish_probe_at (snd (begin_probe_at b now)) True later
                      = (Closed, CircuitBreaker_new c)))"
proof -
  have inv: "breaker_inv c b" by (rule cb_reachable_inv [OF assms(1)])
  with assms(2) obtain t where "retry_at (inner b) = Some t"
    by (auto simp: breaker_inv_def cb_state_def)
  with inv assms(2) show ?thesis
    by (auto simp: begin_probe_at_def finish_probe_at_def breaker_inv_def cb_state_def Let_def
        allows_queries_def CircuitBreaker_new_def not_less)
qed

theorem breaker_recovers_witness:
  "\<exists>t. retry_at (inner (snd (record_at (CircuitBreaker_new example_config) BO_Failure 5))) = Some t
     \<and> fst (begin_probe_at (snd (record_at (CircuitBreaker_new example_config) BO_Failure 5)) t)"
proof -
  let ?b = "snd (record_at (CircuitBreaker_new example_config) BO_Failure 5)"
  have r: "cb_reachable example_config ?b"
    by (rule cb_next [OF cb_init]) (rule record_step, rule surjective_pairing)
  have o: "cb_state ?b = Open"
    by (simp add: example_open opened_inner_def cb_state_def)
  from breaker_recovers [OF r o] show ?thesis by blast
qed

section \<open>Exponential backoff\<close>

text \<open>One probe that is granted at one time and reported unhealthy at another, and a run of them.\<close>

definition fail_probe :: "CircuitBreaker \<Rightarrow> instant \<times> instant \<Rightarrow> CircuitBreaker" where
  "fail_probe b p = snd (finish_probe_at (snd (begin_probe_at b (fst p))) False (snd p))"

fun probes_granted :: "CircuitBreaker \<Rightarrow> (instant \<times> instant) list \<Rightarrow> bool" where
  "probes_granted b [] = True"
| "probes_granted b (p # ps) = (fst (begin_probe_at b (fst p)) \<and> probes_granted (fail_probe b p) ps)"
lemma fail_probe_granted:
  assumes "fst (begin_probe_at b (fst p))"
  shows "cb_state (fail_probe b p) = Open"
    and "cb_config (fail_probe b p) = cb_config b"
    and "backoff (inner (fail_probe b p)) =
           min (2 * backoff (inner b)) (duration_from_secs (max_backoff_secs (cb_config b)))"
    and "retry_at (inner (fail_probe b p)) =
           Some (case instant_checked_add (snd p) (backoff (inner (fail_probe b p))) of
                   Some u \<Rightarrow> u | None \<Rightarrow> snd p)"
  using assms duration_from_secs_le_max [of "max_backoff_secs (cb_config b)"]
  by (auto simp: fail_probe_def begin_probe_at_def finish_probe_at_def Let_def cb_state_def
      duration_saturating_mul_def split: if_splits)

lemma fail_probes_backoff:
  assumes "probes_granted b ts"
    and "backoff (inner b) = min (i * 2 ^ k) m"
    and "m = duration_from_secs (max_backoff_secs (cb_config b))"
  shows "backoff (inner (foldl fail_probe b ts)) = min (i * 2 ^ (k + length ts)) m"
  using assms
proof (induction ts arbitrary: b k)
  case (Cons t ts)
  have "backoff (inner (fail_probe b t)) = min (i * 2 ^ Suc k) m"
    using Cons.prems fail_probe_granted(3) [of b t] by (auto simp: min_def)
  with Cons.IH [of "fail_probe b t" "Suc k"] Cons.prems fail_probe_granted(2) [of b t]
  show ?case by simp
qed simp

lemma fail_probes_retry:
  assumes "probes_granted b ps" "cb_state b = Open"
    and "retry_at (inner b) = Some (case instant_checked_add now (backoff (inner b)) of Some v \<Rightarrow> v | None \<Rightarrow> now)"
  shows "cb_state (foldl fail_probe b ps) = Open
    \<and> retry_at (inner (foldl fail_probe b ps)) =
        Some (case instant_checked_add (last (now # map snd ps)) (backoff (inner (foldl fail_probe b ps))) of
                Some v \<Rightarrow> v | None \<Rightarrow> last (now # map snd ps))"
  using assms
proof (induction ps arbitrary: b now)
  case (Cons p ps)
  have e: "last (now # map snd (p # ps)) = last (snd p # map snd ps)" by simp
  show ?case
    unfolding e using Cons.prems Cons.IH [of "fail_probe b p" "snd p"] fail_probe_granted(1,4) [of b p] by (simp del: last.simps)
next
  case Nil
  have e: "last (now # map snd []) = now" by simp
  show ?case unfolding e using Nil by simp
qed

text \<open>
  Claim C36. With a validated configuration, the breaker that opens at \<open>now\<close> grants its first probe exactly from
  \<open>initial_backoff_secs\<close> later on, and after \<open>n\<close> failed probes, the last reported at \<open>t\<close>, the next one exactly
  from \<open>initial_backoff_secs * 2^n\<close> seconds after \<open>t\<close> on, capped at \<open>max_backoff_secs\<close> (or
  from \<open>t\<close> on if that instant is past the end of the clock).
\<close>
theorem failed_probes_back_off:
  assumes "CircuitBreakerConfig_validate c = Inr ()"
    and "cb_reachable c b" and "fst (record_at b o' now) = Some Open"
    and "probes_granted (snd (record_at b o' now)) ps"
  shows "backoff (inner (foldl fail_probe (snd (record_at b o' now)) ps)) =
           min (unat (initial_backoff_secs c) * 2 ^ length ps) (unat (max_backoff_secs c)) * 1000000000
    \<and> (\<forall>u. fst (begin_probe_at (foldl fail_probe (snd (record_at b o' now)) ps) u) \<longleftrightarrow>
         (case instant_checked_add (last (now # map snd ps))
                 (min (unat (initial_backoff_secs c) * 2 ^ length ps) (unat (max_backoff_secs c)) * 1000000000) of
            Some v \<Rightarrow> v | None \<Rightarrow> last (now # map snd ps)) \<le> u)"
proof -
  have inv: "breaker_inv c b" by (rule cb_reachable_inv [OF assms(2)])
  have closed: "in_state (inner b) = Closed"
    using assms(3) by (auto simp: record_at_def Let_def split: if_splits)
  have le: "unat (initial_backoff_secs c) \<le> unat (max_backoff_secs c)"
    using assms(1) by (auto simp: CircuitBreakerConfig_validate_def word_le_nat_alt not_less split: if_splits)
  let ?b = "snd (record_at b o' now)"
  have b': "?b = b\<lparr>inner := opened_inner (inner b) now\<rparr>"
    using inv closed assms(3) record_at_closed [of b o' now]
    by (auto simp: breaker_inv_def split: if_splits)
  have "backoff (inner ?b) = min (duration_from_secs (initial_backoff_secs c) * 2 ^ 0)
          (duration_from_secs (max_backoff_secs c))"
    using inv closed le by (simp add: b' opened_inner_def breaker_inv_def duration_from_secs_def)
  from fail_probes_backoff [OF assms(4) this]
  have wait: "backoff (inner (foldl fail_probe ?b ps)) =
      min (unat (initial_backoff_secs c) * 2 ^ length ps) (unat (max_backoff_secs c)) * 1000000000"
    using inv by (simp add: b' breaker_inv_def duration_from_secs_def min_mult_distrib_right ac_simps)
  have "cb_state ?b = Open" "retry_at (inner ?b) = Some (case instant_checked_add now (backoff (inner ?b)) of Some v \<Rightarrow> v | None \<Rightarrow> now)"
    by (simp_all add: b' cb_state_def opened_inner_def)
  note retry = fail_probes_retry [OF assms(4) this, unfolded wait]
  have "fst (begin_probe_at (foldl fail_probe ?b ps) u) \<longleftrightarrow>
      (case instant_checked_add (last (now # map snd ps))
              (min (unat (initial_backoff_secs c) * 2 ^ length ps) (unat (max_backoff_secs c)) * 1000000000) of
         Some v \<Rightarrow> v | None \<Rightarrow> last (now # map snd ps)) \<le> u" for u
    using retry by (simp add: begin_probe_at_def Let_def cb_state_def not_less)
  then show ?thesis using wait by blast
qed

lemma example_probe_granted:
  "probes_granted (snd (record_at (CircuitBreaker_new example_config) BO_Failure 5)) [(2000000005, 3000000000)]"
  unfolding example_open
  by (simp add: opened_inner_def begin_probe_at_def CircuitBreaker_new_def
      example_config_def duration_from_secs_def instant_checked_add_def)

theorem failed_probes_back_off_witness:
  "\<not> fst (begin_probe_at (foldl fail_probe (snd (record_at (CircuitBreaker_new example_config) BO_Failure 5)) [(2000000005, 3000000000)]) 6999999999)
   \<and> fst (begin_probe_at (foldl fail_probe (snd (record_at (CircuitBreaker_new example_config) BO_Failure 5)) [(2000000005, 3000000000)]) 7000000000)"
proof -
  have v: "CircuitBreakerConfig_validate example_config = Inr ()"
    by (simp add: CircuitBreakerConfig_validate_def example_config_def)
  have o: "fst (record_at (CircuitBreaker_new example_config) BO_Failure 5) = Some Open"
    by (simp add: example_open)
  show ?thesis
    using failed_probes_back_off [OF v cb_init o example_probe_granted]
    by (simp add: example_config_def instant_checked_add_def)
qed

section \<open>At most one probe\<close>

datatype cb_event =
    Ev_record BackendOutcome instant
  | Ev_begin instant
  | Ev_finish bool instant

text \<open>Run a sequence of calls and count the probes it grants.\<close>

fun probes_out :: "CircuitBreaker \<Rightarrow> cb_event list \<Rightarrow> nat" where
  "probes_out b [] = 0"
| "probes_out b (Ev_record o' now # es) = probes_out (snd (record_at b o' now)) es"
| "probes_out b (Ev_begin now # es) =
     (case begin_probe_at b now of (g, b') \<Rightarrow> (if g then 1 else 0) + probes_out b' es)"
| "probes_out b (Ev_finish h now # es) = probes_out (snd (finish_probe_at b h now)) es"

definition is_finish :: "cb_event \<Rightarrow> bool" where
  "is_finish e = (case e of Ev_finish _ _ \<Rightarrow> True | _ \<Rightarrow> False)"

lemma half_open_grants_none:
  "cb_state b = HalfOpen \<Longrightarrow> (\<forall>e \<in> set es. \<not> is_finish e) \<Longrightarrow> probes_out b es = 0"
proof (induction es arbitrary: b)
  case (Cons e es)
  then show ?case
    by (cases e) (auto simp: record_at_def begin_probe_at_def cb_state_def is_finish_def Let_def)
qed simp

text \<open>
  From the moment a probe is granted until some caller finishes it, no other
  \<open>begin_probe\<close> succeeds, whatever other calls run in between: between two finishes at most
  one probe is out.
\<close>

theorem sole_probe:
  assumes "\<forall>e \<in> set es. \<not> is_finish e"
  shows "probes_out b es \<le> 1"
  using assms
proof (induction es arbitrary: b)
  case (Cons e es)
  show ?case
  proof (cases e)
    case (Ev_begin now)
    show ?thesis
    proof (cases "fst (begin_probe_at b now)")
      case True
      then have "cb_state (snd (begin_probe_at b now)) = HalfOpen"
        by (auto simp: begin_probe_at_def cb_state_def Let_def split: if_splits)
      with half_open_grants_none Cons.prems True Ev_begin show ?thesis
        by (auto simp: split_beta)
    next
      case False
      with Cons Ev_begin show ?thesis by (auto simp: split_beta)
    qed
  qed (use Cons in \<open>auto simp: is_finish_def\<close>)
qed simp

theorem sole_probe_witness:
  "probes_out (snd (record_at (CircuitBreaker_new example_config) BO_Failure 5))
     [Ev_begin 2000000005, Ev_record BO_Success 2000000006, Ev_begin 2000000007] \<le> 1"
  by (rule sole_probe) (simp add: is_finish_def)

end
