(* ===== verification/In_Memory.thy ===== *)
theory In_Memory
  imports Identity Circuit_Breaker "HOL-Library.List_Lexorder" "HOL-Library.Char_ord"
begin

text \<open>
  The in-memory persistence backend, \<open>crates/queryflux-persistence/src/in_memory.rs\<close>: its state and
  the stores of in-flight and queued queries, proxy settings, workers, configuration revisions,
  capacity and cache entries. Concurrent maps are association lists with distinct keys, in
  their iteration order; each operation on one is a single atomic access of the source or, for
  the compound ones, a run without interference. Times are integers, \<open>now\<close> is the reading of the
  clock. Documents the store never looks into (JSON values) are kept as text.
  The configuration and script stores over the same state are in theory \<open>Config_Store\<close>.
\<close>

type_synonym json = string
type_synonym time = int

section \<open>Rows\<close>

datatype TranslationStatus = T_Yes | T_No | T_Fallback

datatype TranslationReason = SqlglotUnavailable | TranspileError | NotNeeded | NoSchema | OptimizeError

record TranslationOutcome =
  to_status :: TranslationStatus
  to_reason :: "TranslationReason option"

definition not_needed :: TranslationOutcome where
  "not_needed = \<lparr>to_status = T_No, to_reason = Some NotNeeded\<rparr>"

record ExecutingQuery =
  ex_id :: string
  ex_sql :: string
  ex_translation :: "TranslationOutcome option"
  ex_client_sql :: "string option"
  ex_rewritten_sql :: "string option"
  ex_was_dialect_translated :: bool
  ex_translated_sql :: "string option"
  ex_cluster_group :: ClusterGroupName
  ex_cluster_name :: ClusterName
  ex_cluster_group_config_id :: "int option"
  ex_cluster_config_id :: "int option"
  ex_backend_query_id :: string
  ex_poll_base_url :: "string option"
  ex_creation_time :: time
  ex_last_accessed :: time
  ex_query_tags :: QueryTags
  ex_agent_context :: "AgentContext option"
  ex_submitted_guard_actions :: "json list"
  ex_was_guard_blocked :: bool
  ex_submitted_by :: string
  ex_wire_auth :: "StoredWireAuth option"
  ex_queue_duration_ms :: u64

record QueuedQuery =
  qq_id :: string
  qq_sql :: string
  qq_session :: SessionContext
  qq_frontend_protocol :: FrontendProtocol
  qq_cluster_group :: ClusterGroupName
  qq_creation_time :: time
  qq_last_accessed :: time
  qq_sequence :: u64
  qq_submitted_by :: string

record ClusterConfigRecord =
  cc_id :: int
  cc_name :: string
  cc_engine_key :: string
  cc_enabled :: bool
  cc_max_running_queries :: "int option"
  cc_config :: json
  cc_variants :: json
  cc_created_at :: time
  cc_updated_at :: time

record ClusterGroupConfigRecord =
  gc_id :: int
  gc_name :: string
  gc_enabled :: bool
  gc_members :: "string list"
  gc_max_running_queries :: int
  gc_max_queued_queries :: "int option"
  gc_strategy :: "json option"
  gc_circuit_breaker :: "json option"
  gc_allow_groups :: "string list"
  gc_allow_users :: "string list"
  gc_translation_script_ids :: "int list"
  gc_default_tags :: json
  gc_cache :: "json option"
  gc_created_at :: time
  gc_updated_at :: time

record UserScriptRecord =
  us_id :: int
  us_name :: string
  us_description :: string
  us_kind :: string
  us_body :: string
  us_created_at :: time
  us_updated_at :: time

record CacheEntryMeta =
  ce_cache_key :: string
  ce_group_name :: string
  ce_created_at :: time
  ce_expires_at :: time
  ce_row_count :: "int option"
  ce_size_bytes :: "int option"

type_synonym CacheEntryRef = "string \<times> string"

record WorkerRecord =
  wr_name :: string
  wr_version :: string
  wr_labels :: "(string \<times> string) list"
  wr_coordination_mode :: string
  wr_downloaded_revision :: "string option"
  wr_active_revision :: "string option"
  wr_last_error :: "string option"
  wr_last_seen :: time
  wr_registered_at :: "time option"
  wr_status :: json
  wr_kind :: string
  wr_parent :: "string option"

record InMemory =
  executing :: "(string \<times> ExecutingQuery) list"
  queued :: "(string \<times> QueuedQuery) list"
  cluster_configs :: "(string \<times> ClusterConfigRecord) list"
  group_configs :: "(string \<times> ClusterGroupConfigRecord) list"
  next_cluster_id :: int
  next_group_id :: int
  user_scripts :: "(int \<times> UserScriptRecord) list"
  next_script_id :: int
  proxy_settings :: "(string \<times> json) list"
  config_revision :: u64
  published_running_counts :: "(string \<times> u64) list"
  cache_entries :: "(string \<times> CacheEntryMeta) list"
  workers :: "(string \<times> WorkerRecord) list"

definition InMemory_default :: InMemory where
  "InMemory_default = \<lparr>executing = [], queued = [], cluster_configs = [], group_configs = [],
     next_cluster_id = 1, next_group_id = 1, user_scripts = [], next_script_id = 1,
     proxy_settings = [], config_revision = 0, published_running_counts = [], cache_entries = [],
     workers = []\<rparr>"

section \<open>Executing queries\<close>

definition upsert :: "InMemory \<Rightarrow> ExecutingQuery \<Rightarrow> InMemory" where
  "upsert s q = s\<lparr>executing := AList.update (ex_backend_query_id q) q (executing s)\<rparr>"

definition get_executing :: "InMemory \<Rightarrow> string \<Rightarrow> ExecutingQuery option" where
  "get_executing s id' = map_of (executing s) id'"

definition delete_executing :: "InMemory \<Rightarrow> string \<Rightarrow> bool \<times> InMemory" where
  "delete_executing s id' =
     (map_of (executing s) id' \<noteq> None, s\<lparr>executing := AList.delete id' (executing s)\<rparr>)"

definition list_all_executing :: "InMemory \<Rightarrow> ExecutingQuery list" where
  "list_all_executing s = map snd (executing s)"

definition touch_executing_last_accessed :: "InMemory \<Rightarrow> string \<Rightarrow> time \<Rightarrow> InMemory" where
  "touch_executing_last_accessed s id' at =
     s\<lparr>executing := AList.map_entry id' (\<lambda>q. q\<lparr>ex_last_accessed := at\<rparr>) (executing s)\<rparr>"

section \<open>Queued queries\<close>

definition upsert_queued :: "InMemory \<Rightarrow> QueuedQuery \<Rightarrow> InMemory" where
  "upsert_queued s q =
     (let q' = (case map_of (queued s) (qq_id q) of
                  Some existing \<Rightarrow> q\<lparr>qq_creation_time := qq_creation_time existing\<rparr>
                | None \<Rightarrow> q)
      in s\<lparr>queued := AList.update (qq_id q) q' (queued s)\<rparr>)"

definition get_queued :: "InMemory \<Rightarrow> string \<Rightarrow> QueuedQuery option" where
  "get_queued s id' = map_of (queued s) id'"

definition delete_queued :: "InMemory \<Rightarrow> string \<Rightarrow> InMemory" where
  "delete_queued s id' = s\<lparr>queued := AList.delete id' (queued s)\<rparr>"

definition take_queued :: "InMemory \<Rightarrow> string \<Rightarrow> QueuedQuery option \<times> InMemory" where
  "take_queued s id' = (map_of (queued s) id', s\<lparr>queued := AList.delete id' (queued s)\<rparr>)"

definition list_queued :: "InMemory \<Rightarrow> QueuedQuery list" where
  "list_queued s = map snd (queued s)"

definition touch_queued_last_accessed :: "InMemory \<Rightarrow> time \<Rightarrow> string \<Rightarrow> InMemory" where
  "touch_queued_last_accessed s now id' =
     s\<lparr>queued := AList.map_entry id' (\<lambda>q. q\<lparr>qq_last_accessed := now\<rparr>) (queued s)\<rparr>"

definition delete_queued_not_accessed_since :: "InMemory \<Rightarrow> time \<Rightarrow> nat \<times> InMemory" where
  "delete_queued_not_accessed_since s cutoff =
     (let kept = filter (\<lambda>(_, q). qq_last_accessed q \<ge> cutoff) (queued s)
      in (length (filter (\<lambda>(_, q). \<not> qq_last_accessed q \<ge> cutoff) (queued s)), s\<lparr>queued := kept\<rparr>))"

definition count_active_queued_before :: "InMemory \<Rightarrow> string \<Rightarrow> time option \<Rightarrow> time \<Rightarrow> nat" where
  "count_active_queued_before s grp enqueued_before active_after =
     length (filter (\<lambda>(_, q). qq_cluster_group q = grp \<and> qq_last_accessed q \<ge> active_after
       \<and> (case enqueued_before of None \<Rightarrow> True | Some t \<Rightarrow> qq_creation_time q < t)) (queued s))"

text \<open>The queue coordinator of a single instance: every claim succeeds.\<close>

definition try_claim :: "InMemory \<Rightarrow> string \<Rightarrow> QueuedQuery option" where
  "try_claim s id' = map_of (queued s) id'"

definition refresh_claim :: "InMemory \<Rightarrow> string \<Rightarrow> bool" where
  "refresh_claim s id' \<longleftrightarrow> map_of (queued s) id' \<noteq> None"

definition list_unclaimed :: "InMemory \<Rightarrow> QueuedQuery list" where
  "list_unclaimed s = map snd (queued s)"

section \<open>Proxy settings, workers, revisions and capacity\<close>

definition get_proxy_setting :: "InMemory \<Rightarrow> string \<Rightarrow> json option" where
  "get_proxy_setting s k = map_of (proxy_settings s) k"

definition set_proxy_setting :: "InMemory \<Rightarrow> string \<Rightarrow> json \<Rightarrow> InMemory" where
  "set_proxy_setting s k v = s\<lparr>proxy_settings := AList.update k v (proxy_settings s)\<rparr>"

definition delete_proxy_setting :: "InMemory \<Rightarrow> string \<Rightarrow> InMemory" where
  "delete_proxy_setting s k = s\<lparr>proxy_settings := AList.delete k (proxy_settings s)\<rparr>"

definition upsert_worker :: "InMemory \<Rightarrow> time \<Rightarrow> WorkerRecord \<Rightarrow> InMemory" where
  "upsert_worker s now w =
     (let reg = or_else (Option.bind (map_of (workers s) (wr_name w)) wr_registered_at) (Some now);
          w' = w\<lparr>wr_last_seen := now, wr_registered_at := reg\<rparr>
      in s\<lparr>workers := AList.update (wr_name w) w' (workers s)\<rparr>)"

definition list_workers :: "InMemory \<Rightarrow> time \<Rightarrow> WorkerRecord list" where
  "list_workers s since = sort_key wr_name (filter (\<lambda>w. wr_last_seen w \<ge> since) (map snd (workers s)))"

definition current_revision :: "InMemory \<Rightarrow> u64" where
  "current_revision s = config_revision s"

definition bump_revision :: "InMemory \<Rightarrow> u64 \<times> InMemory" where
  "bump_revision s = (config_revision s + 1, s\<lparr>config_revision := config_revision s + 1\<rparr>)"

definition bump_revision_if :: "InMemory \<Rightarrow> u64 \<Rightarrow> u64 option \<times> InMemory" where
  "bump_revision_if s expected =
     (if config_revision s = expected then (Some (expected + 1), s\<lparr>config_revision := expected + 1\<rparr>)
      else (None, s))"

definition active_count :: "InMemory \<Rightarrow> string \<Rightarrow> u64" where
  "active_count s c = (case map_of (published_running_counts s) c of Some v \<Rightarrow> v | None \<Rightarrow> 0)"

definition publish_running_count :: "InMemory \<Rightarrow> string \<Rightarrow> u64 \<Rightarrow> InMemory" where
  "publish_running_count s c n =
     s\<lparr>published_running_counts := AList.update c n (published_running_counts s)\<rparr>"

section \<open>Cache entries\<close>

definition cache_get_valid :: "InMemory \<Rightarrow> time \<Rightarrow> string \<Rightarrow> CacheEntryMeta option" where
  "cache_get_valid s now k =
     (case map_of (cache_entries s) k of
        Some e \<Rightarrow> if ce_expires_at e > now then Some e else None
      | None \<Rightarrow> None)"

definition cache_upsert :: "InMemory \<Rightarrow> CacheEntryMeta \<Rightarrow> InMemory" where
  "cache_upsert s e = s\<lparr>cache_entries := AList.update (ce_cache_key e) e (cache_entries s)\<rparr>"

fun cache_remove_keys ::
  "string list \<Rightarrow> (string \<times> CacheEntryMeta) list \<Rightarrow> CacheEntryRef list \<times> (string \<times> CacheEntryMeta) list" where
  "cache_remove_keys [] es = ([], es)"
| "cache_remove_keys (k # ks) es =
     (case map_of es k of
        Some e \<Rightarrow> (case cache_remove_keys ks (AList.delete k es) of
                     (refs, es') \<Rightarrow> ((ce_cache_key e, ce_group_name e) # refs, es'))
      | None \<Rightarrow> cache_remove_keys ks es)"

definition cache_delete_where :: "InMemory \<Rightarrow> (CacheEntryMeta \<Rightarrow> bool) \<Rightarrow> CacheEntryRef list \<times> InMemory" where
  "cache_delete_where s p =
     (case cache_remove_keys (map fst (filter (\<lambda>(_, e). p e) (cache_entries s))) (cache_entries s) of
        (refs, es) \<Rightarrow> (refs, s\<lparr>cache_entries := es\<rparr>))"

definition cache_delete_expired :: "InMemory \<Rightarrow> time \<Rightarrow> CacheEntryRef list \<times> InMemory" where
  "cache_delete_expired s now = cache_delete_where s (\<lambda>e. ce_expires_at e \<le> now)"

definition cache_delete_by_group :: "InMemory \<Rightarrow> string \<Rightarrow> CacheEntryRef list \<times> InMemory" where
  "cache_delete_by_group s grp = cache_delete_where s (\<lambda>e. ce_group_name e = grp)"

definition cache_delete_all :: "InMemory \<Rightarrow> CacheEntryRef list \<times> InMemory" where
  "cache_delete_all s = cache_delete_where s (\<lambda>_. True)"

definition storage_path :: "CacheEntryRef \<Rightarrow> string" where
  "storage_path r = (case r of (key, grp) \<Rightarrow> grp @ ''/'' @ key @ ''.arrow'')"

section \<open>The contract of a keyed store\<close>

text \<open>
  Several stores share one contract: writing a row replaces the row with its key, after merging
  it with the stored one, and leaves every other key alone; deleting removes one key.
\<close>

locale keyed_rows =
  fixes lookup :: "'s \<Rightarrow> 'k \<Rightarrow> 'v option"
    and put :: "'s \<Rightarrow> 'v \<Rightarrow> 's"
    and remove :: "'s \<Rightarrow> 'k \<Rightarrow> 's"
    and key :: "'v \<Rightarrow> 'k"
    and merge :: "'v option \<Rightarrow> 'v \<Rightarrow> 'v"
  assumes lookup_put: "lookup (put s v) k = (if k = key v then Some (merge (lookup s k) v) else lookup s k)"
    and lookup_remove: "lookup (remove s k') k = (if k = k' then None else lookup s k)"
begin

lemma lookup_put_same: "lookup (put s v) (key v) = Some (merge (lookup s (key v)) v)"
  by (simp add: lookup_put)

lemma foreign_puts:
  "\<forall>v \<in> set vs. key v \<noteq> k \<Longrightarrow> lookup (fold (\<lambda>v s. put s v) vs s) k = lookup s k"
  by (induction vs arbitrary: s) (auto simp: lookup_put)

lemma remove_put: "lookup (remove (put s v) (key v)) k = lookup (remove s (key v)) k"
  by (simp add: lookup_put lookup_remove)

end

locale keyed_rows_keeping = keyed_rows +
  fixes kept :: "'c \<Rightarrow> 'd"
  assumes kept_merge: "kept (merge (Some r) v) = kept r"
begin

lemma puts_keep:
  "lookup s k = Some r \<Longrightarrow>
     \<exists>r'. lookup (fold (\<lambda>v s. put s v) vs s) k = Some r' \<and> kept r' = kept r"
proof (induction vs arbitrary: s r)
  case (Cons v vs)
  have "\<exists>r1. lookup (put s v) k = Some r1 \<and> kept r1 = kept r"
    using Cons.prems by (auto simp: lookup_put kept_merge)
  with Cons.IH show ?case by fastforce
qed simp

end

interpretation executing_rows: keyed_rows get_executing upsert "\<lambda>s k. snd (delete_executing s k)"
  ex_backend_query_id "\<lambda>_ v. v"
  by unfold_locales
    (simp_all add: get_executing_def upsert_def delete_executing_def update_conv' delete_conv')

interpretation cache_rows: keyed_rows "\<lambda>s k. map_of (cache_entries s) k" cache_upsert
  "\<lambda>s k. s\<lparr>cache_entries := AList.delete k (cache_entries s)\<rparr>" ce_cache_key "\<lambda>_ v. v"
  by unfold_locales (simp_all add: cache_upsert_def update_conv' delete_conv')

definition merge_queued :: "QueuedQuery option \<Rightarrow> QueuedQuery \<Rightarrow> QueuedQuery" where
  "merge_queued old q =
     (case old of Some r \<Rightarrow> q\<lparr>qq_creation_time := qq_creation_time r\<rparr> | None \<Rightarrow> q)"

interpretation queued_rows: keyed_rows_keeping get_queued upsert_queued delete_queued qq_id
  merge_queued qq_creation_time
  by unfold_locales
    (simp_all add: get_queued_def upsert_queued_def delete_queued_def merge_queued_def update_conv'
      delete_conv')

interpretation settings_rows: keyed_rows "\<lambda>s k. map_option (Pair k) (get_proxy_setting s k)"
  "\<lambda>s (k, v). set_proxy_setting s k v" delete_proxy_setting fst "\<lambda>_ v. v"
  by unfold_locales
    (auto simp: get_proxy_setting_def set_proxy_setting_def delete_proxy_setting_def update_conv'
      delete_conv' split: prod.splits)

section \<open>Histories of the queue\<close>

datatype queue_op =
    Q_Upsert QueuedQuery
  | Q_Touch time string
  | Q_Delete string
  | Q_Take string
  | Q_Sweep time

fun queue_step :: "queue_op \<Rightarrow> InMemory \<Rightarrow> InMemory" where
  "queue_step (Q_Upsert q) s = upsert_queued s q"
| "queue_step (Q_Touch now i) s = touch_queued_last_accessed s now i"
| "queue_step (Q_Delete i) s = delete_queued s i"
| "queue_step (Q_Take i) s = snd (take_queued s i)"
| "queue_step (Q_Sweep cutoff) s = snd (delete_queued_not_accessed_since s cutoff)"

definition queue_run :: "queue_op list \<Rightarrow> InMemory \<Rightarrow> InMemory" where
  "queue_run ops s = fold queue_step ops s"

text \<open>A map is well formed when its keys are distinct and every row is stored under its own key.\<close>

definition rows_ok :: "('v \<Rightarrow> 'k) \<Rightarrow> ('k \<times> 'v) list \<Rightarrow> bool" where
  "rows_ok key xs \<longleftrightarrow> distinct (map fst xs) \<and> (\<forall>(k, v) \<in> set xs. key v = k)"

lemma rows_ok_Nil [simp]: "rows_ok key []"
  by (simp add: rows_ok_def)

lemma rows_ok_update [inv_intros]: "rows_ok key xs \<Longrightarrow> key v = k \<Longrightarrow> rows_ok key (AList.update k v xs)"
  using set_update_subset [of k v xs] distinct_update [of xs k v] by (fastforce simp: rows_ok_def)

lemma rows_ok_filter [inv_intros]: "rows_ok key xs \<Longrightarrow> rows_ok key (filter p xs)"
  by (auto simp: rows_ok_def distinct_map_filter)

lemma rows_ok_delete [inv_intros]: "rows_ok key xs \<Longrightarrow> rows_ok key (AList.delete k xs)"
  by (simp add: AList.delete_eq rows_ok_filter)

lemma rows_ok_map_entry [inv_intros]:
  assumes "rows_ok key xs" "\<And>v. key (f v) = key v"
  shows "rows_ok key (AList.map_entry k f xs)"
  using assms by (induction xs) (auto simp: rows_ok_def dom_map_entry)

lemma rows_ok_lookup: "rows_ok key xs \<Longrightarrow> map_of xs k = Some v \<Longrightarrow> key v = k"
  by (auto simp: rows_ok_def dest: map_of_SomeD)

definition queue_ok :: "InMemory \<Rightarrow> bool" where
  "queue_ok s \<longleftrightarrow> rows_ok qq_id (queued s)"

lemma map_of_filter_snd:
  "distinct (map fst xs) \<Longrightarrow> map_of (filter (\<lambda>(k, v). p v) xs) k =
     (case map_of xs k of Some v \<Rightarrow> if p v then Some v else None | None \<Rightarrow> None)"
  by (induction xs) (auto split: option.splits simp: map_of_eq_None_iff image_iff dest: map_of_SomeD)

lemma get_queued_touch:
  "get_queued (touch_queued_last_accessed s now i) j =
     (if j = i then map_option (\<lambda>q. q\<lparr>qq_last_accessed := now\<rparr>) (get_queued s j) else get_queued s j)"
  by (simp add: get_queued_def touch_queued_last_accessed_def map_of_map_entry map_option_case split: option.splits)

lemma get_queued_sweep:
  "queue_ok s \<Longrightarrow> get_queued (snd (delete_queued_not_accessed_since s cutoff)) j =
     (case get_queued s j of
        Some q \<Rightarrow> if qq_last_accessed q \<ge> cutoff then Some q else None | None \<Rightarrow> None)"
  by (simp add: get_queued_def delete_queued_not_accessed_since_def queue_ok_def rows_ok_def map_of_filter_snd)

lemma snd_take_queued [simp]: "snd (take_queued s i) = delete_queued s i"
  by (simp add: take_queued_def delete_queued_def)

lemma queue_ok_step [inv_intros]: "queue_ok s \<Longrightarrow> queue_ok (queue_step op s)"
  by (cases op)
    (auto simp: queue_ok_def upsert_queued_def touch_queued_last_accessed_def delete_queued_def
      delete_queued_not_accessed_since_def Let_def intro!: inv_intros split: option.splits)

lemma queue_ok_run [inv_intros]: "queue_ok s \<Longrightarrow> queue_ok (queue_run ops s)"
  unfolding queue_run_def by (induction ops arbitrary: s) (auto intro: inv_intros)

lemma queue_step_creation:
  assumes "queue_ok s" "get_queued s i = Some q"
  shows "case get_queued (queue_step op s) i of
    None \<Rightarrow> True | Some q' \<Rightarrow> qq_creation_time q' = qq_creation_time q"
  using assms queued_rows.lookup_put [of s _ i] queued_rows.lookup_remove [of s _ i]
  by (cases op) (auto simp: get_queued_touch get_queued_sweep merge_queued_def split: option.splits)

text \<open>
  A query keeps its place in the queue: through any history of re-queues (each rebuilds
  the row with a fresh time), polls, sweeps and dequeues of other queries in which it is never
  removed, its creation time stays the time it was first enqueued at.
\<close>

theorem requeue_keeps_place:
  assumes "queue_ok s" "get_queued s i = Some q"
    and "\<forall>n \<le> length ops. get_queued (queue_run (take n ops) s) i \<noteq> None"
  shows "\<exists>q'. get_queued (queue_run ops s) i = Some q' \<and> qq_creation_time q' = qq_creation_time q"
  using assms
proof (induction ops rule: rev_induct)
  case Nil
  then show ?case by (simp add: queue_run_def)
next
  case (snoc op ops)
  have "\<forall>n \<le> length ops. get_queued (queue_run (take n ops) s) i \<noteq> None"
    using snoc.prems(3) by (metis le_SucI length_append_singleton take_append diff_is_0_eq take_0 append_Nil2)
  with snoc.IH snoc.prems obtain q' where
    q': "get_queued (queue_run ops s) i = Some q'" "qq_creation_time q' = qq_creation_time q" by blast
  have step: "queue_run (ops @ [op]) s = queue_step op (queue_run ops s)" by (simp add: queue_run_def)
  have "get_queued (queue_run (ops @ [op]) s) i \<noteq> None"
    using snoc.prems(3) by (metis order_refl take_all)
  with queue_step_creation [OF queue_ok_run [OF snoc.prems(1)] q'(1), of op] q'(2) show ?case
    unfolding step by (auto split: option.splits)
qed

text \<open>Results of the dequeues of one query in a history, in order.\<close>

fun takes_of :: "string \<Rightarrow> queue_op list \<Rightarrow> InMemory \<Rightarrow> QueuedQuery list" where
  "takes_of i [] s = []"
| "takes_of i (op # ops) s =
     (case op of Q_Take j \<Rightarrow> if j = i then (case fst (take_queued s i) of Some q \<Rightarrow> [q] | None \<Rightarrow> []) else []
      | _ \<Rightarrow> []) @ takes_of i ops (queue_step op s)"

definition enqueues :: "string \<Rightarrow> queue_op \<Rightarrow> bool" where
  "enqueues i op = (case op of Q_Upsert q \<Rightarrow> qq_id q = i | _ \<Rightarrow> False)"

lemma queue_step_absent:
  "queue_ok s \<Longrightarrow> get_queued s i = None \<Longrightarrow> \<not> enqueues i op \<Longrightarrow> get_queued (queue_step op s) i = None"
  using queued_rows.lookup_put [of s _ i] queued_rows.lookup_remove [of s _ i]
  by (cases op) (auto simp: get_queued_touch get_queued_sweep enqueues_def)

lemma takes_of_absent:
  "queue_ok s \<Longrightarrow> get_queued s i = None \<Longrightarrow> \<forall>op \<in> set ops. \<not> enqueues i op \<Longrightarrow> takes_of i ops s = []"
proof (induction ops arbitrary: s)
  case (Cons op ops)
  have "takes_of i ops (queue_step op s) = []"
    by (rule Cons.IH [OF queue_ok_step queue_step_absent]) (use Cons.prems in auto)
  with Cons.prems show ?case by (auto simp: take_queued_def get_queued_def split: queue_op.splits)
qed simp

text \<open>
  However many requests race to take a queued query (to cancel it or to end its wait), in whatever order with
  polls, sweeps, deletions and traffic of other queries, as long as it is not enqueued again at most one of
  them gets it. Dispatching a queued query does not go through \<open>take_queued\<close>.
\<close>

lemma dequeued_once:
  assumes "queue_ok s" "\<forall>op \<in> set ops. \<not> enqueues i op"
  shows "length (takes_of i ops s) \<le> 1"
  using assms
proof (induction ops arbitrary: s)
  case (Cons op ops)
  have ok: "queue_ok (queue_step op s)" by (intro inv_intros Cons.prems(1))
  show ?case
  proof (cases "op = Q_Take i")
    case True
    then have "get_queued (queue_step op s) i = None" by (simp add: queued_rows.lookup_remove)
    with ok Cons.prems(2) have "takes_of i ops (queue_step op s) = []" by (intro takes_of_absent) auto
    with True show ?thesis by (auto split: option.splits)
  next
    case False
    then have "takes_of i (op # ops) s = takes_of i ops (queue_step op s)" by (cases op) auto
    with Cons.IH [OF ok] Cons.prems(2) show ?thesis by simp
  qed
qed simp

section \<open>Cache entries\<close>

lemma cache_remove_keys_eq:
  "rows_ok ce_cache_key es \<Longrightarrow> distinct ks \<Longrightarrow> set ks \<subseteq> fst ` set es \<Longrightarrow>
     cache_remove_keys ks es =
       (map (\<lambda>k. (k, ce_group_name (the (map_of es k)))) ks, filter (\<lambda>(k, _). k \<notin> set ks) es)"
proof (induction ks arbitrary: es)
  case (Cons k ks)
  then obtain e where e: "map_of es k = Some e" by (metis insert_subset list.simps(15) map_of_eq_None_iff not_None_eq)
  have "cache_remove_keys ks (AList.delete k es) =
      (map (\<lambda>j. (j, ce_group_name (the (map_of (AList.delete k es) j)))) ks,
       filter (\<lambda>(j, _). j \<notin> set ks) (AList.delete k es))"
  proof (rule Cons.IH [OF rows_ok_delete [OF Cons.prems(1)]])
    have "fst ` set (AList.delete k es) = fst ` set es - {k}"
      by (metis delete_keys list.set_map set_removeAll)
    then show "distinct ks" "set ks \<subseteq> fst ` set (AList.delete k es)" using Cons.prems(2,3) by auto
  qed
  moreover have "map (\<lambda>j. (j, ce_group_name (the (map_of (AList.delete k es) j)))) ks
      = map (\<lambda>j. (j, ce_group_name (the (map_of es j)))) ks"
    using Cons.prems(2) by (auto simp: delete_conv')
  moreover have "filter (\<lambda>(j, _). j \<notin> set ks) (AList.delete k es) = filter (\<lambda>(j, _). j \<notin> set (k # ks)) es"
    by (auto simp: AList.delete_eq intro!: filter_cong)
  ultimately show ?case using e rows_ok_lookup [OF Cons.prems(1) e] by simp
qed simp

lemma cache_delete_where_eq:
  assumes ok: "rows_ok ce_cache_key (cache_entries s)"
  shows "cache_delete_where s p =
    (map (\<lambda>(k, e). (k, ce_group_name e)) (filter (\<lambda>(_, e). p e) (cache_entries s)),
     s\<lparr>cache_entries := filter (\<lambda>(_, e). \<not> p e) (cache_entries s)\<rparr>)"
proof -
  let ?es = "cache_entries s" and ?hit = "filter (\<lambda>(_, e). p e) (cache_entries s)"
  have d: "distinct (map fst ?es)" using ok by (simp add: rows_ok_def)
  have val: "map_of ?es k = Some e" if "(k, e) \<in> set ?es" for k e
    using that d by simp
  have refs: "map (\<lambda>k. (k, ce_group_name (the (map_of ?es k)))) (map fst ?hit) = map (\<lambda>(k, e). (k, ce_group_name e)) ?hit"
    using val by auto
  have rest: "filter (\<lambda>(k, _). k \<notin> set (map fst ?hit)) ?es = filter (\<lambda>(_, e). \<not> p e) ?es"
  proof (intro filter_cong refl)
    fix x assume x: "x \<in> set ?es"
    have "fst x \<in> fst ` set ?hit \<longleftrightarrow> p (snd x)"
    proof
      assume "fst x \<in> fst ` set ?hit"
      then obtain e where "(fst x, e) \<in> set ?es" "p e" by auto
      with val x show "p (snd x)" by (metis option.inject prod.collapse)
    qed (use x in \<open>force\<close>)
    then show "(case x of (k, _) \<Rightarrow> k \<notin> set (map fst ?hit)) = (case x of (_, e) \<Rightarrow> \<not> p e)"
      by (simp add: split_beta)
  qed
  have "distinct (map fst ?hit)" using d by (simp add: distinct_map_filter)
  moreover have "set (map fst ?hit) \<subseteq> fst ` set ?es" by auto
  ultimately have "cache_remove_keys (map fst ?hit) ?es =
      (map (\<lambda>(k, e). (k, ce_group_name e)) ?hit, filter (\<lambda>(_, e). \<not> p e) ?es)"
    using cache_remove_keys_eq [OF ok, of "map fst ?hit", unfolded refs rest] by blast
  then show ?thesis by (simp add: cache_delete_where_def)
qed

text \<open>
  Purging the cache loses no file and keeps no stale row: the references an expiry pass
  returns for file clean-up are exactly the entries that have expired, each once, and the
  entries that remain are exactly those still valid; afterwards a lookup finds an entry exactly
  when it found it before. Purging one group returns and removes exactly that group's entries.
\<close>

theorem cache_purge_exact:
  assumes "rows_ok ce_cache_key (cache_entries s)"
    and "cache_delete_expired s now = (refs, s')" "cache_delete_by_group s grp = (grefs, s'')"
  shows "refs = map (\<lambda>(k, e). (k, ce_group_name e)) (filter (\<lambda>(_, e). ce_expires_at e \<le> now) (cache_entries s))
    \<and> distinct refs
    \<and> cache_entries s' = filter (\<lambda>(_, e). now < ce_expires_at e) (cache_entries s)
    \<and> (\<forall>k. cache_get_valid s' now k = cache_get_valid s now k)
    \<and> (\<forall>r \<in> set grefs. snd r = grp)
    \<and> (\<forall>(k, e) \<in> set (cache_entries s''). ce_group_name e \<noteq> grp)
    \<and> length grefs + length (cache_entries s'') = length (cache_entries s)"
proof -
  let ?es = "cache_entries s"
  have d: "distinct (map fst ?es)" using assms(1) by (simp add: rows_ok_def)
  have e: "refs = map (\<lambda>(k, e). (k, ce_group_name e)) (filter (\<lambda>(_, e). ce_expires_at e \<le> now) ?es)"
    "cache_entries s' = filter (\<lambda>(_, e). now < ce_expires_at e) ?es"
    using assms(2) cache_delete_where_eq [OF assms(1)]
    by (auto simp: cache_delete_expired_def not_le)
  have g: "grefs = map (\<lambda>(k, e). (k, ce_group_name e)) (filter (\<lambda>(_, e). ce_group_name e = grp) ?es)"
    "cache_entries s'' = filter (\<lambda>(_, e). \<not> ce_group_name e = grp) ?es"
    using assms(3) cache_delete_where_eq [OF assms(1)] by (auto simp: cache_delete_by_group_def)
  have "distinct (map fst refs)" using d by (simp add: e comp_def split_beta distinct_map_filter)
  then have dr: "distinct refs" by (simp add: distinct_map)
  have "cache_get_valid s' now k = cache_get_valid s now k" for k
    using map_of_filter_snd [OF d, of "\<lambda>e. now < ce_expires_at e" k]
    by (auto simp: cache_get_valid_def e split: option.splits)
  moreover have "length grefs + length (cache_entries s'') = length ?es"
    using sum_length_filter_compl [of "\<lambda>(_, e). ce_group_name e = grp" ?es] by (simp add: g split_beta')
  ultimately show ?thesis using e dr g by auto
qed


section \<open>Witnesses\<close>

definition example_queued :: "string \<Rightarrow> time \<Rightarrow> QueuedQuery" where
  "example_queued i t = \<lparr>qq_id = i, qq_sql = ''SELECT 1'', qq_session = SessionContext_default,
     qq_frontend_protocol = TrinoHttp, qq_cluster_group = ''g'', qq_creation_time = t,
     qq_last_accessed = t, qq_sequence = 0, qq_submitted_by = ''ann''\<rparr>"

definition example_queue :: InMemory where
  "example_queue = upsert_queued InMemory_default (example_queued ''q'' 5)"

lemma example_queue_eq: "queued example_queue = [(''q'', example_queued ''q'' 5)]"
  by (simp add: example_queue_def upsert_queued_def InMemory_default_def example_queued_def)

lemma example_queue_ok: "queue_ok example_queue"
  by (simp add: queue_ok_def rows_ok_def example_queue_eq example_queued_def)

lemmas queue_eval = queue_run_def upsert_queued_def get_queued_def example_queue_eq Let_def
  touch_queued_last_accessed_def delete_queued_not_accessed_since_def example_queued_def take_queued_def

theorem requeue_keeps_place_witness:
  "\<exists>q'. get_queued (queue_run [Q_Upsert (example_queued ''q'' 9), Q_Touch 9 ''q'', Q_Sweep 8] example_queue) ''q'' = Some q'
     \<and> qq_creation_time q' = 5"
proof -
  have get: "get_queued example_queue ''q'' = Some (example_queued ''q'' 5)"
    by (simp add: get_queued_def example_queue_eq)
  have "\<forall>n \<le> length [Q_Upsert (example_queued ''q'' 9), Q_Touch 9 ''q'', Q_Sweep 8].
      get_queued (queue_run (take n [Q_Upsert (example_queued ''q'' 9), Q_Touch 9 ''q'', Q_Sweep 8]) example_queue) ''q'' \<noteq> None"
    by (auto simp: le_Suc_eq queue_eval numeral_3_eq_3)
  from requeue_keeps_place [OF example_queue_ok get this] show ?thesis by (simp add: example_queued_def)
qed

definition example_cache :: InMemory where
  "example_cache = InMemory_default\<lparr>cache_entries :=
     [(''k'', \<lparr>ce_cache_key = ''k'', ce_group_name = ''g'', ce_created_at = 0, ce_expires_at = 3,
        ce_row_count = None, ce_size_bytes = None\<rparr>)]\<rparr>"

theorem cache_purge_exact_witness:
  "fst (cache_delete_expired example_cache 4) = [(''k'', ''g'')]
   \<and> length (fst (cache_delete_by_group example_cache ''g'')) = 1"
proof -
  have ok: "rows_ok ce_cache_key (cache_entries example_cache)"
    by (simp add: rows_ok_def example_cache_def)
  obtain refs s' grefs s'' where d: "cache_delete_expired example_cache 4 = (refs, s')"
    "cache_delete_by_group example_cache ''g'' = (grefs, s'')" by (metis prod.exhaust)
  note p = cache_purge_exact [OF ok d]
  have "cache_entries s'' = []"
    using d(2) by (auto simp: cache_delete_by_group_def cache_delete_where_def example_cache_def)
  with p d show ?thesis by (simp add: example_cache_def)
qed

end
