(* ===== verification/Config_Store.thy ===== *)
theory Config_Store
  imports In_Memory
begin

text \<open>
  The configuration and script stores of the in-memory backend: the \<open>ClusterConfigStore\<close> and
  \<open>ScriptLibraryStore\<close> implementations of \<open>crates/queryflux-persistence/src/in_memory.rs\<close>, with
  the request types of \<open>cluster_config.rs\<close> and \<open>script_library.rs\<close>. \<open>serde_json\<close> reads a stored
  circuit-breaker document: it is the parameter \<open>parse_cb\<close>. Row ids (\<open>i64\<close> counters) are integers
  that do not wrap.
\<close>

section \<open>Requests\<close>

record UpsertClusterConfig =
  uc_engine_key :: string
  uc_enabled :: bool
  uc_max_running_queries :: "int option"
  uc_config :: json
  uc_variants :: json

record UpsertClusterGroupConfig =
  ug_enabled :: bool
  ug_members :: "string list"
  ug_max_running_queries :: int
  ug_max_queued_queries :: "int option"
  ug_strategy :: "json option"
  ug_circuit_breaker :: "json option"
  ug_allow_groups :: "string list"
  ug_allow_users :: "string list"
  ug_translation_script_ids :: "int list"
  ug_default_tags :: json
  ug_cache :: "json option"

record UpsertUserScript =
  up_name :: string
  up_description :: string
  up_kind :: string
  up_body :: string

type_synonym parse_cb = "json \<Rightarrow> string + CircuitBreakerConfig"

definition KIND_TRANSLATION_FIXUP :: string where "KIND_TRANSLATION_FIXUP = ''translation_fixup''"
definition KIND_ROUTING :: string where "KIND_ROUTING = ''routing''"
definition KIND_GUARD :: string where "KIND_GUARD = ''guard''"

definition is_valid_script_kind :: "string \<Rightarrow> bool" where
  "is_valid_script_kind kind \<longleftrightarrow> kind \<in> {KIND_TRANSLATION_FIXUP, KIND_ROUTING, KIND_GUARD}"

definition quote :: "string \<Rightarrow> string" where
  "quote s = CHR 0x27 # s @ [CHR 0x27]"

definition show_int :: "int \<Rightarrow> string" where
  "show_int i = (if i < 0 then ''-'' @ show_nat (nat (- i)) else show_nat (nat i))"

fun breaker_error_text :: "CircuitBreakerConfigError \<Rightarrow> string" where
  "breaker_error_text WindowOrMinRequestsZero = ''circuitBreaker windowSecs and minRequests must be positive''"
| "breaker_error_text MinRequestsTooLarge = ''circuitBreaker minRequests must not exceed 10000''"
| "breaker_error_text RateOutOfRange = ''circuitBreaker rate percentages must be between 1 and 100''"
| "breaker_error_text BackoffOrder =
     ''circuitBreaker maxBackoffSecs must be at least initialBackoffSecs, and both must be positive''"
| "breaker_error_text BackoffTooLarge = ''circuitBreaker maxBackoffSecs must not exceed one year''"

definition validate_circuit_breaker :: "parse_cb \<Rightarrow> UpsertClusterGroupConfig \<Rightarrow> string + unit" where
  "validate_circuit_breaker parse cfg =
     (case ug_circuit_breaker cfg of
        None \<Rightarrow> Inr ()
      | Some value \<Rightarrow>
          (case parse value of
             Inl e \<Rightarrow> Inl (''invalid circuitBreaker: '' @ e)
           | Inr config \<Rightarrow> map_sum breaker_error_text id (CircuitBreakerConfig_validate config)))"

section \<open>Clusters\<close>

definition list_cluster_configs :: "InMemory \<Rightarrow> ClusterConfigRecord list" where
  "list_cluster_configs s = map snd (cluster_configs s)"

definition get_cluster_config :: "InMemory \<Rightarrow> string \<Rightarrow> ClusterConfigRecord option" where
  "get_cluster_config s name = map_of (cluster_configs s) name"

definition cluster_row :: "int \<Rightarrow> string \<Rightarrow> UpsertClusterConfig \<Rightarrow> time \<Rightarrow> time \<Rightarrow> ClusterConfigRecord" where
  "cluster_row i name cfg created updated =
     \<lparr>cc_id = i, cc_name = name, cc_engine_key = uc_engine_key cfg, cc_enabled = uc_enabled cfg,
      cc_max_running_queries = uc_max_running_queries cfg, cc_config = uc_config cfg,
      cc_variants = uc_variants cfg, cc_created_at = created, cc_updated_at = updated\<rparr>"

definition upsert_cluster_config ::
  "InMemory \<Rightarrow> time \<Rightarrow> string \<Rightarrow> UpsertClusterConfig \<Rightarrow> ClusterConfigRecord \<times> InMemory" where
  "upsert_cluster_config s now name cfg =
     (case map_of (cluster_configs s) name of
        Some r \<Rightarrow>
          let row = cluster_row (cc_id r) name cfg (cc_created_at r) now
          in (row, s\<lparr>cluster_configs := AList.update name row (cluster_configs s)\<rparr>)
      | None \<Rightarrow>
          let row = cluster_row (next_cluster_id s) name cfg now now
          in (row, s\<lparr>cluster_configs := AList.update name row (cluster_configs s),
                    next_cluster_id := next_cluster_id s + 1\<rparr>))"

definition insert_cluster_config_if_missing ::
  "InMemory \<Rightarrow> time \<Rightarrow> string \<Rightarrow> UpsertClusterConfig \<Rightarrow> bool \<times> InMemory" where
  "insert_cluster_config_if_missing s now name cfg =
     (if map_of (cluster_configs s) name \<noteq> None then (False, s)
      else (True, s\<lparr>cluster_configs :=
                      AList.update name (cluster_row (next_cluster_id s) name cfg now now) (cluster_configs s),
                   next_cluster_id := next_cluster_id s + 1\<rparr>))"

definition drop_member :: "time \<Rightarrow> string \<Rightarrow> ClusterGroupConfigRecord \<Rightarrow> ClusterGroupConfigRecord" where
  "drop_member now name g =
     (let members = filter (\<lambda>m. m \<noteq> name) (gc_members g) in
      if length members \<noteq> length (gc_members g)
      then g\<lparr>gc_members := members, gc_updated_at := now\<rparr> else g\<lparr>gc_members := members\<rparr>)"

definition delete_cluster_config :: "InMemory \<Rightarrow> time \<Rightarrow> string \<Rightarrow> bool \<times> InMemory" where
  "delete_cluster_config s now name =
     (if map_of (cluster_configs s) name = None then (False, s)
      else (True, s\<lparr>cluster_configs := AList.delete name (cluster_configs s),
                   group_configs := map (\<lambda>(k, g). (k, drop_member now name g)) (group_configs s)\<rparr>))"

section \<open>Groups\<close>

definition list_group_configs :: "InMemory \<Rightarrow> ClusterGroupConfigRecord list" where
  "list_group_configs s = map snd (group_configs s)"

definition get_group_config :: "InMemory \<Rightarrow> string \<Rightarrow> ClusterGroupConfigRecord option" where
  "get_group_config s name = map_of (group_configs s) name"

definition check_members :: "InMemory \<Rightarrow> string list \<Rightarrow> unit result" where
  "check_members s ms =
     (case List.find (\<lambda>m. map_of (cluster_configs s) m = None) ms of
        Some m \<Rightarrow> Inl (Persistence (''Unknown cluster '' @ quote m @ '' in group members (clusters must exist first)''))
      | None \<Rightarrow> Inr ())"

definition is_fixup :: "InMemory \<Rightarrow> int \<Rightarrow> bool" where
  "is_fixup s sid =
     (case map_of (user_scripts s) sid of Some r \<Rightarrow> us_kind r = KIND_TRANSLATION_FIXUP | None \<Rightarrow> False)"

definition check_scripts :: "InMemory \<Rightarrow> int list \<Rightarrow> unit result" where
  "check_scripts s sids =
     (case List.find (\<lambda>sid. \<not> is_fixup s sid) sids of
        Some sid \<Rightarrow> Inl (Persistence (''Unknown or invalid translation script id '' @ show_int sid))
      | None \<Rightarrow> Inr ())"

definition group_row ::
  "int \<Rightarrow> string \<Rightarrow> UpsertClusterGroupConfig \<Rightarrow> time \<Rightarrow> time \<Rightarrow> ClusterGroupConfigRecord" where
  "group_row i name cfg created updated =
     \<lparr>gc_id = i, gc_name = name, gc_enabled = ug_enabled cfg, gc_members = ug_members cfg,
      gc_max_running_queries = ug_max_running_queries cfg,
      gc_max_queued_queries = ug_max_queued_queries cfg, gc_strategy = ug_strategy cfg,
      gc_circuit_breaker = ug_circuit_breaker cfg, gc_allow_groups = ug_allow_groups cfg,
      gc_allow_users = ug_allow_users cfg,
      gc_translation_script_ids = ug_translation_script_ids cfg,
      gc_default_tags = ug_default_tags cfg, gc_cache = ug_cache cfg,
      gc_created_at = created, gc_updated_at = updated\<rparr>"

text \<open>The id of a new group is drawn before its scripts are checked, so a rejected request uses one up.\<close>

definition upsert_group_config ::
  "parse_cb \<Rightarrow> InMemory \<Rightarrow> time \<Rightarrow> string \<Rightarrow> UpsertClusterGroupConfig
   \<Rightarrow> ClusterGroupConfigRecord result \<times> InMemory" where
  "upsert_group_config parse s now name cfg =
     (case validate_circuit_breaker parse cfg of
        Inl e \<Rightarrow> (Inl (Config e), s)
      | Inr _ \<Rightarrow>
          (case check_members s (ug_members cfg) of
             Inl e \<Rightarrow> (Inl e, s)
           | Inr _ \<Rightarrow>
               let existing = map_of (group_configs s) name;
                   i = (case existing of Some r \<Rightarrow> gc_id r | None \<Rightarrow> next_group_id s);
                   s1 = (case existing of Some _ \<Rightarrow> s
                         | None \<Rightarrow> s\<lparr>next_group_id := next_group_id s + 1\<rparr>);
                   created = (case existing of Some r \<Rightarrow> gc_created_at r | None \<Rightarrow> now);
                   row = group_row i name cfg created now
               in (case check_scripts s1 (ug_translation_script_ids cfg) of
                     Inl e \<Rightarrow> (Inl e, s1)
                   | Inr _ \<Rightarrow> (Inr row, s1\<lparr>group_configs := AList.update name row (group_configs s1)\<rparr>))))"

definition insert_group_config_if_missing ::
  "parse_cb \<Rightarrow> InMemory \<Rightarrow> time \<Rightarrow> string \<Rightarrow> UpsertClusterGroupConfig \<Rightarrow> bool result \<times> InMemory" where
  "insert_group_config_if_missing parse s now name cfg =
     (case validate_circuit_breaker parse cfg of
        Inl e \<Rightarrow> (Inl (Config e), s)
      | Inr _ \<Rightarrow>
          if map_of (group_configs s) name \<noteq> None then (Inr False, s)
          else
            (case check_members s (ug_members cfg) of
               Inl e \<Rightarrow> (Inl e, s)
             | Inr _ \<Rightarrow>
                 (case check_scripts s (ug_translation_script_ids cfg) of
                    Inl e \<Rightarrow> (Inl e, s)
                  | Inr _ \<Rightarrow>
                      (Inr True,
                       s\<lparr>group_configs := AList.update name (group_row (next_group_id s) name cfg now now)
                                            (group_configs s),
                         next_group_id := next_group_id s + 1\<rparr>))))"

definition delete_group_config :: "InMemory \<Rightarrow> string \<Rightarrow> bool \<times> InMemory" where
  "delete_group_config s name =
     (map_of (group_configs s) name \<noteq> None, s\<lparr>group_configs := AList.delete name (group_configs s)\<rparr>)"

section \<open>Renaming\<close>

definition rename_member :: "time \<Rightarrow> string \<Rightarrow> string \<Rightarrow> ClusterGroupConfigRecord \<Rightarrow> ClusterGroupConfigRecord" where
  "rename_member now old new g =
     (let members = map (\<lambda>m. if m = old then new else m) (gc_members g) in
      if old \<in> set (gc_members g) then g\<lparr>gc_members := members, gc_updated_at := now\<rparr>
      else g\<lparr>gc_members := members\<rparr>)"

definition rename_cluster_config ::
  "InMemory \<Rightarrow> time \<Rightarrow> string \<Rightarrow> string \<Rightarrow> ClusterConfigRecord result \<times> InMemory" where
  "rename_cluster_config s now old0 new0 =
     (let old = trim old0; new = trim new0 in
      if new = [] then (Inl (Persistence ''New cluster name must not be empty''), s)
      else if old = new then
        (case map_of (cluster_configs s) old of
           Some r \<Rightarrow> (Inr r, s)
         | None \<Rightarrow> (Inl (Persistence (''Cluster '' @ quote old @ '' not found'')), s))
      else if map_of (cluster_configs s) new \<noteq> None then
        (Inl (Persistence (''Cluster name '' @ quote new @ '' is already in use'')), s)
      else
        (case map_of (cluster_configs s) old of
           None \<Rightarrow> (Inl (Persistence (''Cluster '' @ quote old @ '' not found'')), s)
         | Some r \<Rightarrow>
             let row = r\<lparr>cc_name := new, cc_updated_at := now\<rparr> in
             (Inr row,
              s\<lparr>cluster_configs := AList.update new row (AList.delete old (cluster_configs s)),
                group_configs := map (\<lambda>(k, g). (k, rename_member now old new g)) (group_configs s)\<rparr>)))"

definition rename_group_config ::
  "InMemory \<Rightarrow> time \<Rightarrow> string \<Rightarrow> string \<Rightarrow> ClusterGroupConfigRecord result \<times> InMemory" where
  "rename_group_config s now old0 new0 =
     (let old = trim old0; new = trim new0 in
      if new = [] then (Inl (Persistence ''New group name must not be empty''), s)
      else if old = new then
        (case map_of (group_configs s) old of
           Some r \<Rightarrow> (Inr r, s)
         | None \<Rightarrow> (Inl (Persistence (''Group '' @ quote old @ '' not found'')), s))
      else if map_of (group_configs s) new \<noteq> None then
        (Inl (Persistence (''Group name '' @ quote new @ '' is already in use'')), s)
      else
        (case map_of (group_configs s) old of
           None \<Rightarrow> (Inl (Persistence (''Group '' @ quote old @ '' not found'')), s)
         | Some r \<Rightarrow>
             let row = r\<lparr>gc_name := new, gc_updated_at := now\<rparr> in
             (Inr row, s\<lparr>group_configs := AList.update new row (AList.delete old (group_configs s))\<rparr>)))"

section \<open>Scripts\<close>

definition list_user_scripts :: "InMemory \<Rightarrow> string option \<Rightarrow> UserScriptRecord list" where
  "list_user_scripts s kind =
     sort_key us_name (filter (\<lambda>r. case kind of Some k \<Rightarrow> us_kind r = k | None \<Rightarrow> True)
       (map snd (user_scripts s)))"

definition get_user_script :: "InMemory \<Rightarrow> int \<Rightarrow> UserScriptRecord option" where
  "get_user_script s i = map_of (user_scripts s) i"

definition create_user_script ::
  "InMemory \<Rightarrow> time \<Rightarrow> UpsertUserScript \<Rightarrow> UserScriptRecord result \<times> InMemory" where
  "create_user_script s now body =
     (if \<not> is_valid_script_kind (up_kind body) then
        (Inl (Persistence (''Invalid script kind '' @ quote (up_kind body))), s)
      else if list_ex (\<lambda>(_, r). us_name r = up_name body) (user_scripts s) then
        (Inl (Persistence (''Script name '' @ quote (up_name body) @ '' already exists'')), s)
      else
        let i = next_script_id s;
            row = \<lparr>us_id = i, us_name = up_name body, us_description = up_description body,
                   us_kind = up_kind body, us_body = up_body body, us_created_at = now, us_updated_at = now\<rparr>
        in (Inr row, s\<lparr>user_scripts := AList.update i row (user_scripts s), next_script_id := i + 1\<rparr>))"

definition update_user_script ::
  "InMemory \<Rightarrow> time \<Rightarrow> int \<Rightarrow> UpsertUserScript \<Rightarrow> UserScriptRecord result \<times> InMemory" where
  "update_user_script s now i body =
     (if \<not> is_valid_script_kind (up_kind body) then
        (Inl (Persistence (''Invalid script kind '' @ quote (up_kind body))), s)
      else if list_ex (\<lambda>(k, r). k \<noteq> i \<and> us_name r = up_name body) (user_scripts s) then
        (Inl (Persistence (''Script name '' @ quote (up_name body) @ '' already exists'')), s)
      else
        (case map_of (user_scripts s) i of
           None \<Rightarrow> (Inl (Persistence (''user script id '' @ show_int i @ '' not found'')), s)
         | Some r \<Rightarrow>
             let row = r\<lparr>us_name := up_name body, us_description := up_description body,
                        us_kind := up_kind body, us_body := up_body body, us_updated_at := now\<rparr>
             in (Inr row, s\<lparr>user_scripts := AList.update i row (user_scripts s)\<rparr>)))"

definition drop_script :: "int \<Rightarrow> ClusterGroupConfigRecord \<Rightarrow> ClusterGroupConfigRecord" where
  "drop_script i g = g\<lparr>gc_translation_script_ids := filter (\<lambda>x. x \<noteq> i) (gc_translation_script_ids g)\<rparr>"

definition delete_user_script :: "InMemory \<Rightarrow> int \<Rightarrow> bool \<times> InMemory" where
  "delete_user_script s i =
     (map_of (user_scripts s) i \<noteq> None,
      s\<lparr>group_configs := map (\<lambda>(k, g). (k, drop_script i g)) (group_configs s),
        user_scripts := AList.delete i (user_scripts s)\<rparr>)"

definition load_group_translation_bodies :: "InMemory \<Rightarrow> (string \<times> string list) list" where
  "load_group_translation_bodies s =
     fold (\<lambda>(_, g) m.
        let bodies = List.map_filter (\<lambda>sid.
              case map_of (user_scripts s) sid of
                Some r \<Rightarrow> if us_kind r = KIND_TRANSLATION_FIXUP then Some (us_body r) else None
              | None \<Rightarrow> None) (gc_translation_script_ids g)
        in if bodies \<noteq> [] then AList.update (gc_name g) bodies m else m) (group_configs s) []"

section \<open>The invariant\<close>

text \<open>
  Rows are stored under their names, ids are unique and below the counters, every member of a
  group is a stored cluster, every translation script of a group is a stored script, script
  names are unique and script kinds are known.
\<close>

definition ids_ok :: "('v \<Rightarrow> int) \<Rightarrow> int \<Rightarrow> ('k \<times> 'v) list \<Rightarrow> bool" where
  "ids_ok rid next xs \<longleftrightarrow> distinct (map (rid \<circ> snd) xs) \<and> (\<forall>(_, v) \<in> set xs. rid v < next)"

definition group_refs_ok :: "InMemory \<Rightarrow> ClusterGroupConfigRecord \<Rightarrow> bool" where
  "group_refs_ok s g \<longleftrightarrow> set (gc_members g) \<subseteq> dom (map_of (cluster_configs s))
     \<and> set (gc_translation_script_ids g) \<subseteq> dom (map_of (user_scripts s))"

definition scripts_ok :: "InMemory \<Rightarrow> bool" where
  "scripts_ok s \<longleftrightarrow> rows_ok us_id (user_scripts s) \<and> ids_ok us_id (next_script_id s) (user_scripts s)
     \<and> distinct (map (us_name \<circ> snd) (user_scripts s))
     \<and> (\<forall>(_, r) \<in> set (user_scripts s). is_valid_script_kind (us_kind r))"

definition clusters_ok :: "InMemory \<Rightarrow> bool" where
  "clusters_ok s \<longleftrightarrow> rows_ok cc_name (cluster_configs s)
     \<and> ids_ok cc_id (next_cluster_id s) (cluster_configs s)"

definition groups_ok :: "InMemory \<Rightarrow> bool" where
  "groups_ok s \<longleftrightarrow> rows_ok gc_name (group_configs s) \<and> ids_ok gc_id (next_group_id s) (group_configs s)
     \<and> (\<forall>(_, g) \<in> set (group_configs s). group_refs_ok s g)"

definition config_ok :: "InMemory \<Rightarrow> bool" where
  "config_ok s \<longleftrightarrow> clusters_ok s \<and> groups_ok s \<and> scripts_ok s"

lemma ids_ok_Nil [simp]: "ids_ok rid next []"
  by (simp add: ids_ok_def)

lemma map_snd_update:
  "map_of xs k = Some r \<Longrightarrow> f v = f r \<Longrightarrow> map (f \<circ> snd) (AList.update k v xs) = map (f \<circ> snd) xs"
  by (induction xs) auto

lemma update_new: "map_of xs k = None \<Longrightarrow> AList.update k v xs = xs @ [(k, v)]"
  by (induction xs) auto

lemma ids_ok_replace:
  assumes "ids_ok rid next xs" "map_of xs k = Some r" "rid v = rid r"
  shows "ids_ok rid next (AList.update k v xs)"
  using assms map_snd_update [of xs k r rid v] set_update_subset [of k v xs] map_of_SomeD [OF assms(2)]
  by (force simp: ids_ok_def)

lemma ids_ok_fresh:
  "ids_ok rid next xs \<Longrightarrow> map_of xs k = None \<Longrightarrow> rid v = next \<Longrightarrow>
     ids_ok rid (next + 1) (AList.update k v xs)"
  by (force simp: ids_ok_def update_new)

lemma ids_ok_skip: "ids_ok rid next xs \<Longrightarrow> ids_ok rid (next + 1) xs"
  by (force simp: ids_ok_def)

lemma ids_ok_delete: "ids_ok rid next xs \<Longrightarrow> ids_ok rid next (AList.delete k xs)"
  by (auto simp: ids_ok_def AList.delete_eq distinct_map_filter)

lemma ids_ok_map:
  assumes "ids_ok rid next xs" "\<And>v. rid (f v) = rid v"
  shows "ids_ok rid next (map (\<lambda>(k, v). (k, f v)) xs)"
  using assms by (auto simp: ids_ok_def comp_def split_beta)

lemma rows_ok_map:
  assumes "rows_ok key xs" "\<And>v. key (f v) = key v"
  shows "rows_ok key (map (\<lambda>(k, v). (k, f v)) xs)"
  using assms by (fastforce simp: rows_ok_def comp_def split_beta)

lemma member_fields [simp]:
  "gc_name (drop_member now n g) = gc_name g" "gc_id (drop_member now n g) = gc_id g"
  "gc_members (drop_member now n g) = filter (\<lambda>m. m \<noteq> n) (gc_members g)"
  "gc_translation_script_ids (drop_member now n g) = gc_translation_script_ids g"
  "gc_name (rename_member now n n' g) = gc_name g" "gc_id (rename_member now n n' g) = gc_id g"
  "gc_members (rename_member now n n' g) = map (\<lambda>m. if m = n then n' else m) (gc_members g)"
  "gc_translation_script_ids (rename_member now n n' g) = gc_translation_script_ids g"
  "gc_name (drop_script i g) = gc_name g" "gc_id (drop_script i g) = gc_id g"
  "gc_members (drop_script i g) = gc_members g"
  by (simp_all add: drop_member_def rename_member_def drop_script_def Let_def)

lemma row_fields [simp]:
  "cc_id (cluster_row i n c t u) = i" "cc_name (cluster_row i n c t u) = n"
  "gc_id (group_row i n g t u) = i" "gc_name (group_row i n g t u) = n"
  "gc_members (group_row i n g t u) = ug_members g"
  "gc_translation_script_ids (group_row i n g t u) = ug_translation_script_ids g"
  by (simp_all add: cluster_row_def group_row_def)

lemma check_members_ok: "check_members s ms = Inr x \<Longrightarrow> set ms \<subseteq> dom (map_of (cluster_configs s))"
  by (auto simp: check_members_def find_None_iff split: option.splits)

lemma check_scripts_ok: "check_scripts s is = Inr x \<Longrightarrow> set is \<subseteq> dom (map_of (user_scripts s))"
  by (fastforce simp: check_scripts_def is_fixup_def find_None_iff split: option.splits)

lemma groups_ok_map:
  assumes "groups_ok s" "\<And>g. gc_name (f g) = gc_name g" "\<And>g. gc_id (f g) = gc_id g"
    and "\<And>g. group_refs_ok s g \<Longrightarrow> group_refs_ok s' (f g)"
    and "group_configs s' = map (\<lambda>(k, g). (k, f g)) (group_configs s)" "next_group_id s' = next_group_id s"
  shows "groups_ok s'"
  unfolding groups_ok_def assms(5,6)
  using assms(1-4) by (auto simp: groups_ok_def intro!: ids_ok_map rows_ok_map)

lemma groups_ok_frame:
  assumes "groups_ok s" "group_configs s' = group_configs s" "next_group_id s' = next_group_id s"
    and "dom (map_of (cluster_configs s)) \<subseteq> dom (map_of (cluster_configs s'))"
    and "dom (map_of (user_scripts s)) \<subseteq> dom (map_of (user_scripts s'))"
  shows "groups_ok s'"
proof -
  have "group_refs_ok s' g" if "group_refs_ok s g" for g
    using that assms(4,5) unfolding group_refs_ok_def by blast
  with assms(1-3) show ?thesis unfolding groups_ok_def by auto
qed

section \<open>Every operation keeps the invariant\<close>

lemma clusters_ok_upsert:
  assumes "clusters_ok s" shows "clusters_ok (snd (upsert_cluster_config s now name cfg))"
proof (cases "map_of (cluster_configs s) name")
  case None
  with assms show ?thesis
    by (simp add: clusters_ok_def upsert_cluster_config_def Let_def ids_ok_fresh rows_ok_update)
next
  case (Some r)
  then show ?thesis
    using assms ids_ok_replace [OF _ Some, of cc_id "next_cluster_id s" "cluster_row (cc_id r) name cfg (cc_created_at r) now"]
    by (simp add: clusters_ok_def upsert_cluster_config_def Let_def rows_ok_update)
qed

lemma config_ok_upsert_cluster [inv_intros]:
  assumes "config_ok s" shows "config_ok (snd (upsert_cluster_config s now name cfg))"
proof -
  let ?s = "snd (upsert_cluster_config s now name cfg)"
  have f: "group_configs ?s = group_configs s" "next_group_id ?s = next_group_id s"
    "user_scripts ?s = user_scripts s" "next_script_id ?s = next_script_id s"
    by (simp_all add: upsert_cluster_config_def Let_def split: option.splits)
  have d: "dom (map_of (cluster_configs s)) \<subseteq> dom (map_of (cluster_configs ?s))"
    by (cases "map_of (cluster_configs s) name")
      (auto simp: upsert_cluster_config_def Let_def update_conv')
  have ok: "clusters_ok s" "groups_ok s" "scripts_ok s" using assms by (simp_all add: config_ok_def)
  have "groups_ok ?s" by (rule groups_ok_frame [OF ok(2) f(1,2) d]) (simp add: f(3))
  moreover have "scripts_ok ?s" using ok(3) by (simp add: scripts_ok_def f(3,4))
  ultimately show ?thesis using clusters_ok_upsert [OF ok(1)] by (simp add: config_ok_def)
qed

lemma config_ok_insert_cluster [inv_intros]:
  assumes "config_ok s" shows "config_ok (snd (insert_cluster_config_if_missing s now name cfg))"
proof (cases "map_of (cluster_configs s) name")
  case None
  then have "snd (insert_cluster_config_if_missing s now name cfg) = snd (upsert_cluster_config s now name cfg)"
    by (simp add: insert_cluster_config_if_missing_def upsert_cluster_config_def Let_def)
  with config_ok_upsert_cluster [OF assms] show ?thesis by simp
next
  case (Some r)
  with assms show ?thesis by (simp add: insert_cluster_config_if_missing_def)
qed

lemma config_ok_delete_cluster [inv_intros]:
  assumes "config_ok s" shows "config_ok (snd (delete_cluster_config s now name))"
proof (cases "map_of (cluster_configs s) name = None")
  case False
  let ?s = "s\<lparr>cluster_configs := AList.delete name (cluster_configs s),
    group_configs := map (\<lambda>(k, g). (k, drop_member now name g)) (group_configs s)\<rparr>"
  have "groups_ok ?s"
  proof (rule groups_ok_map)
    show "groups_ok s" using assms by (simp add: config_ok_def)
    show "group_refs_ok ?s (drop_member now name g)" if "group_refs_ok s g" for g
      using that by (auto simp: group_refs_ok_def delete_conv')
  qed simp_all
  moreover have "clusters_ok ?s" "scripts_ok ?s"
    using assms by (simp_all add: config_ok_def clusters_ok_def scripts_ok_def ids_ok_delete rows_ok_delete)
  ultimately show ?thesis using False by (auto simp: config_ok_def delete_cluster_config_def)
qed (use assms in \<open>simp add: delete_cluster_config_def\<close>)

lemma config_ok_put_group:
  assumes "config_ok s" "set (ug_members cfg) \<subseteq> dom (map_of (cluster_configs s))"
    "set (ug_translation_script_ids cfg) \<subseteq> dom (map_of (user_scripts s))"
    and "case map_of (group_configs s) name of
           None \<Rightarrow> i = next_group_id s \<and> n = next_group_id s + 1
         | Some r \<Rightarrow> i = gc_id r \<and> n = next_group_id s"
  shows "config_ok (s\<lparr>group_configs := AList.update name (group_row i name cfg t u) (group_configs s),
    next_group_id := n\<rparr>)"
proof -
  let ?row = "group_row i name cfg t u"
  have "\<forall>(_, g) \<in> set (AList.update name ?row (group_configs s)). group_refs_ok s g"
  proof
    fix x assume "x \<in> set (AList.update name ?row (group_configs s))"
    with set_update_subset have "x = (name, ?row) \<or> x \<in> set (group_configs s)" by fast
    then show "case x of (_, g) \<Rightarrow> group_refs_ok s g"
      using assms(1-3) by (auto simp: config_ok_def groups_ok_def group_refs_ok_def)
  qed
  moreover have "ids_ok gc_id n (AList.update name ?row (group_configs s))"
  proof (cases "map_of (group_configs s) name")
    case None
    with assms(1,4) show ?thesis by (simp add: config_ok_def groups_ok_def ids_ok_fresh)
  next
    case (Some r)
    with assms(1,4) ids_ok_replace [OF _ Some, of gc_id n ?row] show ?thesis
      by (simp add: config_ok_def groups_ok_def)
  qed
  moreover have "rows_ok gc_name (AList.update name ?row (group_configs s))"
    using assms(1) by (simp add: config_ok_def groups_ok_def rows_ok_update)
  ultimately show ?thesis
    using assms(1) by (simp add: config_ok_def groups_ok_def clusters_ok_def scripts_ok_def group_refs_ok_def)
qed


lemma config_ok_next_group:
  "config_ok s \<Longrightarrow> config_ok (s\<lparr>next_group_id := next_group_id s + 1\<rparr>)"
  by (simp add: config_ok_def clusters_ok_def groups_ok_def scripts_ok_def group_refs_ok_def ids_ok_skip)

lemma next_group_swap [simp]:
  "s\<lparr>next_group_id := n, group_configs := x\<rparr> = s\<lparr>group_configs := x, next_group_id := n\<rparr>"
  by (cases s) simp

lemma check_scripts_next_group [simp]:
  "check_scripts (s\<lparr>next_group_id := n\<rparr>) is = check_scripts s is"
  by (simp add: check_scripts_def is_fixup_def)

lemma config_ok_upsert_group [inv_intros]:
  assumes ok: "config_ok s" shows "config_ok (snd (upsert_group_config parse s now name cfg))"
proof (cases "validate_circuit_breaker parse cfg")
  case valid: (Inr u)
  show ?thesis
  proof (cases "check_members s (ug_members cfg)")
    case members: (Inr u')
    note m = check_members_ok [OF members]
    let ?sids = "ug_translation_script_ids cfg"
    show ?thesis
    proof (cases "map_of (group_configs s) name")
      case None
      then show ?thesis
      proof (cases "check_scripts s ?sids")
        case (Inr u'')
        with None members show ?thesis
          using config_ok_put_group [OF ok m check_scripts_ok [OF Inr], where name = name and i = "next_group_id s" and n = "next_group_id s + 1" and t = now and u = now]
          by (simp add: upsert_group_config_def Let_def valid)
      qed (use None members ok valid in
          \<open>simp add: upsert_group_config_def Let_def config_ok_next_group\<close>)
    next
      case (Some r)
      then show ?thesis
      proof (cases "check_scripts s ?sids")
        case (Inr u'')
        with Some members show ?thesis
          using config_ok_put_group [OF ok m check_scripts_ok [OF Inr], where name = name and i = "gc_id r" and n = "next_group_id s" and t = "gc_created_at r" and u = now]
          by (simp add: upsert_group_config_def Let_def valid)
      qed (use Some members ok valid in
          \<open>simp add: upsert_group_config_def Let_def\<close>)
    qed
  qed (use ok valid in \<open>simp add: upsert_group_config_def\<close>)
qed (use ok in \<open>simp add: upsert_group_config_def\<close>)

lemma config_ok_insert_group [inv_intros]:
  assumes ok: "config_ok s" shows "config_ok (snd (insert_group_config_if_missing parse s now name cfg))"
proof (cases "map_of (group_configs s) name")
  case None
  show ?thesis
  proof (cases "check_members s (ug_members cfg)")
    case members: (Inr u)
    show ?thesis
    proof (cases "check_scripts s (ug_translation_script_ids cfg)")
      case scripts: (Inr u')
      show ?thesis
        using None ok members scripts
          config_ok_put_group [OF ok check_members_ok [OF members] check_scripts_ok [OF scripts],
            where name = name and i = "next_group_id s" and n = "next_group_id s + 1" and t = now and u = now]
        by (simp add: insert_group_config_if_missing_def split: sum.splits)
    qed (use ok None members in \<open>simp add: insert_group_config_if_missing_def split: sum.splits\<close>)
  qed (use ok None in \<open>simp add: insert_group_config_if_missing_def split: sum.splits\<close>)
qed (use ok in \<open>simp add: insert_group_config_if_missing_def split: sum.splits\<close>)

lemma config_ok_delete_group [inv_intros]:
  assumes "config_ok s" shows "config_ok (snd (delete_group_config s name))"
proof -
  have "\<forall>(_, g) \<in> set (AList.delete name (group_configs s)). group_refs_ok s g"
    using assms by (auto simp: config_ok_def groups_ok_def AList.delete_eq)
  then show ?thesis
    using assms by (simp add: delete_group_config_def config_ok_def groups_ok_def clusters_ok_def scripts_ok_def
        group_refs_ok_def ids_ok_delete rows_ok_delete)
qed

lemma map_of_delete_None [simp]: "map_of (AList.delete k xs) k = None"
  by (simp add: delete_conv')

lemma ids_ok_rename:
  assumes "ids_ok rid next xs" "map_of xs k = Some r" "map_of xs k' = None" "rid v = rid r" "distinct (map fst xs)"
  shows "ids_ok rid next (AList.update k' v (AList.delete k xs))"
proof -
  have n: "map_of (AList.delete k xs) k' = None" using assms(3) by (simp add: delete_conv')
  have r: "(k, r) \<in> set xs" using map_of_SomeD [OF assms(2)] .
  have "rid r \<notin> (rid \<circ> snd) ` set (AList.delete k xs)"
  proof
    assume "rid r \<in> (rid \<circ> snd) ` set (AList.delete k xs)"
    then obtain j w where w: "(j, w) \<in> set xs" "j \<noteq> k" "rid w = rid r" by (auto simp: AList.delete_eq)
    with r assms(1) have "(j, w) = (k, r)"
      unfolding ids_ok_def distinct_map by (metis comp_apply inj_onD snd_conv)
    with w(2) show False by simp
  qed
  with ids_ok_delete [OF assms(1), of k] assms(1,4) r show ?thesis
    by (force simp: update_new [OF n] ids_ok_def)
qed

lemma config_ok_rename_cluster [inv_intros]:
  assumes ok: "config_ok s" shows "config_ok (snd (rename_cluster_config s now old0 new0))"
proof -
  define old new where "old = trim old0" and "new = trim new0"
  consider "snd (rename_cluster_config s now old0 new0) = s"
    | r where "old \<noteq> new" "map_of (cluster_configs s) new = None" "map_of (cluster_configs s) old = Some r"
      "snd (rename_cluster_config s now old0 new0) =
        s\<lparr>cluster_configs := AList.update new (r\<lparr>cc_name := new, cc_updated_at := now\<rparr>)
            (AList.delete old (cluster_configs s)),
          group_configs := map (\<lambda>(k, g). (k, rename_member now old new g)) (group_configs s)\<rparr>"
    by (cases "new = []"; cases "old = new"; cases "map_of (cluster_configs s) new";
        cases "map_of (cluster_configs s) old")
      (auto simp: rename_cluster_config_def Let_def simp flip: old_def new_def)
  then show ?thesis
  proof cases
    case 1
    with ok show ?thesis by simp
  next
    case (2 r)
    let ?s = "snd (rename_cluster_config s now old0 new0)"
    have "clusters_ok ?s"
      using ok ids_ok_rename [OF _ 2(3,2), of cc_id "next_cluster_id s" "r\<lparr>cc_name := new, cc_updated_at := now\<rparr>"]
      by (simp add: 2(4) config_ok_def clusters_ok_def rows_ok_update rows_ok_delete)
        (simp add: rows_ok_def)
    moreover have "groups_ok ?s"
    proof (rule groups_ok_map)
      show "groups_ok s" using ok by (simp add: config_ok_def)
      show "group_refs_ok ?s (rename_member now old new g)" if "group_refs_ok s g" for g
        using that by (auto simp: group_refs_ok_def 2(4) update_conv' delete_conv')
    qed (simp_all add: 2(4))
    moreover have "scripts_ok ?s" using ok by (simp add: 2(4) config_ok_def scripts_ok_def)
    ultimately show ?thesis by (simp add: config_ok_def)
  qed
qed

lemma groups_okD: "groups_ok s \<Longrightarrow> (k, g) \<in> set (group_configs s) \<Longrightarrow> group_refs_ok s g"
  by (auto simp: groups_ok_def)

lemma config_ok_rename_group [inv_intros]:
  assumes ok: "config_ok s" shows "config_ok (snd (rename_group_config s now old0 new0))"
proof -
  define old new where "old = trim old0" and "new = trim new0"
  consider "snd (rename_group_config s now old0 new0) = s"
    | r where "map_of (group_configs s) new = None" "map_of (group_configs s) old = Some r"
      "snd (rename_group_config s now old0 new0) =
        s\<lparr>group_configs := AList.update new (r\<lparr>gc_name := new, gc_updated_at := now\<rparr>)
            (AList.delete old (group_configs s))\<rparr>"
    by (cases "new = []"; cases "old = new"; cases "map_of (group_configs s) new";
        cases "map_of (group_configs s) old")
      (auto simp: rename_group_config_def Let_def simp flip: old_def new_def)
  then show ?thesis
  proof cases
    case 1
    with ok show ?thesis by simp
  next
    case (2 r)
    let ?row = "r\<lparr>gc_name := new, gc_updated_at := now\<rparr>"
    let ?gs = "AList.update new ?row (AList.delete old (group_configs s))"
    have g: "groups_ok s" using ok by (simp add: config_ok_def)
    have row: "group_refs_ok s ?row"
      using groups_okD [OF g map_of_SomeD [OF 2(2)]] by (simp add: group_refs_ok_def)
    have "\<forall>(_, g) \<in> set ?gs. group_refs_ok s g"
    proof
      fix x assume "x \<in> set ?gs"
      with set_update_subset have "x = (new, ?row) \<or> x \<in> set (AList.delete old (group_configs s))" by fast
      then show "case x of (_, g) \<Rightarrow> group_refs_ok s g"
        using groups_okD [OF g] row by (auto simp: AList.delete_eq)
    qed
    moreover have "ids_ok gc_id (next_group_id s) ?gs"
      using g ids_ok_rename [OF _ 2(2,1), of gc_id "next_group_id s" ?row] by (simp add: groups_ok_def rows_ok_def)
    moreover have "rows_ok gc_name ?gs" using g by (simp add: groups_ok_def rows_ok_update rows_ok_delete)
    ultimately show ?thesis
      using ok by (simp add: 2(3) config_ok_def groups_ok_def clusters_ok_def scripts_ok_def group_refs_ok_def)
  qed
qed


lemma config_ok_scripts:
  assumes ok: "config_ok s" and sc: "scripts_ok s'"
    and f: "cluster_configs s' = cluster_configs s" "next_cluster_id s' = next_cluster_id s"
      "group_configs s' = group_configs s" "next_group_id s' = next_group_id s"
    and d: "dom (map_of (user_scripts s)) \<subseteq> dom (map_of (user_scripts s'))"
  shows "config_ok s'"
proof -
  have "groups_ok s'" by (rule groups_ok_frame [of s]) (use ok f d in \<open>simp_all add: config_ok_def\<close>)
  moreover have "clusters_ok s'" using ok f by (simp add: config_ok_def clusters_ok_def)
  ultimately show ?thesis using sc by (simp add: config_ok_def)
qed

lemma script_ids_fresh: "scripts_ok s \<Longrightarrow> map_of (user_scripts s) (next_script_id s) = None"
  by (fastforce simp: scripts_ok_def ids_ok_def rows_ok_def map_of_eq_None_iff)

lemma config_ok_create_script [inv_intros]:
  assumes ok: "config_ok s" shows "config_ok (snd (create_user_script s now body))"
proof (cases "is_valid_script_kind (up_kind body) \<and> \<not> list_ex (\<lambda>(_, r). us_name r = up_name body) (user_scripts s)")
  case True
  define row where "row = \<lparr>us_id = next_script_id s, us_name = up_name body, us_description = up_description body,
    us_kind = up_kind body, us_body = up_body body, us_created_at = now, us_updated_at = now\<rparr>"
  define s' where "s' = s\<lparr>user_scripts := AList.update (next_script_id s) row (user_scripts s),
    next_script_id := next_script_id s + 1\<rparr>"
  have sc: "scripts_ok s" using ok by (simp add: config_ok_def)
  note new = update_new [OF script_ids_fresh [OF sc]]
  have "scripts_ok s'"
    using sc True ids_ok_fresh [OF _ script_ids_fresh [OF sc], of us_id "next_script_id s" row]
      rows_ok_update [of us_id "user_scripts s" row "next_script_id s"]
    by (auto simp: scripts_ok_def s'_def row_def new list_ex_iff)
  then have "config_ok s'"
    by (rule config_ok_scripts [OF ok]) (auto simp: s'_def update_conv')
  then show ?thesis using True by (simp add: create_user_script_def Let_def s'_def row_def)
qed (use ok in \<open>auto simp: create_user_script_def\<close>)

lemma distinct_names_update:
  assumes "distinct (map (f \<circ> snd) xs)" "map_of xs k = Some r" "\<forall>(j, w) \<in> set xs. j \<noteq> k \<longrightarrow> f w \<noteq> f v"
    "distinct (map fst xs)"
  shows "distinct (map (f \<circ> snd) (AList.update k v xs))"
  using assms
proof (induction xs)
  case (Cons x xs)
  show ?case
  proof (cases "fst x = k")
    case True
    then have "k \<notin> fst ` set xs" using Cons.prems(4) by auto
    with Cons.prems True show ?thesis by (cases x) force
  next
    case False
    have "f (snd x) \<notin> (f \<circ> snd) ` set (AList.update k v xs)"
      using set_update_subset [of k v xs] Cons.prems False by (cases x) force
    with Cons False show ?thesis by (cases x) auto
  qed
qed simp

lemma config_ok_update_script [inv_intros]:
  assumes ok: "config_ok s" shows "config_ok (snd (update_user_script s now i body))"
proof (cases "is_valid_script_kind (up_kind body)
    \<and> \<not> list_ex (\<lambda>(k, r). k \<noteq> i \<and> us_name r = up_name body) (user_scripts s)")
  case True
  show ?thesis
  proof (cases "map_of (user_scripts s) i")
    case None
    with ok True show ?thesis by (simp add: update_user_script_def)
  next
    case (Some r)
    define row where "row = r\<lparr>us_name := up_name body, us_description := up_description body,
      us_kind := up_kind body, us_body := up_body body, us_updated_at := now\<rparr>"
    define s' where "s' = s\<lparr>user_scripts := AList.update i row (user_scripts s)\<rparr>"
    have sc: "scripts_ok s" using ok by (simp add: config_ok_def)
    have i: "us_id row = i" using rows_ok_lookup [of us_id "user_scripts s" i r] sc Some
      by (simp add: scripts_ok_def row_def)
    have "distinct (map (us_name \<circ> snd) (AList.update i row (user_scripts s)))"
      using sc Some True by (intro distinct_names_update) (auto simp: scripts_ok_def rows_ok_def row_def list_ex_iff)
    moreover have "\<forall>(_, r) \<in> set (AList.update i row (user_scripts s)). is_valid_script_kind (us_kind r)"
    proof
      fix x assume "x \<in> set (AList.update i row (user_scripts s))"
      with set_update_subset have "x = (i, row) \<or> x \<in> set (user_scripts s)" by fast
      then show "case x of (_, r) \<Rightarrow> is_valid_script_kind (us_kind r)"
        using sc True by (auto simp: scripts_ok_def row_def)
    qed
    moreover have "ids_ok us_id (next_script_id s) (AList.update i row (user_scripts s))"
      using sc by (intro ids_ok_replace [OF _ Some]) (simp_all add: scripts_ok_def row_def)
    moreover have "rows_ok us_id (AList.update i row (user_scripts s))"
      using sc i by (simp add: scripts_ok_def rows_ok_update)
    ultimately have "scripts_ok s'" by (simp add: scripts_ok_def s'_def)
    then have "config_ok s'"
      by (rule config_ok_scripts [OF ok]) (auto simp: s'_def update_conv')
    then show ?thesis using True Some by (simp add: update_user_script_def Let_def s'_def row_def)
  qed
qed (use ok in \<open>auto simp: update_user_script_def\<close>)

lemma config_ok_delete_script [inv_intros]:
  assumes ok: "config_ok s" shows "config_ok (snd (delete_user_script s i))"
proof -
  let ?s = "snd (delete_user_script s i)"
  have "groups_ok ?s"
  proof (rule groups_ok_map)
    show "groups_ok s" using ok by (simp add: config_ok_def)
    show "group_refs_ok ?s (drop_script i g)" if "group_refs_ok s g" for g
      using that by (auto simp: group_refs_ok_def delete_user_script_def drop_script_def delete_conv')
  qed (simp_all add: delete_user_script_def)
  moreover have "scripts_ok ?s"
    using ok ids_ok_delete [of us_id "next_script_id s" "user_scripts s" i]
    by (auto simp: config_ok_def scripts_ok_def delete_user_script_def AList.delete_eq
        distinct_map_filter rows_ok_filter)
  moreover have "clusters_ok ?s" using ok by (simp add: config_ok_def clusters_ok_def delete_user_script_def)
  ultimately show ?thesis by (simp add: config_ok_def)
qed

section \<open>Histories of the configuration\<close>

inductive config_reachable :: "parse_cb \<Rightarrow> InMemory \<Rightarrow> bool" for parse where
  initial: "config_reachable parse InMemory_default"
| upsert_cluster: "config_reachable parse s \<Longrightarrow> config_reachable parse (snd (upsert_cluster_config s now name cfg))"
| seed_cluster: "config_reachable parse s \<Longrightarrow>
    config_reachable parse (snd (insert_cluster_config_if_missing s now name cfg))"
| delete_cluster: "config_reachable parse s \<Longrightarrow> config_reachable parse (snd (delete_cluster_config s now name))"
| rename_cluster: "config_reachable parse s \<Longrightarrow> config_reachable parse (snd (rename_cluster_config s now old new))"
| upsert_group: "config_reachable parse s \<Longrightarrow>
    config_reachable parse (snd (upsert_group_config parse s now name gcfg))"
| seed_group: "config_reachable parse s \<Longrightarrow>
    config_reachable parse (snd (insert_group_config_if_missing parse s now name gcfg))"
| delete_group: "config_reachable parse s \<Longrightarrow> config_reachable parse (snd (delete_group_config s name))"
| rename_group: "config_reachable parse s \<Longrightarrow> config_reachable parse (snd (rename_group_config s now old new))"
| create_script: "config_reachable parse s \<Longrightarrow> config_reachable parse (snd (create_user_script s now body))"
| update_script: "config_reachable parse s \<Longrightarrow> config_reachable parse (snd (update_user_script s now i body))"
| delete_script: "config_reachable parse s \<Longrightarrow> config_reachable parse (snd (delete_user_script s i))"

text \<open>
  Claim C13. Referential integrity of the configuration. After any history of cluster, group and
  script operations, failed ones included: every member of every group is a stored cluster and
  every translation script a group names is a stored script, each row is stored under its own
  name (or id), ids are never shared between rows, script names are unique and script kinds
  are known.
\<close>

theorem config_integrity:
  assumes "config_reachable parse s"
  shows "(\<forall>(_, g) \<in> set (group_configs s).
        (\<forall>m \<in> set (gc_members g). map_of (cluster_configs s) m \<noteq> None)
      \<and> (\<forall>i \<in> set (gc_translation_script_ids g). map_of (user_scripts s) i \<noteq> None))
    \<and> (\<forall>(k, c) \<in> set (cluster_configs s). cc_name c = k) \<and> (\<forall>(k, g) \<in> set (group_configs s). gc_name g = k)
    \<and> distinct (map fst (cluster_configs s)) \<and> distinct (map fst (group_configs s))
    \<and> distinct (map (cc_id \<circ> snd) (cluster_configs s)) \<and> distinct (map (gc_id \<circ> snd) (group_configs s))
    \<and> distinct (map (us_id \<circ> snd) (user_scripts s)) \<and> distinct (map (us_name \<circ> snd) (user_scripts s))
    \<and> (\<forall>(_, r) \<in> set (user_scripts s). is_valid_script_kind (us_kind r))"
proof -
  have "config_ok s"
    using assms
    by (induction rule: config_reachable.induct)
      (simp add: config_ok_def clusters_ok_def groups_ok_def scripts_ok_def InMemory_default_def,
        (rule inv_intros, assumption)+)
  then show ?thesis
    unfolding config_ok_def clusters_ok_def groups_ok_def scripts_ok_def rows_ok_def ids_ok_def group_refs_ok_def
    by (auto simp: subset_iff dom_def)
qed

section \<open>Renaming a cluster\<close>

text \<open>
  Renaming a cluster on every branch (names are trimmed). A rejected rename changes
  nothing. An accepted one moves the row, id and settings kept, from the old to the new name,
  leaves every other cluster alone, and rewrites the name in the member list of every group,
  in place, so no group loses or gains a member.
\<close>

theorem rename_cluster_follows:
  "let o' = trim old; n = trim new in
   case rename_cluster_config s now old new of
     (Inl e, s') \<Rightarrow> s' = s
   | (Inr row, s') \<Rightarrow>
       (\<exists>r. get_cluster_config s o' = Some r \<and> cc_id row = cc_id r \<and> cc_config row = cc_config r
          \<and> cc_enabled row = cc_enabled r \<and> cc_created_at row = cc_created_at r)
       \<and> get_cluster_config s' n = Some row
       \<and> (o' \<noteq> n \<longrightarrow> get_cluster_config s' o' = None)
       \<and> (\<forall>c. c \<noteq> o' \<longrightarrow> c \<noteq> n \<longrightarrow> get_cluster_config s' c = get_cluster_config s c)
       \<and> map fst (group_configs s') = map fst (group_configs s)
       \<and> map (gc_members \<circ> snd) (group_configs s') =
           map (map (\<lambda>m. if m = o' then n else m) \<circ> gc_members \<circ> snd) (group_configs s)"
proof -
  define o' n where "o' = trim old" and "n = trim new"
  have same: "map (\<lambda>m. if m = n then n else m) xs = xs" for xs :: "string list"
    by (induction xs) auto
  show ?thesis
    by (cases "n = []"; cases "o' = n"; cases "map_of (cluster_configs s) n"; cases "map_of (cluster_configs s) o'")
      (auto simp: rename_cluster_config_def get_cluster_config_def Let_def update_conv' delete_conv' same
        comp_def split_beta simp flip: o'_def n_def)
qed

section \<open>Witnesses\<close>

definition example_upsert :: UpsertClusterConfig where
  "example_upsert = \<lparr>uc_engine_key = ''trino'', uc_enabled = True, uc_max_running_queries = None,
     uc_config = ''{}'', uc_variants = ''[]''\<rparr>"

definition example_group_upsert :: "string list \<Rightarrow> UpsertClusterGroupConfig" where
  "example_group_upsert ms = \<lparr>ug_enabled = True, ug_members = ms, ug_max_running_queries = 10,
     ug_max_queued_queries = None, ug_strategy = None, ug_circuit_breaker = None, ug_allow_groups = [],
     ug_allow_users = [], ug_translation_script_ids = [], ug_default_tags = ''{}'', ug_cache = None\<rparr>"

definition no_breaker :: parse_cb where
  "no_breaker = (\<lambda>_. Inl ''unreadable'')"

definition example_config_store :: InMemory where
  "example_config_store =
     snd (upsert_group_config no_breaker
       (snd (upsert_cluster_config InMemory_default 1 ''c1'' example_upsert)) 2 ''g'' (example_group_upsert [''c1'']))"

lemmas config_eval = example_config_store_def upsert_group_config_def upsert_cluster_config_def InMemory_default_def
  example_upsert_def example_group_upsert_def validate_circuit_breaker_def check_members_def check_scripts_def
  cluster_row_def group_row_def Let_def

lemma example_config_reachable: "config_reachable no_breaker example_config_store"
  unfolding example_config_store_def by (intro config_reachable.intros)

theorem config_integrity_witness:
  "map (gc_members \<circ> snd) (group_configs example_config_store) = [[''c1'']]
   \<and> map_of (cluster_configs example_config_store) ''c1'' \<noteq> None"
proof
  show g: "map (gc_members \<circ> snd) (group_configs example_config_store) = [[''c1'']]"
    by (simp add: config_eval)
  then obtain k r where r: "group_configs example_config_store = [(k, r)]" "gc_members r = [''c1'']"
    by (auto simp: map_eq_Cons_conv)
  then show "map_of (cluster_configs example_config_store) ''c1'' \<noteq> None"
    using config_integrity [OF example_config_reachable] by auto
qed

theorem rename_cluster_follows_witness:
  "map (gc_members \<circ> snd) (group_configs (snd (rename_cluster_config example_config_store 3 ''c1'' '' c2 '')))
     = [[''c2'']]"
proof -
  have t: "trim ''c1'' = ''c1''" "trim '' c2 '' = ''c2''" by code_simp+
  have g: "map (gc_members \<circ> snd) (group_configs example_config_store) = [[''c1'']]"
    by (simp add: config_eval)
  obtain row s' where r: "rename_cluster_config example_config_store 3 ''c1'' '' c2 '' = (Inr row, s')"
    by (auto simp: rename_cluster_config_def t config_eval)
  from rename_cluster_follows [of "''c1''" "'' c2 ''" example_config_store 3] r g
  show ?thesis by (simp add: t Let_def flip: map_map)
qed

end
