(* ===== verification/Quota.thy ===== *)
theory Quota
  imports QF_Prelude "HOL-Library.List_Lexorder" "HOL-Library.Product_Lexorder" "HOL-Library.Char_ord"
begin

text \<open>
  The quota allocator: \<open>crates/queryflux-persistence/src/quota.rs\<close>. A \<open>u64\<close> is a natural number;
  sums that can exceed 64 bits are written with the wrap-around of the release build, saturating
  operations with their cap, and the theorems show that the others stay in range.
  The reserve is computed in floating point from the policy's fraction; it enters as the number
  \<open>reserve\<close>, and every theorem holds for each value it may take.
\<close>

abbreviation u64_max :: nat where
  "u64_max \<equiv> 2 ^ 64 - 1"

section \<open>Data\<close>

record DemandReport =
  dr_cluster :: string
  dr_running :: nat
  dr_waiting :: nat
  dr_seen_seq :: nat
  dr_max_running_queries :: nat

record QuotaGrant =
  qg_cluster :: string
  qg_quota :: nat
  qg_seq :: nat

record QuotaResponse =
  qr_grants :: "QuotaGrant list"
  qr_lease_secs :: nat
  qr_report_interval_ms :: nat

record AllocatorPolicy =
  lease_secs :: nat
  margin_secs :: nat

record HolderState =
  h_instance_id :: string
  h_running :: nat
  h_waiting :: nat
  h_granted :: nat
  h_ceiling :: nat
  h_silent_secs :: nat

record Allocation =
  al_instance_id :: string
  al_granted :: nat
  al_ceiling :: nat

record ClusterAllocation =
  ca_changed :: "Allocation list"
  ca_quota_committed :: nat
  ca_quota_wanted :: nat

definition h_active :: "AllocatorPolicy \<Rightarrow> HolderState \<Rightarrow> bool" where
  "h_active policy h \<longleftrightarrow> h_silent_secs h < (lease_secs policy + margin_secs policy) mod 2 ^ 64"

definition h_commit :: "AllocatorPolicy \<Rightarrow> HolderState \<Rightarrow> nat" where
  "h_commit policy h = (if h_active policy h then max (h_ceiling h) (h_running h) else h_running h)"

section \<open>Max-min fair division\<close>

text \<open>One round over the open holders; the state is the shares, what is left, and who stays open.\<close>

definition fair_step :: "nat list \<Rightarrow> nat \<Rightarrow> nat \<Rightarrow> nat list \<times> nat \<times> nat list \<Rightarrow> nat list \<times> nat \<times> nat list" where
  "fair_step demand share i st =
     (case st of (out, left, still) \<Rightarrow>
      if left = 0 then (out, left, still @ [i])
      else
        let give = min (min (demand ! i - out ! i) share) left;
            out' = out[i := out ! i + give]
        in (out', left - give, if out' ! i < demand ! i then still @ [i] else still))"

definition fair_pass :: "nat list \<Rightarrow> nat \<Rightarrow> nat list \<Rightarrow> nat list \<times> nat \<times> nat list \<Rightarrow> nat list \<times> nat \<times> nat list" where
  "fair_pass demand share opened st = fold (fair_step demand share) opened st"

lemma fair_step_bound:
  "fair_step demand share i (out, left, still) = (out', left', still') \<Longrightarrow>
     left' \<le> left \<and> length still' \<le> Suc (length still)
     \<and> (left > 0 \<longrightarrow> share > 0 \<longrightarrow> left' < left \<or> length still' \<le> length still)"
  by (cases "i < length out") (auto simp: fair_step_def Let_def not_less list_update_beyond split: if_splits)

lemma fair_pass_bound:
  "fair_pass demand share is (out, left, still) = (out', left', still') \<Longrightarrow>
     left' \<le> left \<and> length still' \<le> length still + length is"
proof (induction "is" arbitrary: out left still)
  case (Cons i "is")
  obtain out1 left1 still1 where s: "fair_step demand share i (out, left, still) = (out1, left1, still1)"
    by (metis prod.exhaust)
  with Cons.prems have "fair_pass demand share is (out1, left1, still1) = (out', left', still')"
    by (simp add: fair_pass_def)
  from Cons.IH [OF this] fair_step_bound [OF s] show ?case by auto
qed (simp add: fair_pass_def)

lemma fair_pass_progress:
  assumes "fair_pass demand share opened (out, left, []) = (out', left', still')"
    "left > 0" "share > 0" "opened \<noteq> []"
  shows "left' + length still' < left + length opened"
proof -
  obtain i "is" where o: "opened = i # is" using assms(4) by (cases opened) auto
  obtain out1 left1 still1 where s: "fair_step demand share i (out, left, []) = (out1, left1, still1)"
    by (metis prod.exhaust)
  with assms(1) have "fair_pass demand share is (out1, left1, still1) = (out', left', still')"
    by (simp add: fair_pass_def o)
  from fair_pass_bound [OF this] fair_step_bound [OF s] assms(2,3) show ?thesis by (auto simp: o)
qed

function fair_loop :: "nat list \<Rightarrow> nat list \<Rightarrow> nat \<Rightarrow> nat list \<Rightarrow> nat list" where
  "fair_loop demand out left opened =
     (if left > 0 \<and> opened \<noteq> [] then
        let share = max (left div length opened) 1 in
        case fair_pass demand share opened (out, left, []) of
          (out', left', still) \<Rightarrow>
            if length still = length opened \<and> share = 1 \<and> left' = 0 then out'
            else fair_loop demand out' left' still
      else out)"
  by pat_completeness auto
termination
  apply (relation "measure (\<lambda>(demand, out, left, opened). left + length opened)")
   apply simp
  apply clarify
  subgoal premises prems for demand out left opened x xa a b
    using fair_pass_progress [OF prems(1) [symmetric] prems(3) _ prems(4)] by simp
  done
declare fair_loop.simps [simp del]

definition max_min_fair :: "nat \<Rightarrow> nat list \<Rightarrow> nat list" where
  "max_min_fair capacity demand =
     fair_loop demand (replicate (length demand) 0) capacity
       (filter (\<lambda>i. demand ! i > 0) [0..<length demand])"

section \<open>Headroom\<close>

definition headroom_step :: "nat list \<Rightarrow> nat \<Rightarrow> nat list \<times> nat \<times> bool \<Rightarrow> nat list \<times> nat \<times> bool" where
  "headroom_step want k st =
     (case st of (extra, left, gave) \<Rightarrow>
      if left > 0 \<and> extra ! k < want ! k then (extra[k := extra ! k + 1], left - 1, True)
      else (extra, left, gave))"

definition headroom_pass :: "nat list \<Rightarrow> nat list \<Rightarrow> nat list \<times> nat \<times> bool \<Rightarrow> nat list \<times> nat \<times> bool" where
  "headroom_pass want ks st = fold (headroom_step want) ks st"

lemma headroom_pass_left:
  "headroom_pass want ks (extra, left, gave) = (extra', left', gave') \<Longrightarrow>
     left' \<le> left \<and> (gave' \<longrightarrow> gave \<or> left' < left)"
proof (induction ks arbitrary: extra left gave)
  case (Cons k ks)
  obtain e1 l1 g1 where s: "headroom_step want k (extra, left, gave) = (e1, l1, g1)" by (metis prod.exhaust)
  with Cons.prems have "headroom_pass want ks (e1, l1, g1) = (extra', left', gave')"
    by (simp add: headroom_pass_def)
  from Cons.IH [OF this] s show ?case by (auto simp: headroom_step_def split: if_splits)
qed (simp add: headroom_pass_def)

function headroom_loop :: "nat list \<Rightarrow> nat \<Rightarrow> nat list \<Rightarrow> nat list" where
  "headroom_loop want left extra =
     (if left > 0 then
        case headroom_pass want [0..<length extra] (extra, left, False) of
          (extra', left', gave) \<Rightarrow> if gave then headroom_loop want left' extra' else extra'
      else extra)"
  by pat_completeness auto
termination
  by (relation "measure (\<lambda>(want, left, extra). left)") (auto dest: sym [THEN headroom_pass_left])

declare headroom_loop.simps [simp del]

section \<open>Allocation\<close>

definition allocation_targets :: "nat \<Rightarrow> nat \<Rightarrow> AllocatorPolicy \<Rightarrow> HolderState list \<Rightarrow> nat list" where
  "allocation_targets mx reserve policy holders =
     (let active = filter (\<lambda>i. h_active policy (holders ! i)) [0..<length holders];
          zeros = replicate (length holders) 0
      in if active \<noteq> [] \<and> mx \<ge> 2 * length active then
           let assignable = mx - reserve;
               demand = map (\<lambda>i. min u64_max (h_running (holders ! i) + h_waiting (holders ! i))) active;
               fair = max_min_fair assignable demand;
               left = assignable - sum_list fair;
               want = map (\<lambda>d. max (d div 4) 1) demand;
               extra = headroom_loop want left (replicate (length active) 0)
           in foldl (\<lambda>target (k, i). target[i := fair ! k + extra ! k]) zeros (List.enumerate 0 active)
         else zeros)"

definition commit_of :: "AllocatorPolicy \<Rightarrow> HolderState list \<Rightarrow> nat list \<Rightarrow> nat \<Rightarrow> nat" where
  "commit_of policy holders ceil i =
     (let h = holders ! i in if h_active policy h then max (ceil ! i) (h_running h) else h_running h)"

definition commit_sum :: "AllocatorPolicy \<Rightarrow> HolderState list \<Rightarrow> nat list \<Rightarrow> nat" where
  "commit_sum policy holders ceil = sum_list (map (commit_of policy holders ceil) [0..<length holders])"

definition decrease_step ::
  "AllocatorPolicy \<Rightarrow> HolderState list \<Rightarrow> nat list \<Rightarrow> nat \<Rightarrow> nat list \<times> nat list \<Rightarrow> nat list \<times> nat list" where
  "decrease_step policy holders target i st =
     (case st of (granted, ceil) \<Rightarrow>
      let granted' = (if target ! i < granted ! i then granted[i := target ! i] else granted) in
      if \<not> h_active policy (holders ! i) then (granted'[i := 0], ceil[i := 0]) else (granted', ceil))"

definition increase_step ::
  "AllocatorPolicy \<Rightarrow> HolderState list \<Rightarrow> nat list \<Rightarrow> nat \<Rightarrow> nat list \<times> nat list \<times> nat \<Rightarrow> nat list \<times> nat list \<times> nat" where
  "increase_step policy holders target i st =
     (case st of (granted, ceil, free) \<Rightarrow>
      let current = commit_of policy holders ceil i;
          give = min (target ! i - current) free;
          g = max (min (current + give) (target ! i)) (granted ! i)
      in (granted[i := g], ceil[i := max (ceil ! i) g], free - give))"

definition allocate_vectors ::
  "nat \<Rightarrow> nat \<Rightarrow> nat \<Rightarrow> HolderState list \<Rightarrow> AllocatorPolicy \<Rightarrow> nat list \<times> nat list \<times> nat list" where
  "allocate_vectors mx reserve leased holders policy =
     (let n = length holders;
          capacity = mx - leased;
          target = allocation_targets mx reserve policy holders
      in case fold (decrease_step policy holders target) [0..<n] (map h_granted holders, map h_ceiling holders) of
           (granted, ceil) \<Rightarrow>
             let committed = commit_sum policy holders ceil mod 2 ^ 64;
                 free = capacity - committed;
                 growing = sort_key (\<lambda>i. (granted ! i, h_instance_id (holders ! i)))
                             (filter (\<lambda>i. target ! i > granted ! i) [0..<n])
             in case fold (increase_step policy holders target) growing (granted, ceil, free) of
                  (granted', ceil', _) \<Rightarrow> (target, granted', ceil'))"

definition allocate :: "nat \<Rightarrow> nat \<Rightarrow> nat \<Rightarrow> HolderState list \<Rightarrow> AllocatorPolicy \<Rightarrow> ClusterAllocation" where
  "allocate mx reserve leased holders policy =
     (case allocate_vectors mx reserve leased holders policy of
        (target, granted, ceil) \<Rightarrow>
          let n = length holders;
              changed = map (\<lambda>i. \<lparr>al_instance_id = h_instance_id (holders ! i),
                                  al_granted = granted ! i, al_ceiling = ceil ! i\<rparr>)
                         (filter (\<lambda>i. granted ! i \<noteq> h_granted (holders ! i)
                                     \<or> ceil ! i \<noteq> h_ceiling (holders ! i)) [0..<n]);
              quota_committed = commit_sum policy holders ceil mod 2 ^ 64;
              deficit = sum_list (map (\<lambda>i. target ! i - granted ! i) [0..<n]) mod 2 ^ 64
          in \<lparr>ca_changed = changed, ca_quota_committed = quota_committed,
              ca_quota_wanted = min deficit (mx - reserve - quota_committed)\<rparr>)"

section \<open>Fair division is fair\<close>

lemma sum_list_update_add:
  "i < length xs \<Longrightarrow> sum_list (xs[i := xs ! i + d]) = sum_list xs + d" for xs :: "nat list"
  by (induction xs arbitrary: i) (auto split: nat.splits)

lemma fair_step_open:
  assumes "fair_step demand share i (out, left, still) = (out1, left1, still1)"
    and i: "i < length out" "out ! i < demand ! i" and share: "share > 0"
  shows "length out1 = length out" "sum_list out1 + left1 = sum_list out + left"
    and "j \<noteq> i \<Longrightarrow> out1 ! j = out ! j"
    and "out ! i \<le> out1 ! i" "out1 ! i \<le> demand ! i" "out1 ! i \<le> out ! i + share"
    and "still1 = still @ filter (\<lambda>i. out1 ! i < demand ! i) [i]"
    and "share \<le> left \<Longrightarrow> out1 ! i = min (demand ! i) (out ! i + share) \<and> left \<le> left1 + share"
    and "share = 1 \<Longrightarrow> left1 = left - 1"
proof -
  define give where "give = (if left = 0 then 0 else min (min (demand ! i - out ! i) share) left)"
  have eq: "out1 = out[i := out ! i + give]" "left1 = left - give"
    "still1 = still @ filter (\<lambda>i. out1 ! i < demand ! i) [i]"
    using assms by (auto simp: fair_step_def give_def Let_def split: if_splits)
  have give: "give \<le> left" "give \<le> share" "out ! i + give \<le> demand ! i"
    using i by (auto simp: give_def)
  show "length out1 = length out" "j \<noteq> i \<Longrightarrow> out1 ! j = out ! j"
    "out ! i \<le> out1 ! i" "out1 ! i \<le> demand ! i" "out1 ! i \<le> out ! i + share"
    "still1 = still @ filter (\<lambda>i. out1 ! i < demand ! i) [i]"
    using eq i give by auto
  show "sum_list out1 + left1 = sum_list out + left"
    using sum_list_update_add [OF i(1), of give] eq give by simp
  show "share \<le> left \<Longrightarrow> out1 ! i = min (demand ! i) (out ! i + share) \<and> left \<le> left1 + share"
    using eq i share by (auto simp: give_def)
  show "share = 1 \<Longrightarrow> left1 = left - 1"
    using eq i by (auto simp: give_def)
qed

lemma fair_pass_spec:
  assumes "distinct opened" "\<forall>i \<in> set opened. i < length out \<and> out ! i < demand ! i" "share > 0"
    and "fair_pass demand share opened (out, left, still) = (out', left', still')"
  shows "length out' = length out \<and> sum_list out' + left' = sum_list out + left
    \<and> (\<forall>j. j \<notin> set opened \<longrightarrow> out' ! j = out ! j)
    \<and> (\<forall>j \<in> set opened. out ! j \<le> out' ! j \<and> out' ! j \<le> demand ! j \<and> out' ! j \<le> out ! j + share)
    \<and> still' = still @ filter (\<lambda>i. out' ! i < demand ! i) opened
    \<and> (length opened * share \<le> left \<longrightarrow> (\<forall>j \<in> set opened. out' ! j = min (demand ! j) (out ! j + share)))
    \<and> (share = 1 \<longrightarrow> left' = left - length opened)"
  using assms
proof (induction opened arbitrary: out left still)
  case Nil
  then show ?case by (simp add: fair_pass_def)
next
  case (Cons i opened)
  obtain out1 left1 still1 where s: "fair_step demand share i (out, left, still) = (out1, left1, still1)"
    by (metis prod.exhaust)
  have i: "i < length out" "out ! i < demand ! i" using Cons.prems(2) by auto
  note st = fair_step_open [OF s i Cons.prems(3)]
  have pre: "\<forall>j \<in> set opened. j < length out1 \<and> out1 ! j < demand ! j"
  proof
    fix j assume j: "j \<in> set opened"
    then have "j \<noteq> i" using Cons.prems(1) by auto
    with j st(3) [OF this] st(1) Cons.prems(2) show "j < length out1 \<and> out1 ! j < demand ! j" by simp
  qed
  have rest: "fair_pass demand share opened (out1, left1, still1) = (out', left', still')"
    using Cons.prems(4) s by (simp add: fair_pass_def)
  note ih = Cons.IH [OF _ pre Cons.prems(3) rest]
  have ni: "i \<notin> set opened" and d: "distinct opened" using Cons.prems(1) by auto
  have same: "out1 ! j = out ! j" if "j \<in> set opened" for j using that ni st(3) [of j] by metis
  have out'i: "out' ! i = out1 ! i" using ih d ni by blast
  have full: "\<forall>j \<in> set (i # opened). out' ! j = min (demand ! j) (out ! j + share)"
    if le: "length (i # opened) * share \<le> left"
  proof -
    have "share \<le> left" "length opened * share \<le> left1"
      using le st(8) by auto
    then show ?thesis using ih d st(8) out'i same by auto
  qed
  show ?case
    using ih d st out'i same full ni by auto
qed

definition fair_inv :: "nat list \<Rightarrow> nat \<Rightarrow> nat list \<Rightarrow> nat \<Rightarrow> nat list \<Rightarrow> bool" where
  "fair_inv demand capacity out left opened \<longleftrightarrow>
     length out = length demand \<and> distinct opened
     \<and> set opened = {i. i < length demand \<and> out ! i < demand ! i}
     \<and> (\<forall>i < length demand. out ! i \<le> demand ! i) \<and> sum_list out + left = capacity
     \<and> (\<exists>level. (\<forall>i \<in> set opened. out ! i = level) \<and> (\<forall>j < length demand. out ! j \<le> level))"

definition fair_post :: "nat list \<Rightarrow> nat \<Rightarrow> nat list \<Rightarrow> bool" where
  "fair_post demand capacity out \<longleftrightarrow>
     length out = length demand
     \<and> (\<forall>i < length demand. out ! i \<le> demand ! i)
     \<and> sum_list out = min capacity (sum_list demand)
     \<and> (\<forall>i < length demand. \<forall>j < length demand. out ! i < demand ! i \<longrightarrow> out ! j \<le> out ! i + 1)"

lemma sum_list_pointwise_le:
  "length xs = length ys \<Longrightarrow> (\<forall>i < length ys. xs ! i \<le> ys ! i) \<Longrightarrow> sum_list xs \<le> sum_list ys"
  for xs ys :: "nat list"
  by (auto simp: sum_list_sum_nth intro!: sum_mono)

lemma fair_inv_done:
  assumes "fair_inv demand capacity out left opened" "left = 0 \<or> opened = []"
  shows "fair_post demand capacity out"
proof -
  have le: "sum_list out \<le> sum_list demand"
    using assms(1) by (intro sum_list_pointwise_le) (auto simp: fair_inv_def)
  have "out = demand" if "opened = []"
  proof (rule nth_equalityI)
    show len: "length out = length demand" using assms(1) by (simp add: fair_inv_def)
    fix i assume i: "i < length out"
    have "\<not> out ! i < demand ! i" "out ! i \<le> demand ! i"
      using assms(1) that i len unfolding fair_inv_def by auto
    then show "out ! i = demand ! i" by simp
  qed
  moreover have "sum_list out + left = capacity" using assms(1) by (simp add: fair_inv_def)
  ultimately have sum: "sum_list out = min capacity (sum_list demand)"
    using assms(2) le by fastforce
  obtain L where L: "\<forall>i \<in> set opened. out ! i = L" "\<forall>j < length demand. out ! j \<le> L"
    using assms(1) unfolding fair_inv_def by blast
  have "out ! j \<le> out ! i + 1" if "i < length demand" "j < length demand" "out ! i < demand ! i" for i j
  proof -
    have "i \<in> set opened" using that assms(1) unfolding fair_inv_def by blast
    then have "out ! i = L" using L(1) by blast
    with L(2) that(2) show ?thesis by (auto intro: le_SucI)
  qed
  with sum assms(1) show ?thesis unfolding fair_inv_def fair_post_def by blast
qed

lemma fair_pass_inv:
  assumes inv: "fair_inv demand capacity out left opened" and ne: "left > 0" "opened \<noteq> []"
    and sh: "share = max (left div length opened) 1"
    and p: "fair_pass demand share opened (out, left, []) = (out', left', still)"
  shows "fair_inv demand capacity out' left' still \<or> left' = 0 \<and> fair_post demand capacity out'"
proof -
  have pos: "share > 0" using sh by simp
  have d: "distinct opened" and pre: "\<forall>i \<in> set opened. i < length out \<and> out ! i < demand ! i"
    using inv by (auto simp: fair_inv_def)
  note sp = fair_pass_spec [OF d pre pos p]
  obtain L where L: "\<forall>i \<in> set opened. out ! i = L" "\<forall>j < length demand. out ! j \<le> L"
    using inv unfolding fair_inv_def by blast
  have opened: "i \<in> set opened \<longleftrightarrow> i < length demand \<and> out ! i < demand ! i" for i
    using inv unfolding fair_inv_def by blast
  have keep: "out' ! j = out ! j" if "j \<notin> set opened" for j using sp that by blast
  have bnd: "out ! j \<le> out' ! j" "out' ! j \<le> demand ! j" "out' ! j \<le> out ! j + share"
    if "j \<in> set opened" for j using sp that by blast+
  have le: "out' ! i \<le> demand ! i" if "i < length demand" for i
    using bnd(2) [of i] keep [of i] inv that unfolding fair_inv_def by metis
  have grow: "out' ! j \<le> L + share" if "j < length demand" for j
    using bnd(3) [of j] keep [of j] L(2) that by (cases "j \<in> set opened") (auto simp: trans_le_add1 L(1))
  have still: "still = filter (\<lambda>i. out' ! i < demand ! i) opened" using sp by simp
  have unsat: "set still = {i. i < length demand \<and> out' ! i < demand ! i}"
  proof -
    have "i \<in> set opened" if "i < length demand" "out' ! i < demand ! i" for i
      using that keep [of i] opened [of i] by auto
    then show ?thesis using opened by (auto simp: still)
  qed
  have len: "length out' = length demand" and sum: "sum_list out' + left' = capacity"
    using sp inv by (auto simp: fair_inv_def)
  show ?thesis
  proof (cases "length opened \<le> left")
    case True
    then have "share = left div length opened"
      using ne sh div_greater_zero_iff [of left "length opened"] by auto
    then have "length opened * share \<le> left" by simp
    then have full: "\<forall>j \<in> set opened. out' ! j = min (demand ! j) (out ! j + share)" using sp by blast
    then have "\<forall>i \<in> set still. out' ! i = L + share" using L(1) by (auto simp: still)
    then have "fair_inv demand capacity out' left' still"
      using len d unsat le sum grow unfolding fair_inv_def by (auto simp: still)
    then show ?thesis ..
  next
    case False
    then have one: "share = 1" and l0: "left' = 0" using sp sh by auto
    have lo: "L \<le> out' ! i" if "i < length demand" "out' ! i < demand ! i" for i
      using that unsat bnd(1) [of i] L(1) by (auto simp: still)
    have "sum_list out' \<le> sum_list demand" using len le by (intro sum_list_pointwise_le) auto
    moreover have "out' ! j \<le> out' ! i + 1"
      if "i < length demand" "j < length demand" "out' ! i < demand ! i" for i j
      using grow [OF that(2)] lo [OF that(1,3)] one by simp
    ultimately have "fair_post demand capacity out'"
      using sum l0 le len by (simp add: fair_post_def)
    with l0 show ?thesis by blast
  qed
qed

lemma fair_loop_post:
  "fair_inv demand capacity out left opened \<Longrightarrow> fair_post demand capacity (fair_loop demand out left opened)"
proof (induction demand out left opened rule: fair_loop.induct)
  case (1 demand out left opened)
  show ?case
  proof (cases "left > 0 \<and> opened \<noteq> []")
    case False
    then show ?thesis
      using fair_inv_done [OF 1(2)] by (auto simp: fair_loop.simps [of demand out left opened])
  next
    case True
    define share where "share = max (left div length opened) 1"
    obtain out' left' still where p: "fair_pass demand share opened (out, left, []) = (out', left', still)"
      by (metis prod.exhaust)
    let ?stop = "length still = length opened \<and> share = 1 \<and> left' = 0"
    have eq: "fair_loop demand out left opened = (if ?stop then out' else fair_loop demand out' left' still)"
      using True p share_def by (simp add: fair_loop.simps [of demand out left opened] Let_def)
    have zero: "fair_loop demand out' 0 still = out'" by (simp add: fair_loop.simps)
    consider "fair_inv demand capacity out' left' still" | "left' = 0" "fair_post demand capacity out'"
      using fair_pass_inv [OF 1(2) _ _ share_def p] True by blast
    then show ?thesis
    proof cases
      case inv: 1
      then show ?thesis
        using eq fair_inv_done [OF inv] "1.IH" [OF True share_def p [symmetric] refl] by (auto simp: p)
    next
      case 2
      then show ?thesis using eq zero by auto
    qed
  qed
qed


lemma max_min_fair_post: "fair_post demand capacity (max_min_fair capacity demand)"
proof -
  have "fair_inv demand capacity (replicate (length demand) 0) capacity
      (filter (\<lambda>i. demand ! i > 0) [0..<length demand])"
    by (auto simp: fair_inv_def)
  from fair_loop_post [OF this] show ?thesis by (simp add: max_min_fair_def)
qed

text \<open>
  Claim C20. The fair division is max-min fair: nobody gets more than they asked for, the capacity
  is used up as far as there is demand, and anyone whose demand is not met has, to within one
  slot, at least as much as everybody else.
\<close>

theorem max_min_fair_correct:
  "let out = max_min_fair capacity demand; n = length demand in
   length out = n
   \<and> (\<forall>i < n. out ! i \<le> demand ! i)
   \<and> sum_list out = min capacity (sum_list demand)
   \<and> (\<forall>i < n. \<forall>j < n. out ! i < demand ! i \<longrightarrow> out ! j \<le> out ! i + 1)"
  using max_min_fair_post [of demand capacity] by (simp add: fair_post_def Let_def)

theorem max_min_fair_correct_witness:
  "sum_list (max_min_fair 10 [2, 9, 9]) = 10
   \<and> max_min_fair 10 [2, 9, 9] ! 2 \<le> max_min_fair 10 [2, 9, 9] ! 1 + 1"
proof -
  let ?d = "[2, 9, 9] :: nat list"
  have "max_min_fair 10 ?d ! 1 < ?d ! 1" by code_simp
  moreover have "(1 :: nat) < length ?d" "(2 :: nat) < length ?d" by simp_all
  ultimately have "max_min_fair 10 ?d ! 2 \<le> max_min_fair 10 ?d ! 1 + 1"
    "sum_list (max_min_fair 10 ?d) = min 10 (sum_list ?d)"
    using max_min_fair_correct [of 10 ?d] unfolding Let_def by blast+
  then show ?thesis by simp
qed

section \<open>Targets\<close>

lemma headroom_pass_sum:
  "headroom_pass want ks (extra, left, gave) = (extra', left', gave') \<Longrightarrow> \<forall>k \<in> set ks. k < length extra \<Longrightarrow>
     length extra' = length extra \<and> sum_list extra' + left' = sum_list extra + left"
proof (induction ks arbitrary: extra left gave)
  case (Cons k ks)
  obtain e1 l1 g1 where s: "headroom_step want k (extra, left, gave) = (e1, l1, g1)" by (metis prod.exhaust)
  have k: "k < length extra" using Cons.prems(2) by simp
  have e1: "length e1 = length extra \<and> sum_list e1 + l1 = sum_list extra + left"
    using s sum_list_update_add [OF k, of 1] by (auto simp: headroom_step_def split: if_splits)
  have "headroom_pass want ks (e1, l1, g1) = (extra', left', gave')"
    using s Cons.prems(1) by (simp add: headroom_pass_def)
  from Cons.IH [OF this] e1 Cons.prems(2) show ?case by auto
qed (simp add: headroom_pass_def)

lemma headroom_loop_sum:
  "length (headroom_loop want left extra) = length extra
   \<and> sum_list (headroom_loop want left extra) \<le> sum_list extra + left"
proof (induction want left extra rule: headroom_loop.induct)
  case (1 want left extra)
  show ?case
  proof (cases "left > 0")
    case True
    obtain e l g where p: "headroom_pass want [0..<length extra] (extra, left, False) = (e, l, g)"
      by (metis prod.exhaust)
    from headroom_pass_sum [OF this] have "length e = length extra \<and> sum_list e + l = sum_list extra + left"
      by simp
    with 1 [OF True p [symmetric] refl] True p show ?thesis
      by (cases g) (auto simp: headroom_loop.simps [of want left extra])
  qed (simp add: headroom_loop.simps)
qed

lemma spread_sum:
  fixes t :: "nat list"
  assumes "distinct is" "\<forall>i \<in> set is. i < length t \<and> t ! i = 0"
  shows "length (foldl (\<lambda>target (k, i). target[i := f k]) t (List.enumerate m is)) = length t
    \<and> sum_list (foldl (\<lambda>target (k, i). target[i := f k]) t (List.enumerate m is))
        = sum_list t + sum_list (map f [m..<m + length is])
    \<and> (\<forall>j. j \<notin> set is \<longrightarrow> foldl (\<lambda>target (k, i). target[i := f k]) t (List.enumerate m is) ! j = t ! j)"
  using assms
proof (induction "is" arbitrary: t m)
  case (Cons i "is")
  have i: "i < length t" "t ! i = 0" using Cons.prems by auto
  have "\<forall>j \<in> set is. j < length (t[i := f m]) \<and> t[i := f m] ! j = 0"
    using Cons.prems by (auto simp: nth_list_update)
  note ih = Cons.IH [OF _ this, of "Suc m"]
  have up: "[m..<m + length (i # is)] = m # [Suc m..<Suc m + length is]"
    by (simp add: upt_conv_Cons del: upt_Suc)
  show ?case
    using ih Cons.prems sum_list_update [OF i(1), of "f m"] i unfolding up by auto
qed simp

lemma sum_list_nth_upt: "sum_list (map ((!) xs) [0..<length xs]) = sum_list xs"
  by (simp add: map_nth)

lemma allocation_targets_props:
  "length (allocation_targets mx reserve policy holders) = length holders
   \<and> sum_list (allocation_targets mx reserve policy holders) \<le> mx - reserve
   \<and> (\<forall>i < length holders. \<not> h_active policy (holders ! i) \<longrightarrow>
         allocation_targets mx reserve policy holders ! i = 0)"
proof -
  define act where "act = filter (\<lambda>i. h_active policy (holders ! i)) [0..<length holders]"
  define demand where "demand = map (\<lambda>i. min u64_max (h_running (holders ! i) + h_waiting (holders ! i))) act"
  define fair where "fair = max_min_fair (mx - reserve) demand"
  define extra where "extra = headroom_loop (map (\<lambda>d. max (d div 4) 1) demand)
    (mx - reserve - sum_list fair) (replicate (length act) 0)"
  show ?thesis
  proof (cases "act \<noteq> [] \<and> mx \<ge> 2 * length act")
    case True
    let ?t = "foldl (\<lambda>target (k, i). target[i := fair ! k + extra ! k])
        (replicate (length holders) 0) (List.enumerate 0 act)"
    have t: "allocation_targets mx reserve policy holders = ?t"
      using True unfolding allocation_targets_def Let_def act_def [symmetric] demand_def [symmetric]
        fair_def [symmetric] extra_def [symmetric] by simp
    have sp: "length ?t = length holders
        \<and> sum_list ?t = sum_list (map (\<lambda>k. fair ! k + extra ! k) [0..<length act])
        \<and> (\<forall>j. j \<notin> set act \<longrightarrow> ?t ! j = replicate (length holders) 0 ! j)"
      using spread_sum [of act "replicate (length holders) 0" "\<lambda>k. fair ! k + extra ! k" 0]
      by (auto simp: act_def)
    have post: "fair_post demand (mx - reserve) fair"
      unfolding fair_def by (rule max_min_fair_post)
    have lens: "length fair = length act" "length extra = length act"
      using post headroom_loop_sum by (simp_all add: fair_post_def demand_def extra_def)
    have "sum_list (map (\<lambda>k. fair ! k + extra ! k) [0..<length act]) = sum_list fair + sum_list extra"
      using lens sum_list_nth_upt [of fair] sum_list_nth_upt [of extra] by (simp add: sum_list_addf)
    moreover have "sum_list extra \<le> mx - reserve - sum_list fair"
      using headroom_loop_sum [of "map (\<lambda>d. max (d div 4) 1) demand" "mx - reserve - sum_list fair"
          "replicate (length act) 0"]
      unfolding extra_def by (simp only: sum_list_replicate) simp
    moreover have "sum_list fair \<le> mx - reserve" using post by (simp add: fair_post_def)
    ultimately show ?thesis using sp t by (auto simp: act_def)
  next
    case False
    then have "allocation_targets mx reserve policy holders = replicate (length holders) 0"
      unfolding allocation_targets_def Let_def act_def [symmetric] by (simp only: if_False)
    then show ?thesis by (simp add: sum_list_replicate)
  qed
qed

section \<open>Grants\<close>

lemma commit_of_update_other: "j \<noteq> i \<Longrightarrow> commit_of policy holders (ceil[i := c]) j = commit_of policy holders ceil j"
  by (simp add: commit_of_def Let_def)

lemma commit_sum_update:
  assumes "i < length holders" "length ceil = length holders"
  shows "commit_sum policy holders (ceil[i := c]) + commit_of policy holders ceil i =
    commit_sum policy holders ceil + commit_of policy holders (ceil[i := c]) i"
proof -
  let ?f = "commit_of policy holders ceil" and ?g = "commit_of policy holders (ceil[i := c])"
  have "map ?g [0..<length holders] = (map ?f [0..<length holders])[i := ?g i]"
    using assms by (intro nth_equalityI) (auto simp: nth_list_update commit_of_update_other)
  with sum_list_update [of i "map ?f [0..<length holders]" "?g i"] assms(1)
  show ?thesis by (simp add: commit_sum_def)
qed

definition grants_inv :: "HolderState list \<Rightarrow> nat list \<Rightarrow> nat list \<Rightarrow> nat list \<Rightarrow> bool" where
  "grants_inv holders target granted ceil \<longleftrightarrow>
     length granted = length holders \<and> length ceil = length holders
     \<and> (\<forall>i < length holders. granted ! i \<le> ceil ! i \<and> granted ! i \<le> target ! i)"

lemma increase_step_inv:
  assumes s: "increase_step policy holders target i (granted, ceil, free) = (granted', ceil', free')"
    and inv: "grants_inv holders target granted ceil" and i: "i < length holders"
  shows "grants_inv holders target granted' ceil'"
    and "commit_sum policy holders ceil' + free' \<le> commit_sum policy holders ceil + free"
proof -
  define current where "current = commit_of policy holders ceil i"
  define give where "give = min (target ! i - current) free"
  define g where "g = max (min (current + give) (target ! i)) (granted ! i)"
  have eq: "granted' = granted[i := g]" "ceil' = ceil[i := max (ceil ! i) g]" "free' = free - give"
    using s by (simp_all add: increase_step_def current_def give_def g_def Let_def)
  have gi: "granted ! i \<le> ceil ! i" "granted ! i \<le> target ! i" and len: "length ceil = length holders"
    using inv i by (auto simp: grants_inv_def)
  show "grants_inv holders target granted' ceil'"
    using inv i gi eq by (auto simp: grants_inv_def nth_list_update g_def)
  have "commit_of policy holders ceil' i \<le> current + give"
    using gi i len by (auto simp: eq commit_of_def current_def g_def Let_def)
  moreover have "give \<le> free" by (simp add: give_def)
  ultimately show "commit_sum policy holders ceil' + free' \<le> commit_sum policy holders ceil + free"
    using commit_sum_update [OF i len, of policy "max (ceil ! i) g"] eq by (simp add: current_def)
qed

lemma increase_inv:
  assumes "fold (increase_step policy holders target) is (granted, ceil, free) = (granted', ceil', free')"
    and "grants_inv holders target granted ceil" "\<forall>i \<in> set is. i < length holders"
  shows "grants_inv holders target granted' ceil'
    \<and> commit_sum policy holders ceil' + free' \<le> commit_sum policy holders ceil + free"
  using assms
proof (induction "is" arbitrary: granted ceil free)
  case (Cons i "is")
  obtain g1 c1 f1 where s: "increase_step policy holders target i (granted, ceil, free) = (g1, c1, f1)"
    by (metis prod.exhaust)
  from increase_step_inv [OF s Cons.prems(2)] Cons.prems(3)
  have st: "grants_inv holders target g1 c1"
    "commit_sum policy holders c1 + f1 \<le> commit_sum policy holders ceil + free" by auto
  have "fold (increase_step policy holders target) is (g1, c1, f1) = (granted', ceil', free')"
    using Cons.prems(1) s by simp
  from Cons.IH [OF this st(1)] Cons.prems(3) st(2) show ?case by auto
qed simp

lemma decrease_fold:
  assumes "fold (decrease_step policy holders target) is (granted, ceil) = (granted', ceil')" "distinct is"
    "\<forall>i \<in> set is. i < length holders" "length granted = length holders" "length ceil = length holders"
  shows "length granted' = length holders \<and> length ceil' = length holders
    \<and> (\<forall>i. i \<notin> set is \<longrightarrow> granted' ! i = granted ! i \<and> ceil' ! i = ceil ! i)
    \<and> (\<forall>i \<in> set is. granted' ! i = (if h_active policy (holders ! i) then min (granted ! i) (target ! i) else 0)
         \<and> ceil' ! i = (if h_active policy (holders ! i) then ceil ! i else 0))"
  using assms
proof (induction "is" arbitrary: granted ceil)
  case (Cons i "is")
  obtain g1 c1 where s: "decrease_step policy holders target i (granted, ceil) = (g1, c1)"
    by (metis prod.exhaust)
  have i: "i < length holders" "i \<notin> set is" using Cons.prems by auto
  have st: "length g1 = length holders" "length c1 = length holders"
    "\<And>j. j \<noteq> i \<Longrightarrow> g1 ! j = granted ! j \<and> c1 ! j = ceil ! j"
    "g1 ! i = (if h_active policy (holders ! i) then min (granted ! i) (target ! i) else 0)"
    "c1 ! i = (if h_active policy (holders ! i) then ceil ! i else 0)"
    using s Cons.prems(4,5) i by (auto simp: decrease_step_def Let_def split: if_splits)
  have "fold (decrease_step policy holders target) is (g1, c1) = (granted', ceil')"
    using Cons.prems(1) s by simp
  note ih = Cons.IH [OF this _ _ st(1,2)]
  have ih': "length granted' = length holders \<and> length ceil' = length holders"
    "\<And>j. j \<notin> set is \<Longrightarrow> granted' ! j = g1 ! j \<and> ceil' ! j = c1 ! j"
    "\<And>j. j \<in> set is \<Longrightarrow> granted' ! j = (if h_active policy (holders ! j) then min (g1 ! j) (target ! j) else 0)
         \<and> ceil' ! j = (if h_active policy (holders ! j) then c1 ! j else 0)"
    using ih Cons.prems(2,3) by auto
  show ?case
  proof (intro conjI allI impI ballI)
    show "length granted' = length holders" "length ceil' = length holders" using ih'(1) by auto
    fix j assume "j \<notin> set (i # is)"
    then show "granted' ! j = granted ! j" "ceil' ! j = ceil ! j" using ih'(2) [of j] st(3) [of j] by auto
  next
    fix j assume j: "j \<in> set (i # is)"
    show "granted' ! j = (if h_active policy (holders ! j) then min (granted ! j) (target ! j) else 0)"
      using j i ih'(2) [of j] ih'(3) [of j] st(3) [of j] st(4) by (cases "j = i") auto
    show "ceil' ! j = (if h_active policy (holders ! j) then ceil ! j else 0)"
      using j i ih'(2) [of j] ih'(3) [of j] st(3) [of j] st(5) by (cases "j = i") auto
  qed
qed simp

definition total_commit :: "AllocatorPolicy \<Rightarrow> HolderState list \<Rightarrow> nat" where
  "total_commit policy holders = sum_list (map (h_commit policy) holders)"

lemma commit_sum_total:
  assumes "\<forall>i < length holders. h_active policy (holders ! i) \<longrightarrow> ceil ! i = h_ceiling (holders ! i)"
  shows "commit_sum policy holders ceil = total_commit policy holders"
proof -
  have "map (commit_of policy holders ceil) [0..<length holders] = map (h_commit policy) holders"
    using assms by (intro nth_equalityI) (auto simp: commit_of_def h_commit_def Let_def)
  then show ?thesis by (simp add: commit_sum_def total_commit_def)
qed

lemma allocate_vectors_inv:
  assumes r: "allocate_vectors mx reserve leased holders policy = (target, granted, ceil)"
    and rows: "\<forall>h \<in> set holders. h_granted h \<le> h_ceiling h"
    and fits: "total_commit policy holders < 2 ^ 64"
  shows "target = allocation_targets mx reserve policy holders"
    and "grants_inv holders target granted ceil"
    and "commit_sum policy holders ceil \<le> max (total_commit policy holders) (mx - leased)"
proof -
  let ?t = "allocation_targets mx reserve policy holders" and ?n = "length holders"
  obtain g0 c0 where d: "fold (decrease_step policy holders ?t) [0..<?n]
      (map h_granted holders, map h_ceiling holders) = (g0, c0)"
    by (metis prod.exhaust)
  let ?free = "mx - leased - commit_sum policy holders c0 mod 2 ^ 64"
  let ?growing = "sort_key (\<lambda>i. (g0 ! i, h_instance_id (holders ! i))) (filter (\<lambda>i. ?t ! i > g0 ! i) [0..<?n])"
  obtain f where inc: "fold (increase_step policy holders ?t) ?growing (g0, c0, ?free) = (granted, ceil, f)"
    and t: "target = ?t"
    using r d by (auto simp: allocate_vectors_def Let_def split: prod.splits)
  show "target = ?t" by (rule t)
  note df = decrease_fold [OF d]
  have inv0: "grants_inv holders ?t g0 c0"
    using df rows by (auto simp: grants_inv_def le_max_iff_disj min.coboundedI1)
  have "commit_sum policy holders c0 = total_commit policy holders"
    using df by (intro commit_sum_total) auto
  with fits have free: "?free = mx - leased - total_commit policy holders"
    and c0: "commit_sum policy holders c0 = total_commit policy holders" by auto
  have "\<forall>i \<in> set ?growing. i < ?n" by auto
  from increase_inv [OF inc inv0 this] free c0
  show "grants_inv holders target granted ceil"
    "commit_sum policy holders ceil \<le> max (total_commit policy holders) (mx - leased)"
    by (auto simp: t)
qed

section \<open>Applying an allocation to the rows\<close>

text \<open>The rows after a pass: every row named in \<open>changed\<close> gets its new grant and ceiling.\<close>

definition apply_allocation :: "ClusterAllocation \<Rightarrow> HolderState \<Rightarrow> HolderState" where
  "apply_allocation a h =
     (case List.find (\<lambda>x. al_instance_id x = h_instance_id h) (ca_changed a) of
        None \<Rightarrow> h
      | Some x \<Rightarrow> h\<lparr>h_granted := al_granted x, h_ceiling := al_ceiling x\<rparr>)"

lemma find_unique:
  assumes "distinct (map f xs)" "x \<in> set xs" shows "List.find (\<lambda>y. f y = f x) xs = Some x"
  using assms by (induction xs) (auto simp: image_iff)

lemma find_none: "f x \<notin> f ` set xs \<Longrightarrow> List.find (\<lambda>y. f y = f x) xs = None"
  by (induction xs) auto

lemma find_map: "List.find P (map f xs) = map_option f (List.find (\<lambda>x. P (f x)) xs)"
  by (induction xs) auto

lemma apply_allocation_nth:
  assumes r: "allocate_vectors mx reserve leased holders policy = (target, granted, ceil)"
    and dist: "distinct (map h_instance_id holders)" and i: "i < length holders"
  shows "apply_allocation (allocate mx reserve leased holders policy) (holders ! i) =
    (holders ! i)\<lparr>h_granted := granted ! i, h_ceiling := ceil ! i\<rparr>"
proof -
  define sel where "sel i \<longleftrightarrow> granted ! i \<noteq> h_granted (holders ! i) \<or> ceil ! i \<noteq> h_ceiling (holders ! i)" for i
  define mk where "mk i = \<lparr>al_instance_id = h_instance_id (holders ! i), al_granted = granted ! i,
    al_ceiling = ceil ! i\<rparr>" for i
  let ?is = "filter sel [0..<length holders]"
  have ch: "ca_changed (allocate mx reserve leased holders policy) = map mk ?is"
    by (simp add: allocate_def r Let_def sel_def [abs_def] mk_def [abs_def])
  have id: "al_instance_id (mk j) = h_instance_id (holders ! j)" for j by (simp add: mk_def)
  have inj: "inj_on (\<lambda>j. h_instance_id (holders ! j)) {0..<length holders}"
    using dist by (intro inj_onI) (metis atLeastLessThan_iff length_map nth_eq_iff_index_eq nth_map)
  have f: "List.find (\<lambda>x. al_instance_id x = h_instance_id (holders ! i)) (map mk ?is) =
      map_option mk (List.find (\<lambda>j. h_instance_id (holders ! j) = h_instance_id (holders ! i)) ?is)"
    by (simp add: find_map id)
  show ?thesis
  proof (cases "sel i")
    case True
    have "distinct (map (\<lambda>j. h_instance_id (holders ! j)) ?is)"
      using inj by (auto simp: distinct_map inj_on_def)
    from find_unique [OF this, of i] True i
    have "List.find (\<lambda>j. h_instance_id (holders ! j) = h_instance_id (holders ! i)) ?is = Some i" by simp
    with f ch show ?thesis by (simp add: apply_allocation_def mk_def)
  next
    case False
    have "h_instance_id (holders ! i) \<notin> (\<lambda>j. h_instance_id (holders ! j)) ` set ?is"
      using False i inj_onD [OF inj, of i] by auto
    from find_none [of "\<lambda>j. h_instance_id (holders ! j)", OF this] f ch False show ?thesis
      by (simp add: apply_allocation_def sel_def)
  qed
qed

lemma apply_allocation_map:
  assumes r: "allocate_vectors mx reserve leased holders policy = (target, granted, ceil)"
    and dist: "distinct (map h_instance_id holders)"
    and len: "length granted = length holders" "length ceil = length holders"
  defines "after \<equiv> map (apply_allocation (allocate mx reserve leased holders policy)) holders"
  shows "map h_granted after = granted" "map h_ceiling after = ceil"
    and "total_commit policy after = commit_sum policy holders ceil"
proof -
  have nth: "after ! i = (holders ! i)\<lparr>h_granted := granted ! i, h_ceiling := ceil ! i\<rparr>"
    if "i < length holders" for i
    using apply_allocation_nth [OF r dist that] that by (simp add: after_def)
  have l: "length after = length holders" by (simp add: after_def)
  show "map h_granted after = granted" "map h_ceiling after = ceil"
    by (intro nth_equalityI; simp add: l len nth)+
  have "map (h_commit policy) after = map (commit_of policy holders ceil) [0..<length holders]"
    by (intro nth_equalityI) (auto simp: l nth h_commit_def commit_of_def h_active_def Let_def)
  then show "total_commit policy after = commit_sum policy holders ceil"
    by (simp add: total_commit_def commit_sum_def)
qed

lemma allocate_limits:
  fixes mx reserve leased :: nat
  assumes rows: "\<forall>h \<in> set holders. h_granted h \<le> h_ceiling h"
    and dist: "distinct (map h_instance_id holders)"
    and fits: "total_commit policy holders < 2 ^ 64" "mx < 2 ^ 64"
  defines "a \<equiv> allocate mx reserve leased holders policy"
  defines "after \<equiv> map (apply_allocation a) holders"
  shows "total_commit policy after \<le> max (total_commit policy holders) (mx - leased)"
    and "total_commit policy holders + leased \<le> mx \<longrightarrow> total_commit policy after + leased \<le> mx"
    and "ca_quota_committed a = total_commit policy after"
    and "\<forall>h \<in> set after. h_granted h \<le> h_ceiling h"
    and "sum_list (map h_granted after) \<le> mx - reserve"
    and "ca_quota_wanted a \<le> mx - reserve - ca_quota_committed a"
proof -
  obtain target granted ceil where r: "allocate_vectors mx reserve leased holders policy = (target, granted, ceil)"
    by (metis prod.exhaust)
  note inv = allocate_vectors_inv [OF r rows fits(1)]
  have len: "length granted = length holders" "length ceil = length holders"
    using inv(2) by (auto simp: grants_inv_def)
  note ap = apply_allocation_map [OF r dist len, folded a_def, folded after_def]
  show lim: "total_commit policy after \<le> max (total_commit policy holders) (mx - leased)"
    using inv(3) ap(3) by simp
  then show "total_commit policy holders + leased \<le> mx \<longrightarrow> total_commit policy after + leased \<le> mx" by auto
  have "total_commit policy after < 2 ^ 64" using lim fits by (auto simp: less_imp_diff_less intro: le_less_trans)
  then show "ca_quota_committed a = total_commit policy after"
    using ap(3) by (simp add: a_def allocate_def r Let_def)
  show "\<forall>h \<in> set after. h_granted h \<le> h_ceiling h"
  proof
    fix h assume "h \<in> set after"
    then obtain i where i: "i < length holders" "h = after ! i" by (auto simp: in_set_conv_nth after_def)
    have "h_granted h = granted ! i" "h_ceiling h = ceil ! i"
      using i by (simp_all add: after_def flip: ap(1,2))
    with inv(2) i show "h_granted h \<le> h_ceiling h" by (simp add: grants_inv_def)
  qed
  have "sum_list granted \<le> sum_list target"
    using inv(1,2) allocation_targets_props [of mx reserve policy holders]
    by (intro sum_list_pointwise_le) (auto simp: grants_inv_def)
  then show "sum_list (map h_granted after) \<le> mx - reserve"
    using inv(1) allocation_targets_props [of mx reserve policy holders] ap(1) by simp
  show "ca_quota_wanted a \<le> mx - reserve - ca_quota_committed a"
    by (simp add: a_def allocate_def r Let_def)
qed

text \<open>
  Claim C7. The hard limit. An allocation pass, over any rows in which no grant exceeds its
  ceiling, never raises what holders may be using beyond what the leases leave: if commitments
  and leases were within the cluster's limit they still are, and if they were not (leases grew,
  the limit was lowered) the commitments do not grow. What the pass publishes as committed is
  exactly the commitment of the new rows, the new grants together leave the reserve free, what
  it asks for beyond that does not touch the reserve, and no 64-bit sum wraps.
\<close>

theorem allocate_hard_limit:
  fixes mx reserve leased :: nat
  assumes "\<forall>h \<in> set holders. h_granted h \<le> h_ceiling h" and "distinct (map h_instance_id holders)"
    and "total_commit policy holders < 2 ^ 64" "mx < 2 ^ 64"
  shows "let a = allocate mx reserve leased holders policy;
             after = map (apply_allocation a) holders
         in total_commit policy after \<le> max (total_commit policy holders) (mx - leased)
            \<and> (total_commit policy holders + leased \<le> mx \<longrightarrow> total_commit policy after + leased \<le> mx)
            \<and> ca_quota_committed a = total_commit policy after
            \<and> (\<forall>h \<in> set after. h_granted h \<le> h_ceiling h)
            \<and> sum_list (map h_granted after) \<le> mx - reserve
            \<and> ca_quota_wanted a \<le> mx - reserve - ca_quota_committed a"
  unfolding Let_def by (intro conjI allocate_limits [OF assms])

definition example_policy :: AllocatorPolicy where
  "example_policy = \<lparr>lease_secs = 15, margin_secs = 5\<rparr>"

definition example_holders :: "HolderState list" where
  "example_holders =
     [\<lparr>h_instance_id = ''a'', h_running = 3, h_waiting = 0, h_granted = 8, h_ceiling = 8, h_silent_secs = 1\<rparr>,
      \<lparr>h_instance_id = ''b'', h_running = 0, h_waiting = 9, h_granted = 0, h_ceiling = 0, h_silent_secs = 0\<rparr>,
      \<lparr>h_instance_id = ''c'', h_running = 1, h_waiting = 0, h_granted = 4, h_ceiling = 4, h_silent_secs = 30\<rparr>]"

theorem allocate_hard_limit_witness:
  "total_commit example_policy
     (map (apply_allocation (allocate 20 3 2 example_holders example_policy)) example_holders) + 2 \<le> 20"
proof -
  have "total_commit example_policy example_holders = 9"
    by (simp add: total_commit_def h_commit_def h_active_def example_holders_def example_policy_def)
  moreover have "\<forall>h \<in> set example_holders. h_granted h \<le> h_ceiling h" by (simp add: example_holders_def)
  moreover have "distinct (map h_instance_id example_holders)" by (simp add: example_holders_def)
  ultimately show ?thesis
    using allocate_hard_limit [where holders = example_holders and policy = example_policy and mx = 20 and leased = 2 and reserve = 3]
    by (simp add: Let_def)
qed


section \<open>Enough capacity\<close>

lemma increase_reaches_target:
  assumes "fold (increase_step policy holders target) is (granted, ceil, free) = (granted', ceil', free')"
    and "distinct is" "\<forall>i \<in> set is. i < length granted \<and> granted ! i \<le> target ! i"
    and "sum_list (map (\<lambda>i. target ! i - commit_of policy holders ceil i) is) \<le> free"
  shows "\<forall>i. granted' ! i = (if i \<in> set is then target ! i else granted ! i)"
  using assms
proof (induction "is" arbitrary: granted ceil free)
  case (Cons i "is")
  define current where "current = commit_of policy holders ceil i"
  have give: "min (target ! i - current) free = target ! i - current"
    using Cons.prems(4) by (simp add: current_def)
  have i: "i < length granted" "granted ! i \<le> target ! i" "i \<notin> set is" using Cons.prems(2,3) by auto
  have "max (min (current + (target ! i - current)) (target ! i)) (granted ! i) = target ! i"
    using i by simp
  then have s: "increase_step policy holders target i (granted, ceil, free) =
      (granted[i := target ! i], ceil[i := max (ceil ! i) (target ! i)], free - (target ! i - current))"
    by (simp add: increase_step_def Let_def give flip: current_def)
  let ?c = "ceil[i := max (ceil ! i) (target ! i)]"
  have same: "map (\<lambda>j. target ! j - commit_of policy holders ?c j) is = map (\<lambda>j. target ! j - commit_of policy holders ceil j) is"
    using i(3) by (intro map_cong refl arg_cong2 [where f = "(-)"] commit_of_update_other) auto
  have le: "sum_list (map (\<lambda>j. target ! j - commit_of policy holders ?c j) is) \<le> free - (target ! i - current)"
    unfolding same using Cons.prems(4) by (simp add: current_def)
  have pre: "\<forall>j \<in> set is. j < length (granted[i := target ! i]) \<and> granted[i := target ! i] ! j \<le> target ! j"
    using Cons.prems(3) i(3) by (auto simp: nth_list_update)
  have "fold (increase_step policy holders target) is
      (granted[i := target ! i], ?c, free - (target ! i - current)) = (granted', ceil', free')"
    using Cons.prems(1) s by simp
  from Cons.IH [OF this _ pre le] Cons.prems(2) i show ?case by (auto simp: nth_list_update)
qed simp

lemma sum_list_permute_le:
  fixes f :: "nat \<Rightarrow> nat"
  assumes "distinct is" "set is \<subseteq> {0..<n}"
  shows "sum_list (map f is) \<le> sum_list (map f [0..<n])"
  using assms by (simp add: sum_list_distinct_conv_sum_set sum_mono2 distinct_map flip: interv_sum_list_conv_sum_set_nat)

text \<open>
  Claim C37. Nobody waits for capacity that is there: when the leases leave room for every
  holder's target on top of what ceilings already claim, one pass brings every grant to exactly
  its target.
\<close>

theorem allocate_reaches_targets:
  fixes mx reserve leased :: nat
  assumes rows: "\<forall>h \<in> set holders. h_granted h \<le> h_ceiling h"
    and dist: "distinct (map h_instance_id holders)"
    and fits: "total_commit policy holders < 2 ^ 64"
  defines "target \<equiv> allocation_targets mx reserve policy holders"
  assumes room: "sum_list (map (\<lambda>i. max (h_commit policy (holders ! i)) (target ! i)) [0..<length holders])
      \<le> mx - leased"
  shows "map h_granted (map (apply_allocation (allocate mx reserve leased holders policy)) holders) = target"
proof -
  obtain t granted ceil where r: "allocate_vectors mx reserve leased holders policy = (t, granted, ceil)"
    by (metis prod.exhaust)
  note inv = allocate_vectors_inv [OF r rows fits]
  have len: "length granted = length holders" "length ceil = length holders"
    using inv(2) by (auto simp: grants_inv_def)
  note ap = apply_allocation_map [OF r dist len]
  let ?n = "length holders"
  obtain g0 c0 where d: "fold (decrease_step policy holders target) [0..<?n]
      (map h_granted holders, map h_ceiling holders) = (g0, c0)"
    by (metis prod.exhaust)
  let ?free = "mx - leased - commit_sum policy holders c0 mod 2 ^ 64"
  define growing where "growing = sort_key (\<lambda>i. (g0 ! i, h_instance_id (holders ! i)))
    (filter (\<lambda>i. target ! i > g0 ! i) [0..<?n])"
  obtain f where inc: "fold (increase_step policy holders target) growing (g0, c0, ?free) = (granted, ceil, f)"
    using r d by (auto simp: allocate_vectors_def Let_def target_def growing_def split: prod.splits)
  note df = decrease_fold [OF d]
  have tl: "length target = ?n" "\<And>i. i < ?n \<Longrightarrow> \<not> h_active policy (holders ! i) \<Longrightarrow> target ! i = 0"
    using allocation_targets_props [of mx reserve policy holders] by (auto simp: target_def)
  have c0: "commit_sum policy holders c0 = total_commit policy holders"
    using df by (intro commit_sum_total) auto
  have commits: "commit_of policy holders c0 i = h_commit policy (holders ! i)" if "i < ?n" for i
    using df that by (auto simp: commit_of_def h_commit_def Let_def)
  let ?need = "\<lambda>i. target ! i - commit_of policy holders c0 i"
  have "sum_list (map ?need [0..<?n]) + total_commit policy holders
      = sum_list (map (\<lambda>i. ?need i + commit_of policy holders c0 i) [0..<?n])"
    using c0 by (simp add: sum_list_addf commit_sum_def)
  also have "\<dots> = sum_list (map (\<lambda>i. max (h_commit policy (holders ! i)) (target ! i)) [0..<?n])"
    using commits by (intro arg_cong [where f = sum_list] map_cong) auto
  finally have "sum_list (map ?need [0..<?n]) \<le> ?free"
    using room c0 fits by simp
  moreover have "sum_list (map ?need growing) \<le> sum_list (map ?need [0..<?n])"
    by (rule sum_list_permute_le) (auto simp: growing_def)
  ultimately have need: "sum_list (map ?need growing) \<le> ?free" by simp
  have g0: "g0 ! i \<le> target ! i" if "i < ?n" for i using df that by auto
  have "\<forall>i. granted ! i = (if i \<in> set growing then target ! i else g0 ! i)"
    by (rule increase_reaches_target [OF inc _ _ need]) (use df in \<open>auto simp: growing_def\<close>)
  then have "granted ! i = target ! i" if "i < ?n" for i
    using that g0 [OF that] by (auto simp: growing_def)
  then have "granted = target" using len tl(1) by (intro nth_equalityI) auto
  with ap(1) show ?thesis by simp
qed

theorem allocate_reaches_targets_witness:
  "map h_granted (map (apply_allocation (allocate 40 12 2 example_holders example_policy)) example_holders)
     = allocation_targets 40 12 example_policy example_holders"
proof (rule allocate_reaches_targets)
  show "total_commit example_policy example_holders < 2 ^ 64"
    by (simp add: total_commit_def h_commit_def h_active_def example_holders_def example_policy_def)
  let ?t = "allocation_targets 40 12 example_policy example_holders"
  have "length ?t = 3" and sum: "sum_list ?t \<le> 28"
    using allocation_targets_props [of 40 12 example_policy example_holders] by (simp_all add: example_holders_def)
  then obtain x y z where t: "?t = [x, y, z]" by (auto simp: numeral_3_eq_3 length_Suc_conv)
  have c: "map (h_commit example_policy) example_holders = [8, 0, 1]"
    by (simp add: h_commit_def h_active_def example_holders_def example_policy_def)
  have "map (\<lambda>i. max (h_commit example_policy (example_holders ! i)) (?t ! i)) [0..<length example_holders]
      = [max 8 x, max 0 y, max 1 z]"
    using c unfolding t by (simp add: example_holders_def upt_rec)
  then show "sum_list (map (\<lambda>i. max (h_commit example_policy (example_holders ! i)) (?t ! i))
      [0..<length example_holders]) \<le> 40 - 2"
    using sum unfolding t by simp
qed (simp_all add: example_holders_def)

end
