(* ===== verification/Quota_Admission.thy ===== *)
theory Quota_Admission
  imports Quota Capacity "HOL-Library.AList"
begin

text \<open>
  Admission within a quota: \<open>crates/queryflux-persistence/src/quota_admission.rs\<close>. Every operation
  is one step, except the demand report, whose two halves (collecting the reports, applying the
  answer) are separate steps, so that other operations run while the request is under way. The
  wrapped lease store and the answers of the quota source are parameters; wake-ups of waiting
  tasks carry no state and are left out. A \<open>u64\<close> is a natural number, with the wrap-around of the
  one sum that can overflow. Instants are in nanoseconds.
\<close>

section \<open>State\<close>

definition WAITING_TTL :: duration where "WAITING_TTL = 5 * 10 ^ 9"
definition IDLE_TTL :: duration where "IDLE_TTL = 60 * 10 ^ 9"
definition FAST_REPORT :: duration where "FAST_REPORT = 250 * 10 ^ 6"
definition PROBE_INTERVAL :: duration where "PROBE_INTERVAL = 30 * 10 ^ 9"

record ClusterQuota =
  cq_quota :: nat
  cq_seq :: nat
  cq_valid_until_ms :: nat
  cq_running :: nat
  cq_max :: nat
  cq_waiting :: "(string \<times> instant) list"
  cq_last_active :: "instant option"

definition ClusterQuota_default :: ClusterQuota where
  "ClusterQuota_default = \<lparr>cq_quota = 0, cq_seq = 0, cq_valid_until_ms = 0, cq_running = 0, cq_max = 0,
     cq_waiting = [], cq_last_active = None\<rparr>"

record 'st Admission =
  qa_inner :: 'st
  qa_instance_id :: string
  qa_enabled :: bool
  qa_probe :: bool
  qa_report_interval_ms :: nat
  qa_clusters :: "(string \<times> ClusterQuota) list"
  qa_on_quota :: "(string \<times> string) list"
  qa_epoch :: instant

definition Admission_new :: "'st \<Rightarrow> string \<Rightarrow> instant \<Rightarrow> 'st Admission" where
  "Admission_new st inst now =
     \<lparr>qa_inner = st, qa_instance_id = inst, qa_enabled = False, qa_probe = False,
      qa_report_interval_ms = 1000, qa_clusters = [], qa_on_quota = [], qa_epoch = now\<rparr>"

section \<open>Policy\<close>

definition clamp :: "nat \<Rightarrow> nat \<Rightarrow> nat \<Rightarrow> nat" where
  "clamp lo hi x = (if x < lo then lo else if x > hi then hi else x)"

definition set_policy :: "'st Admission \<Rightarrow> bool \<Rightarrow> duration \<Rightarrow> 'st Admission" where
  "set_policy a en interval =
     a\<lparr>qa_report_interval_ms := clamp 100 60000 (interval div 10 ^ 6), qa_enabled := en\<rparr>"

definition follow_source :: "'st Admission \<Rightarrow> 'st Admission" where
  "follow_source a = a\<lparr>qa_probe := True\<rparr>"

text \<open>The answer of the source to an empty report.\<close>

definition probe_source :: "'st Admission \<Rightarrow> QuotaResponse option result \<Rightarrow> 'st Admission" where
  "probe_source a answer =
     (case answer of
        Inr (Some resp) \<Rightarrow> set_policy a True (qr_report_interval_ms resp * 10 ^ 6)
      | Inr None \<Rightarrow> a
      | Inl e \<Rightarrow> a)"

definition now_ms :: "'st Admission \<Rightarrow> instant \<Rightarrow> nat" where
  "now_ms a now = (now - qa_epoch a) div 10 ^ 6"

section \<open>Clusters\<close>

definition cluster :: "'st Admission \<Rightarrow> string \<Rightarrow> ClusterQuota" where
  "cluster a name = (case map_of (qa_clusters a) name of Some c \<Rightarrow> c | None \<Rightarrow> ClusterQuota_default)"

definition put_cluster :: "string \<Rightarrow> ClusterQuota \<Rightarrow> 'st Admission \<Rightarrow> 'st Admission" where
  "put_cluster name c a = a\<lparr>qa_clusters := AList.update name c (qa_clusters a)\<rparr>"

definition admit_on_quota :: "nat \<Rightarrow> ClusterQuota \<Rightarrow> bool \<times> ClusterQuota" where
  "admit_on_quota now' c =
     (if cq_valid_until_ms c \<le> now' then (False, c)
      else if cq_running c < cq_quota c then (True, c\<lparr>cq_running := cq_running c + 1\<rparr>)
      else (False, c))"

definition qa_snapshot :: "'st Admission \<Rightarrow> string \<Rightarrow> (nat \<times> nat \<times> nat) option" where
  "qa_snapshot a name =
     map_option (\<lambda>c. (cq_quota c, cq_running c, length (cq_waiting c))) (map_of (qa_clusters a) name)"

section \<open>Acquire and release\<close>

definition qa_try_acquire ::
  "'st CapacityOps \<Rightarrow> 'st Admission \<Rightarrow> instant \<Rightarrow> string \<Rightarrow> u64 \<Rightarrow> string \<Rightarrow> string \<Rightarrow> bool result \<times> 'st Admission" where
  "qa_try_acquire ops a now name mx inst query_id =
     (let quotas = qa_enabled a \<and> mx \<noteq> -1;
          c0 = (cluster a name)\<lparr>cq_max := unat mx, cq_last_active := Some now\<rparr>;
          (ok, c1) = (if quotas then admit_on_quota (now_ms a now) c0 else (False, c0))
      in if quotas \<and> ok then
           let was_waiting = (map_of (cq_waiting c1) query_id \<noteq> None);
               a1 = (put_cluster name (c1\<lparr>cq_waiting := AList.delete query_id (cq_waiting c1)\<rparr>) a)
                      \<lparr>qa_on_quota := AList.update query_id name (qa_on_quota a)\<rparr>;
               a2 = (if was_waiting then a1\<lparr>qa_inner := snd (cap_release ops (qa_inner a1) name query_id)\<rparr> else a1)
           in (Inr True, a2)
         else
           (case cap_try_acquire ops (qa_inner a) name mx inst query_id of
              (granted, st) \<Rightarrow>
                let a1 = a\<lparr>qa_inner := st\<rparr> in
                if quotas then
                  let c2 = (if granted = Inr True then c1\<lparr>cq_waiting := AList.delete query_id (cq_waiting c1)\<rparr>
                            else c1\<lparr>cq_waiting := AList.update query_id now (cq_waiting c1)\<rparr>)
                  in (granted, put_cluster name c2 a1)
                else (granted, a1)))"

definition qa_release :: "'st CapacityOps \<Rightarrow> 'st Admission \<Rightarrow> string \<Rightarrow> string \<Rightarrow> unit result \<times> 'st Admission" where
  "qa_release ops a name query_id =
     (case map_of (qa_on_quota a) query_id of
        Some cl \<Rightarrow>
          let a1 = a\<lparr>qa_on_quota := AList.delete query_id (qa_on_quota a)\<rparr> in
          (Inr (), case map_of (qa_clusters a) cl of
                     Some c \<Rightarrow> put_cluster cl (c\<lparr>cq_running := cq_running c - 1\<rparr>) a1
                   | None \<Rightarrow> a1)
      | None \<Rightarrow>
          (case cap_release ops (qa_inner a) name query_id of (r, st) \<Rightarrow> (r, a\<lparr>qa_inner := st\<rparr>)))"

fun qa_release_loop ::
  "'st CapacityOps \<Rightarrow> 'st Admission \<Rightarrow> lease list \<Rightarrow> lease list \<Rightarrow> unit result \<times> 'st Admission" where
  "qa_release_loop ops a rest [] =
     (case cap_release_many ops (qa_inner a) rest of (r, st) \<Rightarrow> (r, a\<lparr>qa_inner := st\<rparr>))"
| "qa_release_loop ops a rest ((cl, q) # ls) =
     (if map_of (qa_on_quota a) q \<noteq> None then
        (case qa_release ops a cl q of
           (Inl e, a') \<Rightarrow> (Inl e, a')
         | (Inr _, a') \<Rightarrow> qa_release_loop ops a' rest ls)
      else qa_release_loop ops a (rest @ [(cl, q)]) ls)"

definition qa_release_many :: "'st CapacityOps \<Rightarrow> 'st Admission \<Rightarrow> lease list \<Rightarrow> unit result \<times> 'st Admission" where
  "qa_release_many ops a leases = qa_release_loop ops a [] leases"

text \<open>The check of \<open>wait_for_grant\<close> before it waits: a slot is free on a valid quota.\<close>

definition grant_available :: "'st Admission \<Rightarrow> instant \<Rightarrow> string \<Rightarrow> bool" where
  "grant_available a now name \<longleftrightarrow>
     qa_enabled a \<and> cq_valid_until_ms (cluster a name) > now_ms a now
     \<and> cq_running (cluster a name) < cq_quota (cluster a name)"

section \<open>Reporting demand\<close>

definition refresh_cluster :: "instant \<Rightarrow> ClusterQuota \<Rightarrow> ClusterQuota" where
  "refresh_cluster now c =
     (let waiting = filter (\<lambda>(_, t). saturating_duration_since now t < WAITING_TTL) (cq_waiting c);
          c1 = c\<lparr>cq_waiting := waiting\<rparr>
      in if cq_running c > 0 \<or> waiting \<noteq> [] \<or> cq_quota c > 0 then c1\<lparr>cq_last_active := Some now\<rparr> else c1)"

definition is_idle :: "instant \<Rightarrow> ClusterQuota \<Rightarrow> bool" where
  "is_idle now c =
     (case cq_last_active c of None \<Rightarrow> True | Some t \<Rightarrow> saturating_duration_since now t > IDLE_TTL)"

definition demand_of :: "string \<Rightarrow> ClusterQuota \<Rightarrow> DemandReport" where
  "demand_of name c = \<lparr>dr_cluster = name, dr_running = cq_running c, dr_waiting = length (cq_waiting c),
     dr_seen_seq = cq_seq c, dr_max_running_queries = cq_max c\<rparr>"

definition report_collect :: "'st Admission \<Rightarrow> instant \<Rightarrow> DemandReport list \<times> 'st Admission" where
  "report_collect a now =
     (let cs = map (\<lambda>(k, c). (k, refresh_cluster now c)) (qa_clusters a);
          reports = map (\<lambda>(k, c). demand_of k c) (filter (\<lambda>(_, c). \<not> is_idle now c) cs);
          kept = filter (\<lambda>(_, c). \<not> (is_idle now c \<and> cq_running c = 0)) cs
      in (reports, a\<lparr>qa_clusters := kept\<rparr>))"

definition grant_for :: "QuotaGrant list \<Rightarrow> string \<Rightarrow> nat \<times> nat" where
  "grant_for grants name =
     (case map_of (rev (map (\<lambda>g. (qg_cluster g, (qg_quota g, qg_seq g))) grants)) name of
        Some x \<Rightarrow> x | None \<Rightarrow> (0, 0))"

definition apply_grant :: "QuotaGrant list \<Rightarrow> nat \<Rightarrow> DemandReport \<Rightarrow> 'st Admission \<Rightarrow> 'st Admission" where
  "apply_grant grants until r a =
     (let (quota, seq) = grant_for grants (dr_cluster r);
          c = cluster a (dr_cluster r)
      in put_cluster (dr_cluster r) (c\<lparr>cq_quota := quota, cq_seq := seq, cq_valid_until_ms := until\<rparr>) a)"

definition report_apply ::
  "'st Admission \<Rightarrow> nat \<Rightarrow> DemandReport list \<Rightarrow> QuotaResponse option result \<Rightarrow> bool \<times> 'st Admission" where
  "report_apply a sent_ms reports answer =
     (case answer of
        Inr (Some resp) \<Rightarrow>
          let a1 = (if qa_probe a
                    then a\<lparr>qa_report_interval_ms := clamp 100 60000 (qr_report_interval_ms resp)\<rparr> else a);
              until = (sent_ms + min u64_max (qr_lease_secs resp * 1000)) mod 2 ^ 64
          in (True, fold (apply_grant (qr_grants resp) until) reports a1)
      | Inr None \<Rightarrow>
          (False, a\<lparr>qa_enabled := False,
                    qa_clusters := map (\<lambda>(k, c). (k, c\<lparr>cq_valid_until_ms := 0\<rparr>)) (qa_clusters a)\<rparr>)
      | Inl e \<Rightarrow> (True, a))"

definition reporter_interval :: "'st Admission \<Rightarrow> duration" where
  "reporter_interval a =
     (let waiting = list_ex (\<lambda>(_, c). cq_waiting c \<noteq> []) (qa_clusters a);
          base = qa_report_interval_ms a * 10 ^ 6
      in if \<not> qa_enabled a then PROBE_INTERVAL
         else if waiting then min base FAST_REPORT else base)"

definition qa_shutdown :: "('st \<Rightarrow> string \<Rightarrow> nat result \<times> 'st) \<Rightarrow> 'st Admission \<Rightarrow> string \<Rightarrow> nat result \<times> 'st Admission" where
  "qa_shutdown release_all a inst =
     (case release_all (qa_inner a) inst of
        (r, st) \<Rightarrow> (r, a\<lparr>qa_enabled := False, qa_inner := st\<rparr>))"

text \<open>One report, with the instants at which it is collected and sent; an empty report is not sent.\<close>

definition report_now ::
  "'st Admission \<Rightarrow> instant \<Rightarrow> instant \<Rightarrow> QuotaResponse option result \<Rightarrow> bool \<times> 'st Admission" where
  "report_now a now sent answer =
     (case report_collect a now of
        (reports, a1) \<Rightarrow> if reports = [] then (True, a1) else report_apply a1 (now_ms a1 sent) reports answer)"

section \<open>Runs\<close>

text \<open>
  A run interleaves admissions, releases, policy changes and the two halves of reports, whose
  answers are arbitrary. A query id asks for a slot only while it holds none on quota, as the
  dispatcher does: it stops asking once it is admitted.
\<close>

inductive qa_step :: "'st CapacityOps \<Rightarrow> 'st Admission \<Rightarrow> 'st Admission \<Rightarrow> bool" for ops where
  policy: "qa_step ops a (set_policy a en d)"
| follow: "qa_step ops a (follow_source a)"
| probe: "qa_step ops a (probe_source a answer)"
| acquire: "map_of (qa_on_quota a) q = None \<Longrightarrow> qa_step ops a (snd (qa_try_acquire ops a now n mx inst q))"
| release: "qa_step ops a (snd (qa_release ops a n q))"
| release_many: "qa_step ops a (snd (qa_release_many ops a ls))"
| collect: "qa_step ops a (snd (report_collect a now))"
| apply_answer: "qa_step ops a (snd (report_apply a sent reports answer))"
| shutdown: "qa_step ops a (snd (qa_shutdown ra a inst))"

inductive qa_reachable :: "'st CapacityOps \<Rightarrow> 'st Admission \<Rightarrow> bool" for ops where
  start: "qa_reachable ops (Admission_new st inst now)"
| step: "qa_reachable ops a \<Longrightarrow> qa_step ops a a' \<Longrightarrow> qa_reachable ops a'"

definition on_quota_count :: "'st Admission \<Rightarrow> string \<Rightarrow> nat" where
  "on_quota_count a k = length (filter (\<lambda>(_, c). c = k) (qa_on_quota a))"

abbreviation running_on :: "'st Admission \<Rightarrow> string \<Rightarrow> nat" where
  "running_on a k \<equiv> cq_running (cluster a k)"

definition qa_inv :: "'st Admission \<Rightarrow> bool" where
  "qa_inv a \<longleftrightarrow> distinct (map fst (qa_clusters a)) \<and> distinct (map fst (qa_on_quota a))
     \<and> (\<forall>k. running_on a k = on_quota_count a k)"

section \<open>The accounting of running queries\<close>

lemma cluster_put_cluster [simp]: "cluster (put_cluster n c a) k = (if k = n then c else cluster a k)"
  by (simp add: cluster_def put_cluster_def update_conv')

lemma put_cluster_sel [simp]:
  "qa_on_quota (put_cluster n c a) = qa_on_quota a"
  "qa_inner (put_cluster n c a) = qa_inner a"
  "qa_enabled (put_cluster n c a) = qa_enabled a"
  "qa_probe (put_cluster n c a) = qa_probe a"
  "qa_clusters (put_cluster n c a) = AList.update n c (qa_clusters a)"
  by (simp_all add: put_cluster_def)

lemma cluster_upd [simp]:
  "cluster (a\<lparr>qa_inner := st\<rparr>) k = cluster a k"
  "cluster (a\<lparr>qa_on_quota := oq\<rparr>) k = cluster a k"
  "cluster (a\<lparr>qa_enabled := e\<rparr>) k = cluster a k"
  "cluster (a\<lparr>qa_probe := e\<rparr>) k = cluster a k"
  "cluster (a\<lparr>qa_report_interval_ms := ri\<rparr>) k = cluster a k"
  by (simp_all add: cluster_def)

lemma on_quota_count_cong: "qa_on_quota a = qa_on_quota b \<Longrightarrow> on_quota_count a k = on_quota_count b k"
  by (simp add: on_quota_count_def)

lemma qa_inv_cong:
  assumes "qa_inv a" "distinct (map fst (qa_clusters b))" "qa_on_quota b = qa_on_quota a"
    and "\<And>k. running_on b k = running_on a k"
  shows "qa_inv b"
  using assms by (simp add: qa_inv_def on_quota_count_def)

lemma count_update_new:
  "map_of xs q = None \<Longrightarrow>
   length (filter (\<lambda>(_, c). c = k) (AList.update q n xs)) =
   length (filter (\<lambda>(_, c). c = k) xs) + (if k = n then 1 else 0)"
  by (induction xs) (auto split: if_splits)

lemma delete_absent: "q \<notin> fst ` set xs \<Longrightarrow> AList.delete q xs = xs"
  by (induction xs) auto

lemma count_delete:
  assumes "distinct (map fst xs)" "map_of xs q = Some n"
  shows "length (filter (\<lambda>(_, c). c = k) xs) =
         length (filter (\<lambda>(_, c). c = k) (AList.delete q xs)) + (if k = n then 1 else 0)"
  using assms
proof (induction xs)
  case (Cons x xs)
  obtain q' c' where x: "x = (q', c')" by (cases x)
  show ?case
  proof (cases "q' = q")
    case True
    then have "AList.delete q xs = xs" using Cons.prems x by (intro delete_absent) auto
    then show ?thesis using Cons.prems x True by auto
  next
    case False
    then show ?thesis using Cons x by auto
  qed
qed simp

lemma qa_inv_new: "qa_inv (Admission_new st inst now)"
  by (simp add: qa_inv_def Admission_new_def cluster_def ClusterQuota_default_def on_quota_count_def)

text \<open>An acquisition is either admitted on quota, or left to the wrapped store.\<close>

definition admits_on_quota :: "'st Admission \<Rightarrow> instant \<Rightarrow> string \<Rightarrow> u64 \<Rightarrow> bool" where
  "admits_on_quota a now n mx \<longleftrightarrow> qa_enabled a \<and> mx \<noteq> -1
     \<and> now_ms a now < cq_valid_until_ms (cluster a n) \<and> running_on a n < cq_quota (cluster a n)"

lemma qa_try_acquire_on_quota:
  assumes "admits_on_quota a now n mx" and "qa_try_acquire ops a now n mx inst q = (r, a')"
  shows "r = Inr True"
    and "qa_on_quota a' = AList.update q n (qa_on_quota a)"
    and "running_on a' k = running_on a k + (if k = n then 1 else 0)"
    and "cq_quota (cluster a' k) = cq_quota (cluster a k)"
    and "distinct (map fst (qa_clusters a)) \<Longrightarrow> distinct (map fst (qa_clusters a'))"
    and "map_of (cq_waiting (cluster a n)) q = None \<Longrightarrow> qa_inner a' = qa_inner a"
  using assms
  by (auto simp: admits_on_quota_def qa_try_acquire_def admit_on_quota_def Let_def distinct_update)

lemma qa_try_acquire_off_quota:
  assumes "\<not> admits_on_quota a now n mx" and "qa_try_acquire ops a now n mx inst q = (r, a')"
  shows "cap_try_acquire ops (qa_inner a) n mx inst q = (r, qa_inner a')"
    and "qa_on_quota a' = qa_on_quota a"
    and "running_on a' k = running_on a k"
    and "cq_quota (cluster a' k) = cq_quota (cluster a k)"
    and "distinct (map fst (qa_clusters a)) \<Longrightarrow> distinct (map fst (qa_clusters a'))"
  using assms
  by (auto simp: admits_on_quota_def qa_try_acquire_def admit_on_quota_def Let_def distinct_update
           split: prod.splits if_splits)

lemma qa_inv_try_acquire:
  assumes "qa_inv a" "map_of (qa_on_quota a) q = None"
  shows "qa_inv (snd (qa_try_acquire ops a now n mx inst q))"
proof -
  obtain r a' where res: "qa_try_acquire ops a now n mx inst q = (r, a')" by fastforce
  show ?thesis
  proof (cases "admits_on_quota a now n mx")
    case True
    then show ?thesis
      using assms qa_try_acquire_on_quota [OF True res] count_update_new [OF assms(2)] res
      by (simp add: qa_inv_def on_quota_count_def distinct_update)
  next
    case False
    then show ?thesis
      using qa_try_acquire_off_quota [OF False res] assms(1) res
      by (intro qa_inv_cong [OF assms(1)]) (simp_all add: qa_inv_def)
  qed
qed

lemma qa_release_on_quota:
  assumes "map_of (qa_on_quota a) q = Some c" and "qa_release ops a n q = (r, a')"
  shows "r = Inr ()"
    and "qa_on_quota a' = AList.delete q (qa_on_quota a)"
    and "qa_inner a' = qa_inner a"
    and "running_on a' k = running_on a k - (if k = c then 1 else 0)"
    and "distinct (map fst (qa_clusters a)) \<Longrightarrow> distinct (map fst (qa_clusters a'))"
  using assms
  by (auto simp: qa_release_def Let_def distinct_update cluster_def ClusterQuota_default_def update_conv'
           split: option.splits)

lemma qa_release_off_quota:
  assumes "map_of (qa_on_quota a) q = None"
  shows "qa_release ops a n q =
    (fst (cap_release ops (qa_inner a) n q), a\<lparr>qa_inner := snd (cap_release ops (qa_inner a) n q)\<rparr>)"
  using assms by (simp add: qa_release_def split: prod.splits)

lemma qa_inv_inner [simp]: "qa_inv (a\<lparr>qa_inner := st\<rparr>) = qa_inv a"
  by (simp add: qa_inv_def on_quota_count_def)

lemma qa_inv_release:
  assumes "qa_inv a"
  shows "qa_inv (snd (qa_release ops a n q))"
proof (cases "map_of (qa_on_quota a) q")
  case None
  then show ?thesis using assms by (simp add: qa_release_off_quota)
next
  case (Some c)
  obtain r a' where res: "qa_release ops a n q = (r, a')" by fastforce
  have "distinct (map fst (qa_on_quota a))" using assms by (simp add: qa_inv_def)
  then show ?thesis
    using assms qa_release_on_quota [OF Some res] count_delete [OF _ Some] res
    by (simp add: qa_inv_def on_quota_count_def distinct_delete)
qed

lemma qa_inv_release_loop: "qa_inv a \<Longrightarrow> qa_inv (snd (qa_release_loop ops a rest ls))"
proof (induction ops a rest ls rule: qa_release_loop.induct)
  case (1 ops a rest)
  then show ?case by (simp split: prod.splits)
next
  case (2 ops a rest cl q ls)
  show ?case
  proof (cases "map_of (qa_on_quota a) q")
    case None
    then show ?thesis using 2 by simp
  next
    case (Some c)
    obtain r a' where r: "qa_release ops a cl q = (r, a')" by fastforce
    then have "qa_inv a'" using qa_inv_release [OF 2(3), of ops cl q] by simp
    moreover have "r = Inr ()" using qa_release_on_quota(1) [OF Some r] .
    ultimately show ?thesis using 2(1) Some r by simp
  qed
qed
lemma map_of_filter_None:
  "k \<notin> fst ` set xs \<Longrightarrow> map_of (filter P xs) k = None"
  by (auto simp: map_of_eq_None_iff)

lemma map_of_map_filter:
  assumes "distinct (map fst xs)"
  shows "map_of (filter (\<lambda>(_, c). P c) (map (\<lambda>(k, c). (k, f c)) xs)) k =
    (case map_of xs k of Some c \<Rightarrow> if P (f c) then Some (f c) else None | None \<Rightarrow> None)"
  using assms
proof (induction xs)
  case (Cons x xs)
  obtain k' c where x: "x = (k', c)" by (cases x)
  show ?case
  proof (cases "k = k'")
    case True
    then have "map_of xs k = None" using Cons.prems x by (auto simp: map_of_eq_None_iff)
    then show ?thesis using Cons x True by simp
  next
    case False
    then show ?thesis using Cons x by simp
  qed
qed simp

lemma refresh_cluster_sel [simp]:
  "cq_running (refresh_cluster now c) = cq_running c"
  "cq_quota (refresh_cluster now c) = cq_quota c"
  "cq_valid_until_ms (refresh_cluster now c) = cq_valid_until_ms c"
  "cq_seq (refresh_cluster now c) = cq_seq c"
  by (simp_all add: refresh_cluster_def Let_def)

lemma report_collect_running:
  assumes "distinct (map fst (qa_clusters a))"
  shows "running_on (snd (report_collect a now)) k = running_on a k"
  using map_of_map_filter [OF assms, where f = "refresh_cluster now"
      and P = "\<lambda>c. \<not> (is_idle now c \<and> cq_running c = 0)" and k = k]
  by (simp add: report_collect_def Let_def cluster_def ClusterQuota_default_def split: option.splits)

lemma distinct_fst_map_filter:
  "distinct (map fst xs) \<Longrightarrow> distinct (map fst (filter P (map (\<lambda>(k, c). (k, f c)) xs)))"
  by (induction xs) (auto simp: image_def split: prod.splits)

lemma qa_inv_collect:
  assumes "qa_inv a"
  shows "qa_inv (snd (report_collect a now))"
proof (rule qa_inv_cong [OF assms])
  have d: "distinct (map fst (qa_clusters a))" using assms by (simp add: qa_inv_def)
  show "running_on (snd (report_collect a now)) k = running_on a k" for k
    using d by (rule report_collect_running)
  show "distinct (map fst (qa_clusters (snd (report_collect a now))))"
    using distinct_fst_map_filter [OF d, of _ "refresh_cluster now"] by (simp add: report_collect_def Let_def)
  show "qa_on_quota (snd (report_collect a now)) = qa_on_quota a"
    by (simp add: report_collect_def Let_def)
qed

lemma apply_grant_frame:
  "running_on (apply_grant gs until r a) k = running_on a k"
  "qa_on_quota (apply_grant gs until r a) = qa_on_quota a"
  "distinct (map fst (qa_clusters a)) \<Longrightarrow> distinct (map fst (qa_clusters (apply_grant gs until r a)))"
  by (simp_all add: apply_grant_def Let_def distinct_update split: prod.splits)

lemma qa_inv_apply_grant: "qa_inv a \<Longrightarrow> qa_inv (apply_grant gs until r a)"
  by (rule qa_inv_cong [where a = a]) (simp_all add: apply_grant_frame qa_inv_def)

lemma qa_inv_apply_grants: "qa_inv a \<Longrightarrow> qa_inv (fold (apply_grant gs until) rs a)"
  by (induction rs arbitrary: a) (simp_all add: qa_inv_apply_grant)

lemma qa_inv_upd [simp]:
  "qa_inv (a\<lparr>qa_report_interval_ms := ri\<rparr>) = qa_inv a"
  "qa_inv (a\<lparr>qa_enabled := e\<rparr>) = qa_inv a"
  "qa_inv (a\<lparr>qa_probe := e\<rparr>) = qa_inv a"
  by (simp_all add: qa_inv_def on_quota_count_def)

lemma map_of_map_snd: "map_of (map (\<lambda>(k, c). (k, f c)) xs) k = map_option f (map_of xs k)"
  by (induction xs) auto

lemma qa_inv_invalidate:
  assumes "qa_inv a"
  shows "qa_inv (a\<lparr>qa_enabled := False,
    qa_clusters := map (\<lambda>(k, c). (k, c\<lparr>cq_valid_until_ms := 0\<rparr>)) (qa_clusters a)\<rparr>)"
proof (rule qa_inv_cong [OF assms], goal_cases)
  case 1
  then show ?case
    using assms distinct_fst_map_filter [of "qa_clusters a" "\<lambda>_. True"] by (simp add: qa_inv_def)
next
  case (3 k)
  then show ?case
    by (simp add: cluster_def map_of_map_snd ClusterQuota_default_def split: option.splits)
qed simp

lemma qa_inv_report_apply: "qa_inv a \<Longrightarrow> qa_inv (snd (report_apply a sent rs answer))"
  using qa_inv_invalidate [of a]
  by (auto simp: report_apply_def Let_def qa_inv_apply_grants split: sum.splits option.splits)

lemma qa_inv_step:
  assumes "qa_step ops a a'" "qa_inv a"
  shows "qa_inv a'"
  using assms
proof cases
  case (probe answer)
  then show ?thesis using assms(2)
    by (auto simp: probe_source_def set_policy_def split: sum.splits option.splits)
qed (simp_all add: set_policy_def follow_source_def qa_inv_try_acquire qa_inv_release qa_release_many_def
       qa_inv_release_loop qa_inv_collect qa_inv_report_apply qa_shutdown_def split: prod.splits)

lemma qa_reachable_inv: "qa_reachable ops a \<Longrightarrow> qa_inv a"
  by (induction rule: qa_reachable.induct) (simp_all add: qa_inv_new qa_inv_step)

section \<open>Properties\<close>

text \<open>
  Claim C17. In every run, with any answers of the quota source, any store below and any
  interleaving of reports, the \<open>running\<close> counter of a cluster is exactly the number of queries
  admitted on its quota and not released yet: no slot of a quota is leaked or handed back twice,
  also when an idle cluster is forgotten.
\<close>

theorem quota_running_exact:
  assumes "qa_reachable ops a"
  shows "cq_running (cluster a k) = on_quota_count a k"
  using qa_reachable_inv [OF assms] by (simp add: qa_inv_def)

definition quota_demo :: "unit Admission" where
  "quota_demo =
     snd (report_apply (set_policy (Admission_new () ''p1'' 0) True (10 ^ 9)) 0
       [\<lparr>dr_cluster = ''c'', dr_running = 0, dr_waiting = 1, dr_seen_seq = 0, dr_max_running_queries = 5\<rparr>]
       (Inr (Some \<lparr>qr_grants = [\<lparr>qg_cluster = ''c'', qg_quota = 1, qg_seq = 1\<rparr>], qr_lease_secs = 10,
          qr_report_interval_ms = 1000\<rparr>)))"

lemma quota_demo_reachable: "qa_reachable ops quota_demo"
  unfolding quota_demo_def
  by (rule qa_reachable.step [OF qa_reachable.step [OF qa_reachable.start qa_step.policy] qa_step.apply_answer])

lemma quota_demo_simps:
  "cq_quota (cluster quota_demo ''c'') = 1" "running_on quota_demo ''c'' = 0"
  "cq_valid_until_ms (cluster quota_demo ''c'') = 10000" "qa_enabled quota_demo"
  "qa_epoch quota_demo = 0" "qa_on_quota quota_demo = []" "qa_inner quota_demo = ()"
  by (simp_all add: quota_demo_def report_apply_def apply_grant_def grant_for_def set_policy_def put_cluster_def
      Admission_new_def cluster_def ClusterQuota_default_def Let_def)

lemma quota_demo_admits: "admits_on_quota quota_demo 0 ''c'' 5"
  by (simp add: admits_on_quota_def quota_demo_simps now_ms_def)

theorem quota_running_exact_witness:
  "cq_running (cluster (snd (qa_try_acquire in_memory_capacity quota_demo 0 ''c'' 5 ''p1'' ''q1'')) ''c'') = 1
   \<and> on_quota_count (snd (qa_try_acquire in_memory_capacity quota_demo 0 ''c'' 5 ''p1'' ''q1'')) ''c'' = 1"
proof -
  let ?a = "snd (qa_try_acquire in_memory_capacity quota_demo 0 ''c'' 5 ''p1'' ''q1'')"
  have "qa_reachable in_memory_capacity ?a"
    by (rule qa_reachable.step [OF quota_demo_reachable qa_step.acquire]) (simp add: quota_demo_simps)
  then have "cq_running (cluster ?a ''c'') = on_quota_count ?a ''c''" by (rule quota_running_exact)
  moreover have "on_quota_count ?a ''c'' = 1"
    using qa_try_acquire_on_quota(2) [OF quota_demo_admits prod.collapse [symmetric]]
    by (simp add: on_quota_count_def quota_demo_simps)
  ultimately show ?thesis by simp
qed

text \<open>
  Claim C21. Admission: a query takes a slot of the quota exactly when quotas are on, the cluster is
  limited, the grant is still valid and a slot of it is free, and then the queries running on the
  quota stay within it. In every other case the answer and the effect on the lease store are
  those of the store's own \<open>try_acquire\<close>, and no counter moves.
\<close>

theorem quota_admission_spec:
  assumes "qa_try_acquire ops a now n mx inst q = (r, a')"
  shows "if qa_enabled a \<and> mx \<noteq> -1 \<and> now_ms a now < cq_valid_until_ms (cluster a n)
            \<and> cq_running (cluster a n) < cq_quota (cluster a n)
         then r = Inr True \<and> map_of (qa_on_quota a') q = Some n
              \<and> cq_running (cluster a' n) = cq_running (cluster a n) + 1
              \<and> cq_running (cluster a' n) \<le> cq_quota (cluster a' n)
         else cap_try_acquire ops (qa_inner a) n mx inst q = (r, qa_inner a')
              \<and> qa_on_quota a' = qa_on_quota a
              \<and> (\<forall>k. cq_running (cluster a' k) = cq_running (cluster a k))"
proof (cases "admits_on_quota a now n mx")
  case True
  note on = qa_try_acquire_on_quota [OF True assms]
  show ?thesis using True on by (simp add: admits_on_quota_def update_conv')
next
  case False
  note off = qa_try_acquire_off_quota [OF False assms]
  show ?thesis using False off by (simp add: admits_on_quota_def)
qed

theorem quota_admission_spec_witness:
  "map_of (qa_on_quota (snd (qa_try_acquire in_memory_capacity quota_demo 0 ''c'' 5 ''p1'' ''q1''))) ''q1'' = Some ''c''"
  using quota_admission_spec [of in_memory_capacity quota_demo 0 "''c''" 5 "''p1''" "''q1''", OF prod.collapse [symmetric]]
  by (simp add: quota_demo_simps now_ms_def)

text \<open>
  After an answer without quotas every admission is left to the lease store, whatever was
  granted before, until the policy turns quotas on again.
\<close>

lemma no_quotas_defers:
  "fst (qa_try_acquire ops (snd (report_apply a sent rs (Inr None))) now n mx inst q) =
   fst (cap_try_acquire ops (qa_inner a) n mx inst q)"
  by (simp add: report_apply_def qa_try_acquire_def Let_def split: prod.splits)

text \<open>Invalidated grants stay unusable even when quotas come back on before the next report.\<close>

lemma no_quotas_invalidates:
  "\<not> admits_on_quota (set_policy (snd (report_apply a sent rs (Inr None))) True d) now n mx"
  by (auto simp: admits_on_quota_def set_policy_def report_apply_def cluster_def map_of_map_snd
      ClusterQuota_default_def split: option.splits)

end
