(* ===== verification/Routers.thy ===== *)
theory Routers
  imports Session
begin

text \<open>
  The router chain and its routers: \<open>crates/queryflux-routing/src\<close> (\<open>lib.rs\<close>, \<open>chain.rs\<close> and
  \<open>implementations/*.rs\<close>) with their configuration types of \<open>queryflux-core/src/config.rs\<close>.
  The \<open>regex\<close> crate and the Python interpreter are the parameters of \<open>engines\<close>: which patterns
  compile, what a compiled pattern (identified by its text) matches, and how running a routing
  script on a query and its context ends. A panic of the blocking task is not modelled.
\<close>

section \<open>Decisions and routers\<close>

datatype RoutingDecision = NoMatch | Route ClusterGroupName | Deny string

datatype ChainRouteResult = Routed ClusterGroupName | Denied string

definition decision_from_option :: "ClusterGroupName option \<Rightarrow> RoutingDecision" where
  "decision_from_option v = (case v of Some g \<Rightarrow> Route g | None \<Rightarrow> NoMatch)"

record HeaderRouter =
  header_name :: string
  header_mapping :: "(string \<times> ClusterGroupName) list"

record ProtocolBasedRouter =
  pb_trino_http :: "ClusterGroupName option"
  pb_postgres_wire :: "ClusterGroupName option"
  pb_mysql_wire :: "ClusterGroupName option"
  pb_clickhouse_http :: "ClusterGroupName option"
  pb_flight_sql :: "ClusterGroupName option"
  pb_snowflake_http :: "ClusterGroupName option"
  pb_snowflake_sql_api :: "ClusterGroupName option"
  pb_mcp :: "ClusterGroupName option"

datatype CompoundCombineMode = CombineAll | CombineAny

datatype CompoundCondition =
    Cond_Protocol string
  | Cond_Header string string
  | Cond_User string
  | Cond_ClientTag string
  | Cond_QueryRegex string

datatype CompiledCondition =
    CC_Protocol FrontendProtocol
  | CC_Header string string
  | CC_User string
  | CC_ClientTag string
  | CC_QueryRegex string

record CompoundRouter =
  cr_combine :: CompoundCombineMode
  cr_conditions :: "CompiledCondition list"
  cr_target :: ClusterGroupName

datatype RegexRouteAction = Action_Route | Action_Deny

record QueryRegexRule =
  qr_regex :: string
  qr_target_group :: "string option"
  qr_action :: RegexRouteAction
  qr_error :: "string option"

datatype CompiledAction = CA_Route ClusterGroupName | CA_Deny string

record TagRoutingRule =
  tr_tags :: "(string \<times> string option) list"
  tr_target_group :: ClusterGroupName

datatype Router =
    R_Header HeaderRouter
  | R_ClientTags "(string \<times> ClusterGroupName) list"
  | R_ProtocolBased ProtocolBasedRouter
  | R_UserGroup "(string \<times> ClusterGroupName) list"
  | R_Compound CompoundRouter
  | R_QueryRegex "(string \<times> CompiledAction) list"
  | R_Tags "TagRoutingRule list"
  | R_PythonScript string

text \<open>What a routing script sees, and the ways a run of it can end.\<close>

record RoutingCtx =
  ctx_protocol :: string
  ctx_user :: "string option"
  ctx_database :: "string option"
  ctx_catalog :: "string option"
  ctx_extra :: "(string \<times> string) list"
  ctx_auth :: "(string \<times> string list \<times> string list) option"

datatype PyRoute =
    PR_ScriptError string
  | PR_LookupError string
  | PR_NoFunction
  | PR_CtxError string
  | PR_CallError string
  | PR_None
  | PR_NotString string
  | PR_Group string

record engines =
  rx_valid :: "string \<Rightarrow> bool"
  rx_is_match :: "string \<Rightarrow> string \<Rightarrow> bool"
  py_route :: "string \<Rightarrow> string \<Rightarrow> RoutingCtx \<Rightarrow> PyRoute"

section \<open>Construction\<close>

definition HeaderRouter_new :: "string \<Rightarrow> (string \<times> ClusterGroupName) list \<Rightarrow> HeaderRouter" where
  "HeaderRouter_new name mapping = \<lparr>header_name = to_lowercase name, header_mapping = mapping\<rparr>"

definition protocol_from_config :: "string \<Rightarrow> FrontendProtocol option" where
  "protocol_from_config s =
     (if s = ''trinoHttp'' then Some TrinoHttp
      else if s = ''postgresWire'' then Some PostgresWire
      else if s = ''mysqlWire'' then Some MySqlWire
      else if s = ''clickhouseHttp'' then Some ClickHouseHttp
      else if s = ''flightSql'' then Some FlightSql
      else if s = ''snowflakeHttp'' then Some SnowflakeHttp
      else if s = ''snowflakeSqlApi'' then Some SnowflakeSqlApi
      else None)"

fun compile_condition :: "engines \<Rightarrow> CompoundCondition \<Rightarrow> CompiledCondition option" where
  "compile_condition eng (Cond_Protocol p) = map_option CC_Protocol (protocol_from_config p)"
| "compile_condition eng (Cond_Header n v) = Some (CC_Header n v)"
| "compile_condition eng (Cond_User u) = Some (CC_User u)"
| "compile_condition eng (Cond_ClientTag t) = Some (CC_ClientTag t)"
| "compile_condition eng (Cond_QueryRegex re) =
     (if rx_valid eng re then Some (CC_QueryRegex re) else None)"

definition CompoundRouter_new ::
  "engines \<Rightarrow> CompoundCombineMode \<Rightarrow> CompoundCondition list \<Rightarrow> string \<Rightarrow> CompoundRouter" where
  "CompoundRouter_new eng combine conditions target =
     \<lparr>cr_combine = combine, cr_conditions = List.map_filter (compile_condition eng) conditions,
      cr_target = target\<rparr>"

definition QueryRegexRouter_new :: "engines \<Rightarrow> (string \<times> string) list \<Rightarrow> (string \<times> CompiledAction) list" where
  "QueryRegexRouter_new eng rules =
     List.map_filter (\<lambda>(pattern, grp). if rx_valid eng pattern then Some (pattern, CA_Route grp) else None) rules"

definition DEFAULT_DENY :: string where
  "DEFAULT_DENY = ''Query denied by routing rule''"

definition compile_rule :: "engines \<Rightarrow> QueryRegexRule \<Rightarrow> (string \<times> CompiledAction) option" where
  "compile_rule eng rule =
     (if \<not> rx_valid eng (qr_regex rule) then None
      else
        (case qr_action rule of
           Action_Deny \<Rightarrow>
             let message = (case qr_error rule of
                              Some s \<Rightarrow> if trim s \<noteq> [] then s else DEFAULT_DENY
                            | None \<Rightarrow> DEFAULT_DENY)
             in Some (qr_regex rule, CA_Deny message)
         | Action_Route \<Rightarrow>
             (case qr_target_group rule of
                Some g \<Rightarrow> if g \<noteq> [] then Some (qr_regex rule, CA_Route g) else None
              | None \<Rightarrow> None)))"

definition from_rules :: "engines \<Rightarrow> QueryRegexRule list \<Rightarrow> (string \<times> CompiledAction) list" where
  "from_rules eng rules = List.map_filter (compile_rule eng) rules"

text \<open>\<open>validate_pattern\<close> keeps the engine's message as a parameter.\<close>

definition validate_pattern :: "engines \<Rightarrow> (string \<Rightarrow> string) \<Rightarrow> string \<Rightarrow> string + unit" where
  "validate_pattern eng message pattern =
     (if rx_valid eng pattern then Inr () else Inl (''invalid regex: '' @ message pattern))"

section \<open>Routing of one router\<close>

definition header_route :: "HeaderRouter \<Rightarrow> SessionContext \<Rightarrow> RoutingDecision" where
  "header_route r s =
     (case extra_get s (header_name r) of
        Some value \<Rightarrow> decision_from_option (map_of (header_mapping r) value)
      | None \<Rightarrow> NoMatch)"

definition client_tags :: "string \<Rightarrow> string list" where
  "client_tags raw = map trim (split_on (CHR '','') raw)"

fun first_mapped :: "('a \<times> 'b) list \<Rightarrow> 'a list \<Rightarrow> 'b option" where
  "first_mapped m [] = None"
| "first_mapped m (t # ts) = (case map_of m t of Some g \<Rightarrow> Some g | None \<Rightarrow> first_mapped m ts)"

definition client_tags_route :: "(string \<times> ClusterGroupName) list \<Rightarrow> SessionContext \<Rightarrow> RoutingDecision" where
  "client_tags_route tag_to_group s =
     (case extra_get s ''x-trino-client-tags'' of
        Some raw \<Rightarrow> (case first_mapped tag_to_group (client_tags raw) of Some g \<Rightarrow> Route g | None \<Rightarrow> NoMatch)
      | None \<Rightarrow> NoMatch)"

definition protocol_based_route :: "ProtocolBasedRouter \<Rightarrow> FrontendProtocol \<Rightarrow> RoutingDecision" where
  "protocol_based_route r p = decision_from_option
     (case p of
        TrinoHttp \<Rightarrow> pb_trino_http r
      | PostgresWire \<Rightarrow> pb_postgres_wire r
      | MySqlWire \<Rightarrow> pb_mysql_wire r
      | ClickHouseHttp \<Rightarrow> pb_clickhouse_http r
      | FlightSql \<Rightarrow> pb_flight_sql r
      | SnowflakeHttp \<Rightarrow> pb_snowflake_http r
      | SnowflakeSqlApi \<Rightarrow> pb_snowflake_sql_api r
      | Mcp \<Rightarrow> pb_mcp r)"

definition effective_user :: "SessionContext \<Rightarrow> AuthContext option \<Rightarrow> string option" where
  "effective_user s auth = or_else (map_option auth_user auth) (sess_user s)"

definition user_group_route ::
  "(string \<times> ClusterGroupName) list \<Rightarrow> SessionContext \<Rightarrow> AuthContext option \<Rightarrow> RoutingDecision" where
  "user_group_route mapping s auth =
     (case effective_user s auth of
        Some user \<Rightarrow> decision_from_option (map_of mapping user)
      | None \<Rightarrow> NoMatch)"

definition header_equals :: "SessionContext \<Rightarrow> string \<Rightarrow> string \<Rightarrow> bool" where
  "header_equals s name expected \<longleftrightarrow> extra_get s (to_lowercase name) = Some expected"

definition client_tags_contain :: "SessionContext \<Rightarrow> string \<Rightarrow> bool" where
  "client_tags_contain s tag =
     (case extra_get s ''x-trino-client-tags'' of
        None \<Rightarrow> False
      | Some raw \<Rightarrow> list_ex (\<lambda>t. t = tag) (client_tags raw))"

fun eval_one ::
  "engines \<Rightarrow> CompiledCondition \<Rightarrow> string \<Rightarrow> SessionContext \<Rightarrow> FrontendProtocol \<Rightarrow> AuthContext option \<Rightarrow> bool" where
  "eval_one eng (CC_Protocol expected) sql s p auth = (p = expected)"
| "eval_one eng (CC_Header name value) sql s p auth = header_equals s name value"
| "eval_one eng (CC_User username) sql s p auth = (effective_user s auth = Some username)"
| "eval_one eng (CC_ClientTag tag) sql s p auth = client_tags_contain s tag"
| "eval_one eng (CC_QueryRegex re) sql s p auth = rx_is_match eng re sql"

definition compound_matches ::
  "engines \<Rightarrow> CompoundRouter \<Rightarrow> string \<Rightarrow> SessionContext \<Rightarrow> FrontendProtocol \<Rightarrow> AuthContext option \<Rightarrow> bool" where
  "compound_matches eng r sql s p auth =
     (if cr_conditions r = [] then False
      else
        (case cr_combine r of
           CombineAll \<Rightarrow> list_all (\<lambda>c. eval_one eng c sql s p auth) (cr_conditions r)
         | CombineAny \<Rightarrow> list_ex (\<lambda>c. eval_one eng c sql s p auth) (cr_conditions r)))"

definition compound_route ::
  "engines \<Rightarrow> CompoundRouter \<Rightarrow> string \<Rightarrow> SessionContext \<Rightarrow> FrontendProtocol \<Rightarrow> AuthContext option
   \<Rightarrow> RoutingDecision" where
  "compound_route eng r sql s p auth =
     (if compound_matches eng r sql s p auth then Route (cr_target r) else NoMatch)"

fun query_regex_route :: "engines \<Rightarrow> (string \<times> CompiledAction) list \<Rightarrow> string \<Rightarrow> RoutingDecision" where
  "query_regex_route eng [] sql = NoMatch"
| "query_regex_route eng ((re, action) # rules) sql =
     (if rx_is_match eng re sql
      then (case action of CA_Route g \<Rightarrow> Route g | CA_Deny message \<Rightarrow> Deny message)
      else query_regex_route eng rules sql)"

definition rule_matches :: "(string \<times> string option) list \<Rightarrow> QueryTags \<Rightarrow> bool" where
  "rule_matches rule_tags session_tags =
     list_all (\<lambda>(key, expected_val).
       (case map_of session_tags key of
          None \<Rightarrow> False
        | Some actual_val \<Rightarrow>
            (case expected_val of None \<Rightarrow> True | Some expected \<Rightarrow> actual_val = Some expected))) rule_tags"

fun first_tag_rule :: "TagRoutingRule list \<Rightarrow> QueryTags \<Rightarrow> RoutingDecision" where
  "first_tag_rule [] tags = NoMatch"
| "first_tag_rule (rule # rules) tags =
     (if rule_matches (tr_tags rule) tags then Route (tr_target_group rule) else first_tag_rule rules tags)"

definition tags_route :: "TagRoutingRule list \<Rightarrow> SessionContext \<Rightarrow> RoutingDecision" where
  "tags_route rules s = (if sess_tags s = [] then NoMatch else first_tag_rule rules (sess_tags s))"

fun protocol_camel :: "FrontendProtocol \<Rightarrow> string" where
  "protocol_camel TrinoHttp = ''trinoHttp''"
| "protocol_camel PostgresWire = ''postgresWire''"
| "protocol_camel MySqlWire = ''mysqlWire''"
| "protocol_camel ClickHouseHttp = ''clickHouseHttp''"
| "protocol_camel FlightSql = ''flightSql''"
| "protocol_camel SnowflakeHttp = ''snowflakeHttp''"
| "protocol_camel SnowflakeSqlApi = ''snowflakeSqlApi''"
| "protocol_camel Mcp = ''mcp''"

definition build_routing_ctx :: "SessionContext \<Rightarrow> FrontendProtocol \<Rightarrow> AuthContext option \<Rightarrow> RoutingCtx" where
  "build_routing_ctx s p auth =
     \<lparr>ctx_protocol = protocol_camel p, ctx_user = sess_user s, ctx_database = sess_database s,
      ctx_catalog = sess_catalog s, ctx_extra = sess_extra s,
      ctx_auth = map_option (\<lambda>a. (auth_user a, auth_groups a, auth_roles a)) auth\<rparr>"

text \<open>\<open>CString::new\<close> rejects a NUL byte and reports the byte offset of the first one.\<close>

definition nul_error :: "string \<Rightarrow> string option" where
  "nul_error script =
     map_option (\<lambda>i. ''nul byte found in provided data at position: '' @ show_nat (str_len (take i script)))
       (position (\<lambda>c. c = CHR 0x00) script)"

definition call_python_router ::
  "engines \<Rightarrow> string \<Rightarrow> string \<Rightarrow> SessionContext \<Rightarrow> FrontendProtocol \<Rightarrow> AuthContext option
   \<Rightarrow> RoutingDecision result" where
  "call_python_router eng script sql s p auth =
     (case nul_error script of
        Some e \<Rightarrow> Inl (Routing (''Script contains null byte: '' @ e))
      | None \<Rightarrow>
          (case py_route eng script sql (build_routing_ctx s p auth) of
             PR_ScriptError e \<Rightarrow> Inl (Routing (''Python routing script error: '' @ e))
           | PR_LookupError e \<Rightarrow> Inl (Routing (''Script has no 'route' function: '' @ e))
           | PR_NoFunction \<Rightarrow> Inl (Routing ''Script has no 'route' function'')
           | PR_CtxError e \<Rightarrow> Inl (Routing (''Failed to build routing ctx for Python: '' @ e))
           | PR_CallError e \<Rightarrow>
               Inl (Routing (''route(query, ctx) call failed: '' @ e
                 @ '' (expected def route(query: str, ctx: dict) -> str | None)''))
           | PR_None \<Rightarrow> Inr NoMatch
           | PR_NotString e \<Rightarrow> Inl (Routing (''route() must return str or None: '' @ e))
           | PR_Group g \<Rightarrow> Inr (Route g)))"

definition python_router_from_file :: "(string \<Rightarrow> string + string) \<Rightarrow> string \<Rightarrow> string result" where
  "python_router_from_file read_file path =
     (case read_file path of
        Inl e \<Rightarrow> Inl (Routing (''Failed to read routing script '' @ path @ '': '' @ e))
      | Inr script \<Rightarrow> Inr script)"

section \<open>Dispatch on the kind of router\<close>

fun router_type_name :: "Router \<Rightarrow> string" where
  "router_type_name (R_Header _) = ''Header''"
| "router_type_name (R_ClientTags _) = ''ClientTags''"
| "router_type_name (R_ProtocolBased _) = ''ProtocolBased''"
| "router_type_name (R_UserGroup _) = ''UserGroup''"
| "router_type_name (R_Compound _) = ''Compound''"
| "router_type_name (R_QueryRegex _) = ''QueryRegex''"
| "router_type_name (R_Tags _) = ''Tags''"
| "router_type_name (R_PythonScript _) = ''PythonScript''"

fun router_route ::
  "engines \<Rightarrow> string \<Rightarrow> SessionContext \<Rightarrow> FrontendProtocol \<Rightarrow> AuthContext option \<Rightarrow> Router
   \<Rightarrow> RoutingDecision result" where
  "router_route eng sql s p auth (R_Header r) = Inr (header_route r s)"
| "router_route eng sql s p auth (R_ClientTags m) = Inr (client_tags_route m s)"
| "router_route eng sql s p auth (R_ProtocolBased r) = Inr (protocol_based_route r p)"
| "router_route eng sql s p auth (R_UserGroup m) = Inr (user_group_route m s auth)"
| "router_route eng sql s p auth (R_Compound r) = Inr (compound_route eng r sql s p auth)"
| "router_route eng sql s p auth (R_QueryRegex rules) = Inr (query_regex_route eng rules sql)"
| "router_route eng sql s p auth (R_Tags rules) = Inr (tags_route rules s)"
| "router_route eng sql s p auth (R_PythonScript script) = call_python_router eng script sql s p auth"

section \<open>Where a router can send a query\<close>

text \<open>The groups a router's configuration names; for a script, the groups it can answer.\<close>

fun router_targets :: "engines \<Rightarrow> Router \<Rightarrow> ClusterGroupName set" where
  "router_targets eng (R_Header r) = snd ` set (header_mapping r)"
| "router_targets eng (R_ClientTags m) = snd ` set m"
| "router_targets eng (R_ProtocolBased r) =
     \<Union> (set_option ` {pb_trino_http r, pb_postgres_wire r, pb_mysql_wire r, pb_clickhouse_http r,
       pb_flight_sql r, pb_snowflake_http r, pb_snowflake_sql_api r, pb_mcp r})"
| "router_targets eng (R_UserGroup m) = snd ` set m"
| "router_targets eng (R_Compound r) = {cr_target r}"
| "router_targets eng (R_QueryRegex rules) = {g. CA_Route g \<in> snd ` set rules}"
| "router_targets eng (R_Tags rules) = tr_target_group ` set rules"
| "router_targets eng (R_PythonScript script) = {g. \<exists>sql ctx. py_route eng script sql ctx = PR_Group g}"

lemma decision_from_option_Route [simp]: "decision_from_option v = Route g \<longleftrightarrow> v = Some g"
  by (simp add: decision_from_option_def split: option.splits)

lemma first_mapped_in: "first_mapped m ts = Some g \<Longrightarrow> g \<in> snd ` set m"
  by (induction ts) (force split: option.splits dest: map_of_SomeD)+

lemma first_tag_rule_in: "first_tag_rule rules tags = Route g \<Longrightarrow> g \<in> tr_target_group ` set rules"
  by (induction rules) (auto split: if_splits)

lemma query_regex_route_in:
  "query_regex_route eng rules sql = Route g \<Longrightarrow> CA_Route g \<in> snd ` set rules"
  by (induction eng rules sql rule: query_regex_route.induct)
    (force split: if_splits CompiledAction.splits)+

lemma router_route_targets:
  "router_route eng sql s p auth r = Inr (Route g) \<Longrightarrow> g \<in> router_targets eng r"
proof (cases r)
  case (R_PythonScript script)
  moreover assume "router_route eng sql s p auth r = Inr (Route g)"
  ultimately show ?thesis
    by (auto simp: call_python_router_def split: option.splits PyRoute.splits)
next
  case (R_ProtocolBased x)
  moreover assume "router_route eng sql s p auth r = Inr (Route g)"
  ultimately show ?thesis by (auto simp: protocol_based_route_def split: FrontendProtocol.splits)
qed (force simp: header_route_def client_tags_route_def user_group_route_def compound_route_def
    tags_route_def split: option.splits if_splits
    dest: map_of_SomeD first_mapped_in first_tag_rule_in query_regex_route_in)+

section \<open>The regular-expression router\<close>

lemma map_filter_Cons:
  "List.map_filter f (x # xs) = (case f x of None \<Rightarrow> List.map_filter f xs | Some y \<Rightarrow> y # List.map_filter f xs)"
  by (auto simp: List.map_filter_def split: option.splits)

lemma from_rules_Cons:
  "from_rules eng (r # rules) =
     (case compile_rule eng r of None \<Rightarrow> from_rules eng rules | Some x \<Rightarrow> x # from_rules eng rules)"
  by (simp add: from_rules_def map_filter_Cons split: option.splits)

definition deny_message :: "QueryRegexRule \<Rightarrow> string" where
  "deny_message r = (case qr_error r of Some m \<Rightarrow> if trim m = [] then DEFAULT_DENY else m | None \<Rightarrow> DEFAULT_DENY)"

definition usable_rule :: "engines \<Rightarrow> QueryRegexRule \<Rightarrow> bool" where
  "usable_rule eng r \<longleftrightarrow> rx_valid eng (qr_regex r)
     \<and> (qr_action r = Action_Deny \<or> qr_target_group r \<notin> {None, Some []})"

lemma compile_rule_eq:
  "compile_rule eng r =
     (if usable_rule eng r
      then Some (qr_regex r, case qr_action r of Action_Deny \<Rightarrow> CA_Deny (deny_message r)
                               | Action_Route \<Rightarrow> CA_Route (the (qr_target_group r)))
      else None)"
  by (cases "qr_action r"; cases "qr_target_group r"; cases "qr_error r")
    (simp_all add: compile_rule_def usable_rule_def deny_message_def)

lemma deny_message_not_blank: "trim (deny_message r) \<noteq> []"
proof -
  have "trim DEFAULT_DENY \<noteq> []" by code_simp
  then show ?thesis by (simp add: deny_message_def split: option.splits)
qed

text \<open>
  The regex router decides by the first usable rule of its configuration that matches
  the SQL text: a deny rule rejects with its own message, or the default one when the
  configured message is blank, so a rejection never carries a blank message; a route rule
  routes to its non-empty target. Rules with an invalid pattern or no target are skipped, and a
  query no rule matches is left to the next router.
\<close>

theorem query_regex_first_match:
  "query_regex_route eng (from_rules eng rules) sql =
     (case List.find (\<lambda>r. usable_rule eng r \<and> rx_is_match eng (qr_regex r) sql) rules of
        None \<Rightarrow> NoMatch
      | Some r \<Rightarrow>
          (case qr_action r of
             Action_Route \<Rightarrow> Route (the (qr_target_group r))
           | Action_Deny \<Rightarrow> Deny (deny_message r)))
   \<and> (\<forall>m. query_regex_route eng (from_rules eng rules) sql = Deny m \<longrightarrow> trim m \<noteq> [])"
proof (induction rules)
  case Nil
  then show ?case by (simp add: from_rules_def List.map_filter_def)
next
  case (Cons r rules)
  show ?case
  proof (cases "usable_rule eng r")
    case True
    with Cons show ?thesis
      by (cases "qr_action r") (simp_all add: from_rules_Cons compile_rule_eq deny_message_not_blank)
  next
    case False
    with Cons show ?thesis by (simp add: from_rules_Cons compile_rule_eq)
  qed
qed

definition example_engines :: engines where
  "example_engines = \<lparr>rx_valid = (\<lambda>_. True), rx_is_match = str_contains, py_route = (\<lambda>_ _ _. PR_None)\<rparr>"

theorem query_regex_first_match_witness:
  "query_regex_route example_engines
     (from_rules example_engines
        [\<lparr>qr_regex = ''DROP'', qr_target_group = None, qr_action = Action_Deny, qr_error = Some '' ''\<rparr>])
     ''DROP TABLE t'' = Deny DEFAULT_DENY \<and> trim DEFAULT_DENY \<noteq> []"
proof -
  let ?rules = "[\<lparr>qr_regex = ''DROP'', qr_target_group = None, qr_action = Action_Deny, qr_error = Some '' ''\<rparr>]"
  have "trim '' '' = []" by code_simp
  then have "query_regex_route example_engines (from_rules example_engines ?rules) ''DROP TABLE t'' = Deny DEFAULT_DENY"
    using query_regex_first_match [of example_engines ?rules "''DROP TABLE t''"]
    by (simp add: example_engines_def usable_rule_def deny_message_def)
  with query_regex_first_match [of example_engines ?rules "''DROP TABLE t''"] show ?thesis by simp
qed

section \<open>The compound router\<close>

fun condition_holds ::
  "engines \<Rightarrow> CompoundCondition \<Rightarrow> string \<Rightarrow> SessionContext \<Rightarrow> FrontendProtocol \<Rightarrow> AuthContext option \<Rightarrow> bool" where
  "condition_holds eng (Cond_Protocol q) sql s p auth \<longleftrightarrow> protocol_from_config q = Some p"
| "condition_holds eng (Cond_Header n v) sql s p auth \<longleftrightarrow> extra_get s (to_lowercase n) = Some v"
| "condition_holds eng (Cond_User u) sql s p auth \<longleftrightarrow> effective_user s auth = Some u"
| "condition_holds eng (Cond_ClientTag t) sql s p auth \<longleftrightarrow> client_tags_contain s t"
| "condition_holds eng (Cond_QueryRegex re) sql s p auth \<longleftrightarrow> rx_valid eng re \<and> rx_is_match eng re sql"

lemma eval_compiled:
  "compile_condition eng c = Some c' \<Longrightarrow> eval_one eng c' sql s p auth = condition_holds eng c sql s p auth"
  by (cases c) (auto simp: header_equals_def split: if_splits)

lemma set_map_filter: "set (List.map_filter f xs) = {y. \<exists>x \<in> set xs. f x = Some y}"
  by (force simp: List.map_filter_def)

text \<open>
  What a compound rule really requires. Under "any" it matches when one of the
  configured conditions holds; under "all" it matches when at least one condition was compiled
  and every compiled one holds: a condition with an unknown protocol name or an invalid pattern
  is dropped, which widens the rule. In particular a rule for the MCP protocol and one user
  matches that user on every protocol.
\<close>

theorem compound_route_spec:
  "compound_route eng (CompoundRouter_new eng CombineAny conds t) sql s p auth =
     (if \<exists>c \<in> set conds. condition_holds eng c sql s p auth then Route t else NoMatch)
   \<and> compound_route eng (CompoundRouter_new eng CombineAll conds t) sql s p auth =
     (if (\<exists>c \<in> set conds. compile_condition eng c \<noteq> None)
         \<and> (\<forall>c \<in> set conds. compile_condition eng c = None \<or> condition_holds eng c sql s p auth)
      then Route t else NoMatch)
   \<and> compound_route eng (CompoundRouter_new eng CombineAll [Cond_Protocol ''mcp'', Cond_User u] t) sql s p
       (Some (a\<lparr>auth_user := u\<rparr>)) = Route t"
proof -
  let ?f = "compile_condition eng"
  have compiled: "?f c \<noteq> None" if "condition_holds eng c sql s p auth" for c
    using that by (cases c) auto
  have ev: "eval_one eng c' sql s p auth = condition_holds eng c sql s p auth" if "?f c = Some c'" for c c'
    using that by (rule eval_compiled)
  have nil: "List.map_filter ?f conds = [] \<longleftrightarrow> (\<forall>c \<in> set conds. ?f c = None)"
    using set_map_filter [of ?f conds] by (auto simp: set_empty [symmetric] simp del: set_empty)
  have any: "list_ex (\<lambda>c. eval_one eng c sql s p auth) (List.map_filter ?f conds) \<longleftrightarrow>
      (\<exists>c \<in> set conds. condition_holds eng c sql s p auth)"
    using ev compiled by (fastforce simp: list_ex_iff set_map_filter)
  have all: "list_all (\<lambda>c. eval_one eng c sql s p auth) (List.map_filter ?f conds) \<longleftrightarrow>
      (\<forall>c \<in> set conds. ?f c = None \<or> condition_holds eng c sql s p auth)"
    using ev by (simp add: list_all_iff set_map_filter) (metis not_None_eq)
  have "compound_route eng (CompoundRouter_new eng CombineAll [Cond_Protocol ''mcp'', Cond_User u] t) sql s p
       (Some (a\<lparr>auth_user := u\<rparr>)) = Route t"
    by (simp add: compound_route_def compound_matches_def CompoundRouter_new_def List.map_filter_def
        protocol_from_config_def effective_user_def or_else_def)
  then show ?thesis
    using any all nil compiled
    by (auto simp: compound_route_def compound_matches_def CompoundRouter_new_def)
qed


definition example_session :: SessionContext where
  "example_session = SessionContext_default\<lparr>sess_user := Some ''mallory''\<rparr>"

definition example_auth :: AuthContext where
  "example_auth = \<lparr>auth_user = ''ann'', auth_groups = [], auth_roles = [], auth_raw_token = None,
     auth_raw_password = None, auth_attributes = []\<rparr>"

theorem compound_route_spec_witness:
  "compound_route example_engines
     (CompoundRouter_new example_engines CombineAll [Cond_User ''ann'', Cond_QueryRegex ''SELECT''] ''g'')
     ''SELECT 1'' example_session TrinoHttp (Some example_auth) = Route ''g''
   \<and> compound_route example_engines
     (CompoundRouter_new example_engines CombineAll [Cond_User ''mallory''] ''g'')
     ''SELECT 1'' example_session TrinoHttp (Some example_auth) = NoMatch"
  using compound_route_spec [of example_engines "[Cond_User ''ann'', Cond_QueryRegex ''SELECT'']" "''g''"
      "''SELECT 1''" example_session TrinoHttp "Some example_auth" "''ann''" example_auth]
    compound_route_spec [of example_engines "[Cond_User ''mallory'']" "''g''"
      "''SELECT 1''" example_session TrinoHttp "Some example_auth" "''ann''" example_auth]
  by (simp add: example_engines_def effective_user_def or_else_def example_auth_def)

end
