(* ===== verification/Router_Chain.thy ===== *)
theory Router_Chain
  imports Routers
begin

text \<open>
  The router chain: \<open>crates/queryflux-routing/src/chain.rs\<close>. The loops take the routers'
  \<open>route\<close> as an argument (the trait's dynamic dispatch); the chain of the program dispatches on
  the router kinds of theory \<open>Routers\<close>.
\<close>

section \<open>The chain\<close>

record RouterDecision =
  router_type :: string
  matched :: bool
  decision_result :: "string option"
  deny_message_of :: "string option"

record RoutingTrace =
  decisions :: "RouterDecision list"
  final_group :: string
  used_fallback :: bool
  denied :: "string option"

record RouterChain =
  routers :: "Router list"
  fallback :: ClusterGroupName

fun route_loop ::
  "('r \<Rightarrow> RoutingDecision result) \<Rightarrow> 'r list \<Rightarrow> ClusterGroupName \<Rightarrow> ChainRouteResult result" where
  "route_loop rt [] fb = Inr (Routed fb)"
| "route_loop rt (r # rs) fb =
     (case rt r of
        Inl e \<Rightarrow> Inl e
      | Inr (Route g) \<Rightarrow> Inr (Routed g)
      | Inr (Deny m) \<Rightarrow> Inr (Denied m)
      | Inr NoMatch \<Rightarrow> route_loop rt rs fb)"

definition route ::
  "engines \<Rightarrow> RouterChain \<Rightarrow> string \<Rightarrow> SessionContext \<Rightarrow> FrontendProtocol \<Rightarrow> AuthContext option
   \<Rightarrow> ChainRouteResult result" where
  "route eng ch sql s p auth = route_loop (router_route eng sql s p auth) (routers ch) (fallback ch)"

fun trace_loop ::
  "('r \<Rightarrow> RoutingDecision result) \<Rightarrow> ('r \<Rightarrow> string) \<Rightarrow> 'r list \<Rightarrow> ClusterGroupName \<Rightarrow> RouterDecision list
   \<Rightarrow> (ChainRouteResult \<times> RoutingTrace) result" where
  "trace_loop rt ty [] fb ds =
     Inr (Routed fb, \<lparr>decisions = ds, final_group = fb, used_fallback = True, denied = None\<rparr>)"
| "trace_loop rt ty (r # rs) fb ds =
     (case rt r of
        Inl e \<Rightarrow> Inl e
      | Inr (Route g) \<Rightarrow>
          let ds' = ds @ [\<lparr>router_type = ty r, matched = True, decision_result = Some g, deny_message_of = None\<rparr>]
          in Inr (Routed g, \<lparr>decisions = ds', final_group = g, used_fallback = False, denied = None\<rparr>)
      | Inr (Deny m) \<Rightarrow>
          let ds' = ds @ [\<lparr>router_type = ty r, matched = True, decision_result = None, deny_message_of = Some m\<rparr>]
          in Inr (Denied m, \<lparr>decisions = ds', final_group = [], used_fallback = False, denied = Some m\<rparr>)
      | Inr NoMatch \<Rightarrow>
          trace_loop rt ty rs fb
            (ds @ [\<lparr>router_type = ty r, matched = False, decision_result = None, deny_message_of = None\<rparr>]))"

definition route_with_trace ::
  "engines \<Rightarrow> RouterChain \<Rightarrow> string \<Rightarrow> SessionContext \<Rightarrow> FrontendProtocol \<Rightarrow> AuthContext option
   \<Rightarrow> (ChainRouteResult \<times> RoutingTrace) result" where
  "route_with_trace eng ch sql s p auth =
     trace_loop (router_route eng sql s p auth) router_type_name (routers ch) (fallback ch) []"

section \<open>The contract of a router\<close>

text \<open>
  What the chain relies on: a router only routes to groups in its target set. The chain's
  result is then confined to the targets of its routers and the fallback.
\<close>

locale confined_routers =
  fixes route_of :: "'q \<Rightarrow> 'r \<Rightarrow> RoutingDecision result"
    and targets_of :: "'r \<Rightarrow> ClusterGroupName set"
  assumes route_of_targets: "route_of q r = Inr (Route g) \<Longrightarrow> g \<in> targets_of r"
begin

lemma route_loop_confined:
  "route_loop (route_of q) rs fb = Inr (Routed g) \<Longrightarrow> g = fb \<or> (\<exists>r \<in> set rs. g \<in> targets_of r)"
  by (induction rs) (auto split: sum.splits RoutingDecision.splits dest: route_of_targets)

lemma trace_loop_confined:
  "trace_loop (route_of q) ty rs fb ds = Inr (Routed g, t) \<Longrightarrow> g = fb \<or> (\<exists>r \<in> set rs. g \<in> targets_of r)"
  by (induction rs arbitrary: ds)
    (auto simp: Let_def split: sum.splits RoutingDecision.splits dest: route_of_targets)

end

interpretation program_routers:
  confined_routers "\<lambda>(sql, s, p, auth). router_route eng sql s p auth" "router_targets eng" for eng
  by unfold_locales (auto dest: router_route_targets)

section \<open>Facts about the loops\<close>

lemma route_loop_spec:
  "route_loop rt rs fb =
     (case position (\<lambda>r. rt r \<noteq> Inr NoMatch) rs of
        None \<Rightarrow> Inr (Routed fb)
      | Some i \<Rightarrow>
          (case rt (rs ! i) of
             Inl e \<Rightarrow> Inl e
           | Inr (Route g) \<Rightarrow> Inr (Routed g)
           | Inr (Deny m) \<Rightarrow> Inr (Denied m)
           | Inr NoMatch \<Rightarrow> Inr (Routed fb)))"
proof (induction rs)
  case (Cons r rs)
  then show ?case
    by (cases "rt r = Inr NoMatch")
      (auto simp: map_option_case simp del: position_None
        split: sum.splits RoutingDecision.splits option.splits)
qed simp

definition unmatched :: "string \<Rightarrow> RouterDecision" where
  "unmatched ty = \<lparr>router_type = ty, matched = False, decision_result = None, deny_message_of = None\<rparr>"

lemma trace_loop_spec:
  "trace_loop rt ty rs fb ds =
     (case position (\<lambda>r. rt r \<noteq> Inr NoMatch) rs of
        None \<Rightarrow> Inr (Routed fb, \<lparr>decisions = ds @ map (unmatched \<circ> ty) rs, final_group = fb,
                                used_fallback = True, denied = None\<rparr>)
      | Some i \<Rightarrow>
          (let pre = ds @ map (unmatched \<circ> ty) (take i rs); n = ty (rs ! i) in
           case rt (rs ! i) of
             Inl e \<Rightarrow> Inl e
           | Inr (Route g) \<Rightarrow>
               Inr (Routed g, \<lparr>decisions = pre @ [\<lparr>router_type = n, matched = True, decision_result = Some g,
                      deny_message_of = None\<rparr>], final_group = g, used_fallback = False, denied = None\<rparr>)
           | Inr (Deny m) \<Rightarrow>
               Inr (Denied m, \<lparr>decisions = pre @ [\<lparr>router_type = n, matched = True, decision_result = None,
                      deny_message_of = Some m\<rparr>], final_group = [], used_fallback = False, denied = Some m\<rparr>)
           | Inr NoMatch \<Rightarrow> Inl (Routing [])))"
proof (induction rs arbitrary: ds)
  case Nil
  then show ?case by simp
next
  case (Cons r rs)
  show ?case
  proof (cases "rt r = Inr NoMatch")
    case True
    show ?thesis
      using True Cons.IH [of "ds @ [unmatched (ty r)]"]
      by (cases "position (\<lambda>r. rt r \<noteq> Inr NoMatch) rs")
        (simp_all add: unmatched_def [symmetric] Let_def del: position_None)
  next
    case False
    then show ?thesis by (auto simp: Let_def split: sum.splits RoutingDecision.splits)
  qed
qed

section \<open>Properties\<close>

text \<open>
  Claim C19. The chain decides by the first router, in configured order, that does not pass the
  query on: its group or its rejection is the result, its error is returned as the error, and
  no later router can override it; when every router passes, the fallback group is used.
\<close>

theorem chain_first_match:
  "let rt = router_route eng sql s p auth in
   (\<exists>i < length (routers ch). (\<forall>j < i. rt (routers ch ! j) = Inr NoMatch)
       \<and> (case rt (routers ch ! i) of
            Inl e \<Rightarrow> route eng ch sql s p auth = Inl e
          | Inr (Route g) \<Rightarrow> route eng ch sql s p auth = Inr (Routed g)
          | Inr (Deny m) \<Rightarrow> route eng ch sql s p auth = Inr (Denied m)
          | Inr NoMatch \<Rightarrow> False))
   \<or> (\<forall>r \<in> set (routers ch). rt r = Inr NoMatch)
      \<and> route eng ch sql s p auth = Inr (Routed (fallback ch))"
proof -
  let ?rt = "router_route eng sql s p auth"
  show ?thesis
  proof (cases "position (\<lambda>r. ?rt r \<noteq> Inr NoMatch) (routers ch)")
    case None
    with None [unfolded position_None] show ?thesis
      by (simp add: route_def route_loop_spec Let_def del: position_None)
  next
    case (Some i)
    note pos = position_Some [OF Some]
    then have "case ?rt (routers ch ! i) of
            Inl e \<Rightarrow> route eng ch sql s p auth = Inl e
          | Inr (Route g) \<Rightarrow> route eng ch sql s p auth = Inr (Routed g)
          | Inr (Deny m) \<Rightarrow> route eng ch sql s p auth = Inr (Denied m)
          | Inr NoMatch \<Rightarrow> False"
      using Some by (simp add: route_def route_loop_spec split: sum.splits RoutingDecision.splits)
    with pos show ?thesis unfolding Let_def by blast
  qed
qed

text \<open>
  Claim C38. The trace shown to operators is the truth: tracing never changes the outcome
  (result or error), the trace lists exactly the routers that were consulted, in order, of
  which only the last may have matched, its final group and denial are the outcome, and the
  fallback flag is set exactly when no router matched.
\<close>

theorem trace_agrees:
  "map_sum id fst (route_with_trace eng ch sql s p auth) = route eng ch sql s p auth
   \<and> (\<forall>res t. route_with_trace eng ch sql s p auth = Inr (res, t) \<longrightarrow>
        map router_type (decisions t) = take (length (decisions t)) (map router_type_name (routers ch))
        \<and> (\<forall>d \<in> set (butlast (decisions t)). \<not> matched d)
        \<and> (used_fallback t \<longleftrightarrow> (\<forall>d \<in> set (decisions t). \<not> matched d))
        \<and> (case res of Routed g \<Rightarrow> final_group t = g \<and> denied t = None
           | Denied m \<Rightarrow> denied t = Some m \<and> \<not> used_fallback t))"
proof -
  let ?rt = "router_route eng sql s p auth"
  let ?pos = "position (\<lambda>r. ?rt r \<noteq> Inr NoMatch) (routers ch)"
  have un: "map (router_type \<circ> (unmatched \<circ> router_type_name)) xs = map router_type_name xs" for xs
    by (simp add: unmatched_def)
  have not: "\<not> matched d" if "d \<in> set (butlast (map (unmatched \<circ> router_type_name) xs))" for d xs
    using in_set_butlastD [OF that] by (auto simp: unmatched_def)
  show ?thesis
  proof (cases ?pos)
    case None
    then show ?thesis
      by (auto simp: route_def route_with_trace_def route_loop_spec trace_loop_spec un
          not simp del: position_None) (simp add: unmatched_def)
  next
    case (Some i)
    note pos = position_Some [OF Some]
    then have "take i (map router_type_name (routers ch)) @ [router_type_name (routers ch ! i)]
        = take (Suc i) (map router_type_name (routers ch))"
      by (simp add: take_Suc_conv_app_nth)
    with Some pos show ?thesis
      by (auto simp: route_def route_with_trace_def route_loop_spec trace_loop_spec un Let_def
          take_map unmatched_def butlast_append split: sum.splits RoutingDecision.splits)
  qed
qed


definition example_chain :: RouterChain where
  "example_chain =
     \<lparr>routers = [R_QueryRegex [(''DROP'', CA_Deny ''no'')], R_UserGroup [(''ann'', ''g1'')]], fallback = ''fb''\<rparr>"

lemmas example_route_eval = example_chain_def example_engines_def example_auth_def
  user_group_route_def effective_user_def or_else_def decision_from_option_def

theorem chain_first_match_witness:
  "route example_engines example_chain ''SELECT 1'' example_session TrinoHttp (Some example_auth)
     = Inr (Routed ''g1'')"
proof -
  let ?rt = "router_route example_engines ''SELECT 1'' example_session TrinoHttp (Some example_auth)"
  have rs: "routers example_chain = [R_QueryRegex [(''DROP'', CA_Deny ''no'')], R_UserGroup [(''ann'', ''g1'')]]"
    by (simp add: example_chain_def)
  have rt: "?rt (R_QueryRegex [(''DROP'', CA_Deny ''no'')]) = Inr NoMatch"
    "?rt (R_UserGroup [(''ann'', ''g1'')]) = Inr (Route ''g1'')"
    by (simp_all add: example_route_eval)
  show ?thesis
    using chain_first_match [of example_engines "''SELECT 1''" example_session TrinoHttp
        "Some example_auth" example_chain]
    unfolding Let_def rs by (auto simp: rt less_Suc_eq simp del: router_route.simps)
qed

theorem trace_agrees_witness:
  "denied (snd (projr (route_with_trace example_engines example_chain ''DROP TABLE t'' example_session TrinoHttp None)))
     = Some ''no''"
proof -
  let ?r = "route_with_trace example_engines example_chain ''DROP TABLE t'' example_session TrinoHttp None"
  obtain res t where r: "?r = Inr (res, t)"
    by (simp add: route_with_trace_def example_route_eval)
  have "route example_engines example_chain ''DROP TABLE t'' example_session TrinoHttp None = Inr (Denied ''no'')"
    by (simp add: route_def example_route_eval)
  with trace_agrees [of example_engines example_chain "''DROP TABLE t''" example_session TrinoHttp None] r
  show ?thesis by auto
qed

text \<open>
  A query can only be sent to a group that the configuration names: the group the chain
  returns is the fallback, a target of one of its routers, or (for a script router) a group
  that script can answer.
\<close>

theorem routed_group_configured:
  assumes "route eng ch sql s p auth = Inr (Routed g)"
  shows "g = fallback ch \<or> (\<exists>r \<in> set (routers ch). g \<in> router_targets eng r)"
  using program_routers.route_loop_confined [where eng = eng and q = "(sql, s, p, auth)"] assms
  by (simp add: route_def)

theorem routed_group_configured_witness:
  "''g1'' = fallback example_chain
   \<or> (\<exists>r \<in> set (routers example_chain). ''g1'' \<in> router_targets example_engines r)"
  by (rule routed_group_configured [where sql = "''SELECT 1''" and s = example_session and p = TrinoHttp
        and auth = "Some example_auth"])
    (simp add: route_def example_route_eval)

section \<open>Identity\<close>

definition claims_user :: "SessionContext \<Rightarrow> string option \<Rightarrow> SessionContext" where
  "claims_user s u = s\<lparr>sess_user := u\<rparr>"

lemma claims_user_simps [simp]:
  "extra_get (claims_user s u) = extra_get s" "sess_tags (claims_user s u) = sess_tags s"
  "effective_user (claims_user s u) (Some a) = effective_user s (Some a)"
  by (simp_all add: claims_user_def extra_get_def effective_user_def or_else_def fun_eq_iff)

lemma eval_one_claims_user [simp]:
  "eval_one eng c sql (claims_user s u) p (Some a) = eval_one eng c sql s p (Some a)"
  by (cases c) (simp_all add: header_equals_def client_tags_contain_def)

definition is_script :: "Router \<Rightarrow> bool" where
  "is_script r = (case r of R_PythonScript _ \<Rightarrow> True | _ \<Rightarrow> False)"

lemma router_route_claims_user:
  "\<not> is_script r \<Longrightarrow>
     router_route eng sql (claims_user s u) p (Some a) r = router_route eng sql s p (Some a) r"
  by (cases r) (simp_all add: is_script_def header_route_def client_tags_route_def user_group_route_def
      tags_route_def compound_route_def compound_matches_def split: CompoundCombineMode.splits)

lemma route_loop_cong:
  "(\<And>r. r \<in> set rs \<Longrightarrow> rt r = rt' r) \<Longrightarrow> route_loop rt rs fb = route_loop rt' rs fb"
  by (induction rs) (auto split: sum.splits RoutingDecision.splits)

text \<open>
  Claim C39. Routing follows the verified identity: for an authenticated query, the user name the
  client merely declared in its session has no influence on the outcome of a chain of built-in
  routers.
\<close>

theorem verified_identity_routes:
  assumes "\<forall>r \<in> set (routers ch). \<not> is_script r"
  shows "route eng ch sql (s\<lparr>sess_user := u\<rparr>) p (Some a) = route eng ch sql s p (Some a)"
  unfolding route_def claims_user_def [symmetric]
  by (rule route_loop_cong) (use assms router_route_claims_user in blast)

theorem verified_identity_routes_witness:
  "route example_engines example_chain ''SELECT 1'' (example_session\<lparr>sess_user := Some ''eve''\<rparr>) TrinoHttp (Some example_auth)
     = route example_engines example_chain ''SELECT 1'' example_session TrinoHttp (Some example_auth)"
  by (rule verified_identity_routes) (simp add: example_chain_def is_script_def)

end
