(* ===== verification/Cluster_State.thy ===== *)
theory Cluster_State
  imports Core_Types Circuit_Breaker
begin

text \<open>
  The live state of one cluster: \<open>crates/queryflux-cluster-manager/src/cluster_state.rs\<close>.
  A configuration reload builds a new \<open>ClusterState\<close> that may share the load counters and the
  breaker of the previous generation through \<open>Arc\<close>, so those live in an explicit store
  (\<open>Shared\<close>) and a \<open>ClusterState\<close> holds references into it; the other atomics are never
  shared and are plain fields. The sequential operations give the effect of each method; the
  compare-and-swap loops are modelled again, one atomic access per step, to show that no
  interleaving of threads oversubscribes a cluster.
\<close>

section \<open>State\<close>

record Shared =
  u64_cells :: "nat \<Rightarrow> u64"
  breaker_cells :: "nat \<Rightarrow> CircuitBreaker"
  next_ref :: nat

record ClusterState =
  cluster_name :: ClusterName
  group_name :: ClusterGroupName
  cluster_config_id :: "int option"
  cluster_group_config_id :: "int option"
  engine_type :: EngineType
  endpoint :: "string option"
  max_running_queries :: u64
  enabled :: bool
  running_ref :: nat
  queued_ref :: nat
  is_healthy :: bool
  breaker :: "nat option"

record ClusterStateSnapshot =
  snap_cluster_name :: ClusterName
  snap_group_name :: ClusterGroupName
  snap_cluster_config_id :: "int option"
  snap_cluster_group_config_id :: "int option"
  snap_engine_type :: EngineType
  snap_endpoint :: "string option"
  snap_running_queries :: u64
  snap_queued_queries :: u64
  snap_max_running_queries :: u64
  snap_is_healthy :: bool
  snap_enabled :: bool
  snap_breaker_state :: "CircuitState option"
  snap_can_accept_query :: bool

section \<open>Construction and reload\<close>

definition ClusterState_new ::
  "ClusterName \<Rightarrow> ClusterGroupName \<Rightarrow> int option \<Rightarrow> int option \<Rightarrow> EngineType \<Rightarrow> string option
   \<Rightarrow> u64 \<Rightarrow> bool \<Rightarrow> Shared \<Rightarrow> ClusterState \<times> Shared" where
  "ClusterState_new name grp cid gid eng ep mx en sh =
     (let r = next_ref sh; q = next_ref sh + 1 in
      (\<lparr>cluster_name = name, group_name = grp, cluster_config_id = cid,
        cluster_group_config_id = gid, engine_type = eng, endpoint = ep,
        max_running_queries = mx, enabled = en, running_ref = r, queued_ref = q,
        is_healthy = True, breaker = None\<rparr>,
       sh\<lparr>u64_cells := (u64_cells sh)(r := 0, q := 0), next_ref := next_ref sh + 2\<rparr>))"

definition with_circuit_breaker ::
  "ClusterState \<Rightarrow> CircuitBreakerConfig option \<Rightarrow> ClusterState option \<Rightarrow> Shared
   \<Rightarrow> ClusterState \<times> Shared" where
  "with_circuit_breaker c config previous sh =
     (case config of
        None \<Rightarrow> (c\<lparr>breaker := None\<rparr>, sh)
      | Some cfg \<Rightarrow>
          let kept = (case previous of
                        None \<Rightarrow> None
                      | Some p \<Rightarrow>
                          if group_name p = group_name c then
                            (case breaker p of
                               None \<Rightarrow> None
                             | Some b \<Rightarrow> if cb_config (breaker_cells sh b) = cfg then Some b else None)
                          else None)
          in (case kept of
                Some b \<Rightarrow> (c\<lparr>breaker := Some b\<rparr>, sh)
              | None \<Rightarrow>
                  (c\<lparr>breaker := Some (next_ref sh)\<rparr>,
                   sh\<lparr>breaker_cells := (breaker_cells sh)(next_ref sh := CircuitBreaker_new cfg),
                      next_ref := next_ref sh + 1\<rparr>)))"

definition with_shared_load_counters :: "ClusterState \<Rightarrow> ClusterState option \<Rightarrow> ClusterState" where
  "with_shared_load_counters c previous =
     (case previous of
        None \<Rightarrow> c
      | Some p \<Rightarrow> if group_name p = group_name c
                 then c\<lparr>running_ref := running_ref p, queued_ref := queued_ref p\<rparr> else c)"

section \<open>Availability\<close>

definition breaker_state :: "Shared \<Rightarrow> ClusterState \<Rightarrow> CircuitState option" where
  "breaker_state sh c = map_option (\<lambda>b. cb_state (breaker_cells sh b)) (breaker c)"

definition can_accept_query :: "Shared \<Rightarrow> ClusterState \<Rightarrow> bool" where
  "can_accept_query sh c \<longleftrightarrow>
     enabled c \<and> is_healthy c
     \<and> (case breaker c of None \<Rightarrow> True | Some b \<Rightarrow> allows_queries (breaker_cells sh b))"

definition record_backend_outcome ::
  "Shared \<Rightarrow> ClusterState \<Rightarrow> BackendOutcome \<Rightarrow> instant \<Rightarrow> CircuitState option \<times> Shared" where
  "record_backend_outcome sh c o' now =
     (case breaker c of
        None \<Rightarrow> (None, sh)
      | Some b \<Rightarrow> (case record_at (breaker_cells sh b) o' now of
                    (r, b') \<Rightarrow> (r, sh\<lparr>breaker_cells := (breaker_cells sh)(b := b')\<rparr>)))"

definition begin_breaker_probe :: "Shared \<Rightarrow> ClusterState \<Rightarrow> instant \<Rightarrow> bool \<times> Shared" where
  "begin_breaker_probe sh c now =
     (case breaker c of
        None \<Rightarrow> (False, sh)
      | Some b \<Rightarrow> (case begin_probe_at (breaker_cells sh b) now of
                    (r, b') \<Rightarrow> (r, sh\<lparr>breaker_cells := (breaker_cells sh)(b := b')\<rparr>)))"

definition finish_breaker_probe ::
  "Shared \<Rightarrow> ClusterState \<Rightarrow> bool \<Rightarrow> instant \<Rightarrow> CircuitState option \<times> Shared" where
  "finish_breaker_probe sh c healthy now =
     (case breaker c of
        None \<Rightarrow> (None, sh)
      | Some b \<Rightarrow> (case finish_probe_at (breaker_cells sh b) healthy now of
                    (r, b') \<Rightarrow> (Some r, sh\<lparr>breaker_cells := (breaker_cells sh)(b := b')\<rparr>)))"

definition set_max_running_queries :: "ClusterState \<Rightarrow> u64 \<Rightarrow> ClusterState" where
  "set_max_running_queries c v = c\<lparr>max_running_queries := v\<rparr>"

definition set_enabled :: "ClusterState \<Rightarrow> bool \<Rightarrow> ClusterState" where
  "set_enabled c v = c\<lparr>enabled := v\<rparr>"

definition set_healthy :: "ClusterState \<Rightarrow> bool \<Rightarrow> ClusterState" where
  "set_healthy c v = c\<lparr>is_healthy := v\<rparr>"

section \<open>Load counters\<close>

definition running_queries :: "Shared \<Rightarrow> ClusterState \<Rightarrow> u64" where
  "running_queries sh c = u64_cells sh (running_ref c)"

definition queued_queries :: "Shared \<Rightarrow> ClusterState \<Rightarrow> u64" where
  "queued_queries sh c = u64_cells sh (queued_ref c)"

definition store_u64 :: "Shared \<Rightarrow> nat \<Rightarrow> u64 \<Rightarrow> Shared" where
  "store_u64 sh r v = sh\<lparr>u64_cells := (u64_cells sh)(r := v)\<rparr>"

definition set_running_queries :: "Shared \<Rightarrow> ClusterState \<Rightarrow> u64 \<Rightarrow> Shared" where
  "set_running_queries sh c count = store_u64 sh (running_ref c) (min count (max_running_queries c))"

definition reconcile_adjust :: "u64 \<Rightarrow> u64 \<Rightarrow> u64 \<Rightarrow> u64 \<Rightarrow> u64" where
  "reconcile_adjust mx observed target current =
     (let corrected = (if target \<ge> observed then saturating_add current (target - observed)
                       else saturating_sub current (observed - target))
      in min corrected mx)"

definition reconcile_running :: "Shared \<Rightarrow> ClusterState \<Rightarrow> u64 \<Rightarrow> u64 \<Rightarrow> u64 \<times> Shared" where
  "reconcile_running sh c observed target =
     (let v = reconcile_adjust (max_running_queries c) observed target (running_queries sh c)
      in (v, store_u64 sh (running_ref c) v))"

definition set_queued_queries :: "Shared \<Rightarrow> ClusterState \<Rightarrow> u64 \<Rightarrow> Shared" where
  "set_queued_queries sh c count = store_u64 sh (queued_ref c) count"

definition is_at_capacity :: "Shared \<Rightarrow> ClusterState \<Rightarrow> bool" where
  "is_at_capacity sh c \<longleftrightarrow> running_queries sh c \<ge> max_running_queries c"

definition try_increment_running :: "Shared \<Rightarrow> ClusterState \<Rightarrow> bool \<times> Shared" where
  "try_increment_running sh c =
     (let current = running_queries sh c in
      if current \<ge> max_running_queries c then (False, sh)
      else (True, store_u64 sh (running_ref c) (current + 1)))"

definition decrement_running :: "Shared \<Rightarrow> ClusterState \<Rightarrow> Shared" where
  "decrement_running sh c =
     (let current = running_queries sh c in
      if current = 0 then sh else store_u64 sh (running_ref c) (current - 1))"

text \<open>\<open>fetch_add\<close> wraps.\<close>

definition increment_queued :: "Shared \<Rightarrow> ClusterState \<Rightarrow> Shared" where
  "increment_queued sh c = store_u64 sh (queued_ref c) (queued_queries sh c + 1)"

definition decrement_queued :: "Shared \<Rightarrow> ClusterState \<Rightarrow> Shared" where
  "decrement_queued sh c =
     (let current = queued_queries sh c in
      if current = 0 then sh else store_u64 sh (queued_ref c) (current - 1))"

definition snapshot :: "Shared \<Rightarrow> ClusterState \<Rightarrow> ClusterStateSnapshot" where
  "snapshot sh c =
     \<lparr>snap_cluster_name = cluster_name c, snap_group_name = group_name c,
      snap_cluster_config_id = cluster_config_id c,
      snap_cluster_group_config_id = cluster_group_config_id c,
      snap_engine_type = engine_type c, snap_endpoint = endpoint c,
      snap_running_queries = running_queries sh c, snap_queued_queries = queued_queries sh c,
      snap_max_running_queries = max_running_queries c, snap_is_healthy = is_healthy c,
      snap_enabled = enabled c, snap_breaker_state = breaker_state sh c,
      snap_can_accept_query = can_accept_query sh c\<rparr>"

section \<open>Sequential facts\<close>

lemma store_u64_simps [simp]:
  "u64_cells (store_u64 sh r v) = (u64_cells sh)(r := v)"
  "breaker_cells (store_u64 sh r v) = breaker_cells sh"
  "next_ref (store_u64 sh r v) = next_ref sh"
  by (simp_all add: store_u64_def)

lemma breaker_cells_running [frame_simps]:
  "breaker_cells (snd (try_increment_running sh c)) = breaker_cells sh"
  "breaker_cells (decrement_running sh c) = breaker_cells sh"
  by (simp_all add: try_increment_running_def decrement_running_def Let_def)

lemma can_accept_query_cong:
  "breaker_cells sh' = breaker_cells sh \<Longrightarrow> can_accept_query sh' c = can_accept_query sh c"
  by (simp add: can_accept_query_def split: option.splits)

lemma try_increment_running_True:
  "try_increment_running sh c = (True, sh') \<Longrightarrow>
     unat (running_queries sh c) < unat (max_running_queries c)
     \<and> unat (running_queries sh' c) = Suc (unat (running_queries sh c))
     \<and> (\<forall>r. r \<noteq> running_ref c \<longrightarrow> u64_cells sh' r = u64_cells sh r)"
  by (auto simp: try_increment_running_def Let_def running_queries_def word_less_nat_alt
      not_le unat_plus1_less split: if_splits)

lemma try_increment_running_False:
  "try_increment_running sh c = (False, sh') \<Longrightarrow> sh' = sh \<and> is_at_capacity sh c"
  by (auto simp: try_increment_running_def Let_def is_at_capacity_def split: if_splits)

lemma unat_decrement_running:
  "unat (running_queries (decrement_running sh c) c) = unat (running_queries sh c) - 1"
  by (auto simp: decrement_running_def Let_def running_queries_def unat_minus1_pos)

lemma decrement_try_increment:
  "try_increment_running sh c = (True, sh') \<Longrightarrow> decrement_running sh' c = sh"
  using try_increment_running_True [of sh c sh']
  by (auto simp: try_increment_running_def decrement_running_def Let_def running_queries_def
      store_u64_def split: if_splits)

section \<open>Reconciliation and reload\<close>

lemma unat_reconcile_adjust:
  "unat (reconcile_adjust mx observed target cur) =
     min (unat mx) (unat cur + unat target - unat observed)"
proof (cases "observed \<le> target")
  case True
  then have d: "unat (target - observed) = unat target - unat observed"
    and le: "unat observed \<le> unat target"
    by (simp_all add: unat_sub word_le_nat_alt)
  have "reconcile_adjust mx observed target cur = min (saturating_add cur (target - observed)) mx"
    using True by (simp add: reconcile_adjust_def)
  then have "unat (reconcile_adjust mx observed target cur) =
      min (min (unat cur + (unat target - unat observed)) (2 ^ 64 - 1)) (unat mx)"
    by (simp add: unat_min unat_saturating_add d)
  with le unat_less [of mx] show ?thesis by (simp add: min_def)
next
  case False
  then have d: "unat (observed - target) = unat observed - unat target"
    and lt: "unat target < unat observed"
    by (simp_all add: unat_sub word_le_nat_alt)
  have "reconcile_adjust mx observed target cur = min (saturating_sub cur (observed - target)) mx"
    using False by (simp add: reconcile_adjust_def)
  then have "unat (reconcile_adjust mx observed target cur) =
      min (unat cur - (unat observed - unat target)) (unat mx)"
    by (simp add: unat_min unat_saturating_sub d)
  with lt show ?thesis by (simp add: min_def)
qed

lemma int_min_diff: "int (min a (x + y - z)) = min (int a) (max 0 (int x + int y - int z))"
proof (cases "z \<le> x + y")
  case True
  then obtain d where d: "x + y = z + d" using le_Suc_ex by blast
  then have "int x + int y - int z = int d" by linarith
  with d show ?thesis by simp
qed simp

text \<open>
  Reconciling moves the running counter by exactly the measured drift
  \<open>target - observed\<close>, relative to its current value, and clamps the result to
  \<open>[0, max_running_queries]\<close>: neither the saturating arithmetic nor the 64-bit width changes
  that, the value returned is the value stored, and no other counter moves.
\<close>

theorem reconcile_running_exact:
  "int (unat (fst (reconcile_running sh c observed target))) =
     min (int (unat (max_running_queries c)))
         (max 0 (int (unat (running_queries sh c)) + int (unat target) - int (unat observed)))
   \<and> running_queries (snd (reconcile_running sh c observed target)) c =
       fst (reconcile_running sh c observed target)
   \<and> (r \<noteq> running_ref c \<longrightarrow>
        u64_cells (snd (reconcile_running sh c observed target)) r = u64_cells sh r)"
proof -
  have "fst (reconcile_running sh c observed target) =
      reconcile_adjust (max_running_queries c) observed target (running_queries sh c)"
    by (simp add: reconcile_running_def Let_def)
  then have "int (unat (fst (reconcile_running sh c observed target))) =
      int (min (unat (max_running_queries c))
               (unat (running_queries sh c) + unat target - unat observed))"
    by (simp only: unat_reconcile_adjust)
  also note int_min_diff
  finally show ?thesis
    by (simp add: reconcile_running_def Let_def running_queries_def)
qed

theorem reconcile_running_exact_witness:
  "let sh = \<lparr>u64_cells = (\<lambda>_. 4), breaker_cells = (\<lambda>_. CircuitBreaker_new CircuitBreakerConfig_default),
             next_ref = 2\<rparr>;
       c = fst (ClusterState_new ''c'' ''g'' None None E_Trino None 10 True
                  \<lparr>u64_cells = (\<lambda>_. 4), breaker_cells = (\<lambda>_. CircuitBreaker_new CircuitBreakerConfig_default),
                   next_ref = 0\<rparr>)
   in int (unat (fst (reconcile_running sh c 3 1))) = 2
      \<and> u64_cells (snd (reconcile_running sh c 3 1)) 7 = 4"
proof -
  define sh where "sh = \<lparr>u64_cells = (\<lambda>_. 4 :: u64),
    breaker_cells = (\<lambda>_ :: nat. CircuitBreaker_new CircuitBreakerConfig_default), next_ref = 2\<rparr>"
  define c where "c = fst (ClusterState_new ''c'' ''g'' None None E_Trino None 10 True
    \<lparr>u64_cells = (\<lambda>_. 4), breaker_cells = (\<lambda>_. CircuitBreaker_new CircuitBreakerConfig_default),
     next_ref = 0\<rparr>)"
  have c: "max_running_queries c = 10" "running_ref c = 0"
    by (simp_all add: c_def ClusterState_new_def Let_def)
  have cur: "running_queries sh c = 4" by (simp add: running_queries_def sh_def)
  have "7 \<noteq> running_ref c" using c by simp
  with reconcile_running_exact [of sh c 3 1 7] show ?thesis
    by (simp add: c cur Let_def flip: sh_def c_def) (simp add: sh_def)
qed

text \<open>
  After a reload inside the same group the new generation shares the load counters of
  the previous one: a slot taken or released through either generation is the same slot for the
  other, so a query admitted before the reload frees its slot when it ends; across groups the
  counters of a freshly built state stay independent of the previous generation's.
\<close>

theorem reload_shares_load:
  assumes "old \<noteq> None \<longrightarrow> running_ref (the old) < next_ref sh"
    and "ClusterState_new name grp cid gid eng ep mx en sh = (fresh, sh')"
    and "new = with_shared_load_counters fresh old"
  shows "(case old of
            Some p \<Rightarrow>
              if group_name p = grp
              then running_queries sh' new = running_queries sh p
                 \<and> running_queries (decrement_running sh' p) new = running_queries (decrement_running sh' new) new
                 \<and> running_queries (snd (try_increment_running sh' new)) p =
                     running_queries (snd (try_increment_running sh' new)) new
              else running_queries sh' new = 0
                 \<and> running_queries (decrement_running sh' p) new = running_queries sh' new
          | None \<Rightarrow> running_queries sh' new = 0)"
proof (cases old)
  case None
  with assms(2,3) show ?thesis
    by (auto simp: ClusterState_new_def with_shared_load_counters_def running_queries_def Let_def)
next
  case (Some p)
  with assms show ?thesis
    by (auto simp: ClusterState_new_def with_shared_load_counters_def running_queries_def Let_def
        decrement_running_def try_increment_running_def)
qed

definition example_shared :: Shared where
  "example_shared = \<lparr>u64_cells = (\<lambda>_. 0),
     breaker_cells = (\<lambda>_. CircuitBreaker_new CircuitBreakerConfig_default), next_ref = 0\<rparr>"

definition example_member :: "ClusterState \<times> Shared" where
  "example_member = ClusterState_new ''a'' ''g'' None None E_Trino None 2 True example_shared"

theorem reload_shares_load_witness:
  "let (p, sh) = example_member;
       sh1 = snd (try_increment_running sh p);
       (f, sh2) = ClusterState_new ''a'' ''g'' None None E_Trino None 5 True sh1;
       n = with_shared_load_counters f (Some p)
   in running_queries sh2 n = 1 \<and> running_queries (decrement_running sh2 p) n = 0"
proof -
  define p where "p = fst example_member"
  define sh1 where "sh1 = snd (try_increment_running (snd example_member) p)"
  define f where "f = fst (ClusterState_new ''a'' ''g'' None None E_Trino None 5 True sh1)"
  define sh2 where "sh2 = snd (ClusterState_new ''a'' ''g'' None None E_Trino None 5 True sh1)"
  note defs = p_def sh1_def f_def sh2_def example_member_def example_shared_def ClusterState_new_def
    Let_def try_increment_running_def running_queries_def
  have lt: "Some p \<noteq> None \<longrightarrow> running_ref (the (Some p)) < next_ref sh1"
    by (simp add: defs)
  have new: "ClusterState_new ''a'' ''g'' None None E_Trino None 5 True sh1 = (f, sh2)"
    by (simp add: f_def sh2_def)
  have g: "group_name p = ''g''" and one: "running_queries sh1 p = 1"
    by (simp_all add: defs)
  from reload_shares_load [OF lt new refl] g one
  have r: "running_queries sh2 (with_shared_load_counters f (Some p)) = 1"
    "running_queries (decrement_running sh2 p) (with_shared_load_counters f (Some p)) =
     running_queries (decrement_running sh2 (with_shared_load_counters f (Some p)))
       (with_shared_load_counters f (Some p))"
    by simp_all
  then have "running_queries (decrement_running sh2 p) (with_shared_load_counters f (Some p)) = 0"
    by (simp add: decrement_running_def running_queries_def Let_def)
  with r(1) show ?thesis
    by (simp add: split_beta Let_def flip: p_def sh1_def f_def sh2_def)
qed

text \<open>
  A reload keeps a cluster's breaker, with everything it has observed, exactly when the
  previous generation belongs to the same group and ran the same policy; otherwise the member
  starts with a fresh closed breaker, and no existing breaker is modified.
\<close>

theorem reload_breaker:
  assumes "with_circuit_breaker c (Some cfg) previous sh = (c', sh')"
    and "\<forall>p b. previous = Some p \<and> breaker p = Some b \<longrightarrow> b < next_ref sh"
  shows "\<exists>b'. breaker c' = Some b'
    \<and> (if \<exists>p b. previous = Some p \<and> group_name p = group_name c \<and> breaker p = Some b
              \<and> cb_config (breaker_cells sh b) = cfg
       then sh' = sh \<and> breaker (the previous) = Some b'
       else breaker_cells sh' b' = CircuitBreaker_new cfg \<and> b' = next_ref sh)
    \<and> (\<forall>b < next_ref sh. breaker_cells sh' b = breaker_cells sh b)"
  using assms
  by (cases previous; cases "breaker (the previous)")
     (auto simp: with_circuit_breaker_def Let_def split: if_splits)

theorem reload_breaker_witness:
  "let (c, sh) = example_member;
       (c', sh') = with_circuit_breaker c (Some CircuitBreakerConfig_default) None sh
   in breaker c' = Some (next_ref sh)
      \<and> breaker_cells sh' (next_ref sh) = CircuitBreaker_new CircuitBreakerConfig_default"
proof -
  obtain c sh where m: "example_member = (c, sh)" by (cases example_member)
  obtain c' sh' where w: "with_circuit_breaker c (Some CircuitBreakerConfig_default) None sh = (c', sh')"
    by (cases "with_circuit_breaker c (Some CircuitBreakerConfig_default) None sh")
  from reload_breaker [OF w] show ?thesis by (auto simp: m w)
qed

section \<open>The compare-and-swap loops under interleaving\<close>

text \<open>
  Any number of threads call \<open>try_increment_running\<close> and \<open>decrement_running\<close> on one cluster.
  A step is one atomic access of one thread: the initial load, the load of the limit, or the
  \<open>compare_exchange_weak\<close>, which may also fail spuriously and then returns the current value.
  An operator may change the limit at any time, to values up to \<open>L\<close>. The ghost counters
  \<open>incs\<close> and \<open>decs\<close> count the successful exchanges.
\<close>

datatype cas_pc =
    Idle
  | TI_loop u64
  | TI_cas u64 u64
  | TI_ret bool
  | DR_loop u64
  | DR_ret

record counter_sys =
  cell :: u64
  limit :: u64
  pcs :: "nat \<Rightarrow> cas_pc"
  incs :: nat
  decs :: nat

definition counter_init :: "u64 \<Rightarrow> counter_sys" where
  "counter_init l = \<lparr>cell = 0, limit = l, pcs = (\<lambda>_. Idle), incs = 0, decs = 0\<rparr>"

definition goto :: "counter_sys \<Rightarrow> nat \<Rightarrow> cas_pc \<Rightarrow> counter_sys" where
  "goto s t p = s\<lparr>pcs := (pcs s)(t := p)\<rparr>"

inductive counter_step :: "u64 \<Rightarrow> counter_sys \<Rightarrow> counter_sys \<Rightarrow> bool" for L where
  ti_load: "pcs s t = Idle \<Longrightarrow> counter_step L s (goto s t (TI_loop (cell s)))"
| ti_limit: "pcs s t = TI_loop cur \<Longrightarrow> cur < limit s \<Longrightarrow>
     counter_step L s (goto s t (TI_cas cur (limit s)))"
| ti_full: "pcs s t = TI_loop cur \<Longrightarrow> limit s \<le> cur \<Longrightarrow>
     counter_step L s (goto s t (TI_ret False))"
| ti_cas_ok: "pcs s t = TI_cas cur mx \<Longrightarrow> cell s = cur \<Longrightarrow>
     counter_step L s (goto (s\<lparr>cell := cur + 1, incs := incs s + 1\<rparr>) t (TI_ret True))"
| ti_cas_err: "pcs s t = TI_cas cur mx \<Longrightarrow> counter_step L s (goto s t (TI_loop (cell s)))"
| ti_return: "pcs s t = TI_ret b \<Longrightarrow> counter_step L s (goto s t Idle)"
| dr_load: "pcs s t = Idle \<Longrightarrow> counter_step L s (goto s t (DR_loop (cell s)))"
| dr_zero: "pcs s t = DR_loop 0 \<Longrightarrow> counter_step L s (goto s t DR_ret)"
| dr_cas_ok: "pcs s t = DR_loop cur \<Longrightarrow> cur \<noteq> 0 \<Longrightarrow> cell s = cur \<Longrightarrow>
     counter_step L s (goto (s\<lparr>cell := cur - 1, decs := decs s + 1\<rparr>) t DR_ret)"
| dr_cas_err: "pcs s t = DR_loop cur \<Longrightarrow> cur \<noteq> 0 \<Longrightarrow>
     counter_step L s (goto s t (DR_loop (cell s)))"
| dr_return: "pcs s t = DR_ret \<Longrightarrow> counter_step L s (goto s t Idle)"
| set_limit: "v \<le> L \<Longrightarrow> counter_step L s (s\<lparr>limit := v\<rparr>)"

inductive counter_reachable :: "u64 \<Rightarrow> counter_sys \<Rightarrow> bool" for L where
  counter_start: "l \<le> L \<Longrightarrow> counter_reachable L (counter_init l)"
| counter_next: "counter_reachable L s \<Longrightarrow> counter_step L s s' \<Longrightarrow> counter_reachable L s'"

definition counter_inv :: "u64 \<Rightarrow> counter_sys \<Rightarrow> bool" where
  "counter_inv L s \<longleftrightarrow>
     cell s \<le> L \<and> limit s \<le> L
     \<and> unat (cell s) + decs s = incs s
     \<and> (\<forall>t cur mx. pcs s t = TI_cas cur mx \<longrightarrow> cur < mx \<and> mx \<le> L)"

lemma goto_simps [simp]:
  "cell (goto s t p) = cell s" "limit (goto s t p) = limit s"
  "incs (goto s t p) = incs s" "decs (goto s t p) = decs s"
  "pcs (goto s t p) = (pcs s)(t := p)"
  by (simp_all add: goto_def)

lemma counter_inv_cas_ok:
  assumes "counter_inv L s" and "pcs s t = TI_cas cur mx" and "cell s = cur"
  shows "counter_inv L (goto (s\<lparr>cell := cur + 1, incs := incs s + 1\<rparr>) t (TI_ret True))"
proof -
  have lt: "cur < mx" "mx \<le> L" using assms by (auto simp: counter_inv_def)
  then have "cur + 1 \<le> L" using word_less_plus1_le [of cur mx] by simp
  moreover have "unat (cur + 1) = Suc (unat cur)" using lt(1) by (rule unat_plus1_less)
  ultimately show ?thesis using assms by (auto simp: counter_inv_def)
qed

lemma counter_inv_dec_ok:
  assumes "counter_inv L s" and "cur \<noteq> 0" and "cell s = cur"
  shows "counter_inv L (goto (s\<lparr>cell := cur - 1, decs := decs s + 1\<rparr>) t DR_ret)"
proof -
  have pos: "0 < unat cur" using assms(2) by (simp add: unat_gt_0)
  have "unat (cur - 1) = unat cur - 1" using assms(2) by (rule unat_minus1_pos)
  moreover have "unat cur \<le> unat L" using assms by (simp add: counter_inv_def word_le_nat_alt)
  ultimately have "unat (cur - 1) = unat cur - 1" "cur - 1 \<le> L"
    by (simp_all add: word_le_nat_alt)
  then show ?thesis using assms pos by (auto simp: counter_inv_def)
qed

lemma counter_step_inv: "counter_step L s s' \<Longrightarrow> counter_inv L s \<Longrightarrow> counter_inv L s'"
proof (induction rule: counter_step.induct)
  case (ti_cas_ok s t cur mx)
  then show ?case by (blast intro: counter_inv_cas_ok)
next
  case (dr_cas_ok s t cur)
  then show ?case by (blast intro: counter_inv_dec_ok)
qed (auto simp: counter_inv_def)

lemma counter_reachable_inv: "counter_reachable L s \<Longrightarrow> counter_inv L s"
proof (induction rule: counter_reachable.induct)
  case (counter_start l)
  then show ?case by (simp add: counter_inv_def counter_init_def)
next
  case (counter_next s s')
  then show ?case by (blast intro: counter_step_inv)
qed

text \<open>
  Claim C11. Under every interleaving of concurrent reservations and releases (spurious
  compare-and-swap failures and changes of the limit included), the running counter never
  exceeds the largest limit in force, never wraps, and always equals the number of successful
  reservations minus the number of successful releases.
\<close>

theorem concurrent_reservations_bounded:
  assumes "counter_reachable L s"
  shows "cell s \<le> L \<and> unat (cell s) + decs s = incs s"
  using counter_reachable_inv [OF assms] by (simp add: counter_inv_def)

lemma example_counter_reachable:
  "counter_reachable 1 (goto (goto (goto (counter_init 1) 0 (TI_loop 0)) 1 (TI_loop 0)) 0 (TI_cas 0 1))"
proof -
  have "counter_reachable 1 (counter_init 1)" by (rule counter_start) simp
  then have "counter_reachable 1 (goto (counter_init 1) 0 (TI_loop 0))"
    using ti_load [of "counter_init 1" 0 1] by (auto simp: counter_init_def intro: counter_next)
  then have "counter_reachable 1 (goto (goto (counter_init 1) 0 (TI_loop 0)) 1 (TI_loop 0))"
    using ti_load [of "goto (counter_init 1) 0 (TI_loop 0)" 1 1]
    by (auto simp: counter_init_def intro: counter_next)
  then show ?thesis
    using ti_limit [of "goto (goto (counter_init 1) 0 (TI_loop 0)) 1 (TI_loop 0)" 0 0 1]
    by (auto simp: counter_init_def intro: counter_next)
qed

theorem concurrent_reservations_bounded_witness:
  "cell (goto ((goto (goto (goto (counter_init 1) 0 (TI_loop 0)) 1 (TI_loop 0)) 0 (TI_cas 0 1))
           \<lparr>cell := 0 + 1, incs := 0 + 1\<rparr>) 0 (TI_ret True)) \<le> 1"
proof -
  let ?s = "goto (goto (goto (counter_init 1) 0 (TI_loop 0)) 1 (TI_loop 0)) 0 (TI_cas 0 1)"
  have "counter_step 1 ?s (goto (?s\<lparr>cell := 0 + 1, incs := incs ?s + 1\<rparr>) 0 (TI_ret True))"
    by (rule ti_cas_ok [where mx = 1]) (simp_all add: counter_init_def)
  then have "counter_reachable 1 (goto (?s\<lparr>cell := 0 + 1, incs := 0 + 1\<rparr>) 0 (TI_ret True))"
    using example_counter_reachable by (auto simp: counter_init_def intro: counter_next)
  from concurrent_reservations_bounded [OF this] show ?thesis by simp
qed

text \<open>
  The sequential operations are what the loops do at their linearization points: a
  step that changes the shared cell is a successful exchange and changes it exactly as
  \<open>try_increment_running\<close> with the limit the thread read, or as \<open>decrement_running\<close>, does
  on the value the cell holds at that moment.
\<close>

lemma cas_loops_linearize:
  assumes "counter_step L s s'" and "cell s' \<noteq> cell s" and "counter_inv L s"
  shows "\<exists>t. (\<exists>mx. pcs s t = TI_cas (cell s) mx \<and> pcs s' t = TI_ret True
                \<and> (\<forall>sh c. running_queries sh c = cell s \<and> max_running_queries c = mx \<longrightarrow>
                     fst (try_increment_running sh c)
                     \<and> running_queries (snd (try_increment_running sh c)) c = cell s'))
          \<or> (pcs s t = DR_loop (cell s) \<and> pcs s' t = DR_ret
                \<and> (\<forall>sh c. running_queries sh c = cell s \<longrightarrow>
                     running_queries (decrement_running sh c) c = cell s'))"
  using assms
proof (induction rule: counter_step.induct)
  case (ti_cas_ok s t cur mx)
  then have "cur < mx" by (auto simp: counter_inv_def)
  with ti_cas_ok show ?case
    by (intro exI [of _ t] disjI1 exI [of _ mx])
      (auto simp: try_increment_running_def running_queries_def Let_def not_le)
next
  case (dr_cas_ok s t cur)
  then show ?case
    by (intro exI [of _ t] disjI2) (auto simp: decrement_running_def running_queries_def Let_def)
qed auto


end
