(* ===== verification/Strategy.thy ===== *)
theory Strategy
  imports Core_Types
begin

text \<open>
  Cluster selection: \<open>crates/queryflux-cluster-manager/src/strategy.rs\<close>. Each
  \<open>ClusterSelectionStrategy\<close> is a function from its state and the eligible candidates to the
  chosen index and its new state (only round-robin and the Python strategy have any).
  Arithmetic is that of a release build: \<open>u32\<close> and \<open>u64\<close> sums wrap. The Python interpreter
  is a parameter \<open>py\<close>: from the script, the earlier calls and the candidates to a reply. The
  contract the cluster manager relies on, an index inside the candidate slice, is a locale that
  every strategy interprets.
\<close>

section \<open>Data\<close>

record ClusterCandidate =
  cand_name :: string
  cand_engine_type :: EngineType
  cand_running_queries :: u64
  cand_max_running_queries :: u64

datatype PyReply = PyErr string | PyNone | PyStr string

type_synonym python = "string \<Rightarrow> ClusterCandidate list list \<Rightarrow> ClusterCandidate list \<Rightarrow> PyReply"

datatype Strategy =
    RoundRobinStrategy u64
  | LeastLoadedStrategy
  | FailoverStrategy
  | EngineAffinityStrategy "EngineType list"
  | WeightedStrategy "(string \<times> u32) list"
  | PythonScriptStrategy string "ClusterCandidate list list"

datatype EngineConfig =
    EC_Trino | EC_DuckDb | EC_DuckDbHttp | EC_StarRocks | EC_ClickHouse | EC_Athena | EC_Adbc
  | EC_Snowflake

fun engine_type_from_config :: "EngineConfig \<Rightarrow> EngineType" where
  "engine_type_from_config EC_Trino = E_Trino"
| "engine_type_from_config EC_DuckDb = E_DuckDb"
| "engine_type_from_config EC_DuckDbHttp = E_DuckDbHttp"
| "engine_type_from_config EC_StarRocks = E_StarRocks"
| "engine_type_from_config EC_ClickHouse = E_ClickHouse"
| "engine_type_from_config EC_Athena = E_Athena"
| "engine_type_from_config EC_Adbc = E_Adbc"
| "engine_type_from_config EC_Snowflake = E_Snowflake"

datatype StrategyConfig =
    SC_RoundRobin
  | SC_LeastLoaded
  | SC_Failover
  | SC_EngineAffinity "EngineConfig list"
  | SC_Weighted "(string \<times> u32) list"
  | SC_PythonScript "string option" "string option"

section \<open>The strategies\<close>

definition round_robin_pick :: "u64 \<Rightarrow> ClusterCandidate list \<Rightarrow> nat option \<times> u64" where
  "round_robin_pick counter cs =
     (if cs = [] then (None, counter)
      else (Some (unat counter mod length cs), counter + 1))"

definition least_loaded_pick :: "ClusterCandidate list \<Rightarrow> nat option" where
  "least_loaded_pick cs =
     map_option fst (min_by_key (\<lambda>(_, c). cand_running_queries c) (List.enumerate 0 cs))"

definition failover_pick :: "ClusterCandidate list \<Rightarrow> nat option" where
  "failover_pick cs = (if cs = [] then None else Some 0)"

fun affinity_scan :: "EngineType list \<Rightarrow> ClusterCandidate list \<Rightarrow> nat option" where
  "affinity_scan [] cs = Some 0"
| "affinity_scan (e # es) cs =
     (let engine_candidates =
        map fst (filter (\<lambda>(_, c). cand_engine_type c = e) (List.enumerate 0 cs))
      in if engine_candidates \<noteq> []
         then min_by_key (\<lambda>i. cand_running_queries (cs ! i)) engine_candidates
         else affinity_scan es cs)"

definition engine_affinity_pick :: "EngineType list \<Rightarrow> ClusterCandidate list \<Rightarrow> nat option" where
  "engine_affinity_pick preference cs = (if cs = [] then None else affinity_scan preference cs)"

definition weight_of :: "(string \<times> u32) list \<Rightarrow> string \<Rightarrow> u32" where
  "weight_of weights name =
     (case find (\<lambda>(n, _). n = name) weights of Some (_, w) \<Rightarrow> w | None \<Rightarrow> 1)"

fun weighted_scan :: "u32 \<Rightarrow> u32 \<Rightarrow> (nat \<times> u32) list \<Rightarrow> nat option" where
  "weighted_scan roll acc [] = None"
| "weighted_scan roll acc ((idx, weight) # rest) =
     (let acc' = acc + weight in
      if roll < acc' then Some idx else weighted_scan roll acc' rest)"

definition weighted_seed :: "ClusterCandidate list \<Rightarrow> u64" where
  "weighted_seed cs =
     (sum_list (map cand_running_queries cs) + of_nat (length cs)) * 2654435761"

definition weighted_pick :: "(string \<times> u32) list \<Rightarrow> ClusterCandidate list \<Rightarrow> nat option" where
  "weighted_pick weights cs =
     (if cs = [] then None
      else
        let weighted = map (\<lambda>(i, c). (i, weight_of weights (cand_name c))) (List.enumerate 0 cs);
            total = sum_list (map snd weighted)
        in if total = 0 then Some 0
           else
             let roll = ucast (weighted_seed cs mod ucast total)
             in (case weighted_scan roll 0 weighted of
                   Some idx \<Rightarrow> Some idx
                 | None \<Rightarrow> Some (fst (last weighted))))"

definition python_pick ::
  "python \<Rightarrow> string \<Rightarrow> ClusterCandidate list list \<Rightarrow> ClusterCandidate list \<Rightarrow> nat option" where
  "python_pick py script earlier cs =
     (case py script earlier cs of
        PyErr e \<Rightarrow> None
      | PyNone \<Rightarrow> None
      | PyStr name \<Rightarrow> position (\<lambda>c. cand_name c = name) cs)"

fun pick :: "python \<Rightarrow> Strategy \<Rightarrow> ClusterCandidate list \<Rightarrow> nat option \<times> Strategy" where
  "pick py (RoundRobinStrategy counter) cs =
     (case round_robin_pick counter cs of (r, counter') \<Rightarrow> (r, RoundRobinStrategy counter'))"
| "pick py LeastLoadedStrategy cs = (least_loaded_pick cs, LeastLoadedStrategy)"
| "pick py FailoverStrategy cs = (failover_pick cs, FailoverStrategy)"
| "pick py (EngineAffinityStrategy preference) cs =
     (engine_affinity_pick preference cs, EngineAffinityStrategy preference)"
| "pick py (WeightedStrategy weights) cs = (weighted_pick weights cs, WeightedStrategy weights)"
| "pick py (PythonScriptStrategy script earlier) cs =
     (python_pick py script earlier cs, PythonScriptStrategy script (earlier @ [cs]))"

fun requires_blocking_dispatch :: "Strategy \<Rightarrow> bool" where
  "requires_blocking_dispatch (PythonScriptStrategy _ _) = True"
| "requires_blocking_dispatch _ = False"

text \<open>\<open>read_file\<close> stands for \<open>std::fs::read_to_string\<close>; \<open>Inl\<close> is the I/O error's text.\<close>

definition strategy_from_config ::
  "(string \<Rightarrow> string + string) \<Rightarrow> StrategyConfig option \<Rightarrow> Strategy result" where
  "strategy_from_config read_file config =
     (case config of
        None \<Rightarrow> Inr (RoundRobinStrategy 0)
      | Some SC_RoundRobin \<Rightarrow> Inr (RoundRobinStrategy 0)
      | Some SC_LeastLoaded \<Rightarrow> Inr LeastLoadedStrategy
      | Some SC_Failover \<Rightarrow> Inr FailoverStrategy
      | Some (SC_EngineAffinity preference) \<Rightarrow>
          Inr (EngineAffinityStrategy (map engine_type_from_config preference))
      | Some (SC_Weighted weights) \<Rightarrow> Inr (WeightedStrategy weights)
      | Some (SC_PythonScript script script_file) \<Rightarrow>
          (case script_file of
             Some path \<Rightarrow>
               (case read_file path of
                  Inl e \<Rightarrow> Inl (Config (''Failed to read cluster-selection script '' @ path @ '': '' @ e))
                | Inr text \<Rightarrow> Inr (PythonScriptStrategy text []))
           | None \<Rightarrow>
               (case script of
                  Some inline \<Rightarrow> Inr (PythonScriptStrategy inline [])
                | None \<Rightarrow> Inl (Config (''pythonScript strategy has neither 'script' nor 'scriptFile'' @ [CHR 0x27])))))"

section \<open>The contract of a strategy\<close>

text \<open>
  What \<open>acquire_cluster\<close> needs of a strategy before it indexes the eligible list: for a
  non-empty slice, an index it returns lies inside the slice. The caller turns "no selection"
  into index 0.
\<close>

locale selection_strategy =
  fixes sel :: "'s \<Rightarrow> ClusterCandidate list \<Rightarrow> nat option \<times> 's"
  assumes sel_in_range: "cs \<noteq> [] \<Longrightarrow> sel s cs = (Some i, s') \<Longrightarrow> i < length cs"
begin

lemma chosen_index_valid:
  "cs \<noteq> [] \<Longrightarrow> (case fst (sel s cs) of None \<Rightarrow> 0 | Some i \<Rightarrow> i) < length cs"
  using sel_in_range [of cs s _ "snd (sel s cs)"]
  by (auto split: option.splits simp: prod_eq_iff)

end

lemma enumerate_snd: "(i, c) \<in> set (List.enumerate 0 cs) \<Longrightarrow> i < length cs \<and> c = cs ! i"
  by (auto simp: in_set_enumerate_eq)

lemma least_loaded_pick_spec:
  assumes "least_loaded_pick cs = Some i"
  shows "i < length cs" and "j < length cs \<Longrightarrow> cand_running_queries (cs ! i) \<le> cand_running_queries (cs ! j)"
proof -
  from assms obtain c where m: "min_by_key (\<lambda>(_, c). cand_running_queries c) (List.enumerate 0 cs) = Some (i, c)"
    by (auto simp: least_loaded_pick_def)
  from enumerate_snd [OF min_by_key_in [OF m]] have ic: "i < length cs" "c = cs ! i" by auto
  then show "i < length cs" by simp
  assume "j < length cs"
  then have "(j, cs ! j) \<in> set (List.enumerate 0 cs)" by (simp add: in_set_enumerate_eq)
  from min_by_key_le [OF m this] show "cand_running_queries (cs ! i) \<le> cand_running_queries (cs ! j)"
    by (simp add: ic)
qed

lemma affinity_candidates:
  "set (map fst (filter (\<lambda>(_, c). cand_engine_type c = e) (List.enumerate 0 cs))) =
     {i. i < length cs \<and> cand_engine_type (cs ! i) = e}"
  by (force simp: in_set_enumerate_eq image_iff)

lemma affinity_scan_in_range: "cs \<noteq> [] \<Longrightarrow> affinity_scan es cs = Some i \<Longrightarrow> i < length cs"
proof (induction es)
  case (Cons e es)
  let ?ec = "map fst (filter (\<lambda>(_, c). cand_engine_type c = e) (List.enumerate 0 cs))"
  show ?case
  proof (cases "?ec = []")
    case True
    with Cons show ?thesis by (simp add: Let_def)
  next
    case False
    with Cons.prems have "min_by_key (\<lambda>i. cand_running_queries (cs ! i)) ?ec = Some i"
      by (auto simp: Let_def split: if_splits)
    then have "i \<in> set ?ec" by (rule min_by_key_in)
    then show ?thesis unfolding affinity_candidates by simp
  qed
qed simp

lemma weighted_scan_in: "weighted_scan roll acc ws = Some i \<Longrightarrow> i \<in> fst ` set ws"
  by (induction roll acc ws rule: weighted_scan.induct) (auto simp: Let_def split: if_splits)

lemma weighted_pick_in_range:
  assumes "cs \<noteq> []" and "weighted_pick weights cs = Some i"
  shows "i < length cs"
proof -
  let ?w = "map (\<lambda>(i, c). (i, weight_of weights (cand_name c))) (List.enumerate 0 cs)"
  have fst_w: "j < length cs" if "j \<in> fst ` set ?w" for j
    using that by (auto simp: in_set_enumerate_eq)
  have "?w \<noteq> []" using assms(1) by (cases cs) simp_all
  then have "fst (last ?w) \<in> fst ` set ?w" by (intro imageI last_in_set)
  with assms fst_w weighted_scan_in show ?thesis
    by (fastforce simp: weighted_pick_def Let_def split: if_splits option.splits)
qed

interpretation rr: selection_strategy round_robin_pick
  by unfold_locales (auto simp: round_robin_pick_def)

interpretation least_loaded: selection_strategy "\<lambda>s cs. (least_loaded_pick cs, s)"
  by unfold_locales (auto dest: least_loaded_pick_spec(1))

interpretation failover: selection_strategy "\<lambda>s cs. (failover_pick cs, s)"
  by unfold_locales (auto simp: failover_pick_def)

interpretation affinity: selection_strategy "\<lambda>s cs. (engine_affinity_pick s cs, s)"
  by unfold_locales (auto simp: engine_affinity_pick_def dest: affinity_scan_in_range)

interpretation weighted: selection_strategy "\<lambda>s cs. (weighted_pick s cs, s)"
  by unfold_locales (auto dest: weighted_pick_in_range)

interpretation any_strategy: selection_strategy "pick py" for py
proof unfold_locales
  fix cs :: "ClusterCandidate list" and s s' i
  assume ne: "cs \<noteq> []" and p: "pick py s cs = (Some i, s')"
  show "i < length cs"
  proof (cases s)
    case (RoundRobinStrategy x)
    with ne p rr.sel_in_range show ?thesis by (fastforce split: prod.splits)
  next
    case (WeightedStrategy ws)
    with ne p show ?thesis using weighted_pick_in_range by fastforce
  next
    case (EngineAffinityStrategy es)
    with ne p show ?thesis using affinity_scan_in_range by (auto simp: engine_affinity_pick_def)
  next
    case (PythonScriptStrategy script earlier)
    with p show ?thesis by (auto simp: python_pick_def split: PyReply.splits dest: position_Some)
  next
    case LeastLoadedStrategy
    with p show ?thesis by (auto dest: least_loaded_pick_spec(1))
  next
    case FailoverStrategy
    with ne p show ?thesis by (auto simp: failover_pick_def)
  qed
qed

section \<open>What each strategy selects\<close>

definition cand :: "string \<Rightarrow> EngineType \<Rightarrow> u64 \<Rightarrow> u64 \<Rightarrow> ClusterCandidate" where
  "cand n e r m = \<lparr>cand_name = n, cand_engine_type = e, cand_running_queries = r,
     cand_max_running_queries = m\<rparr>"

text \<open>
  Whatever strategy a group is configured with, and whatever an operator's Python
  script answers, the index used for the eligible list (0 when nothing is selected) is inside
  that list, so indexing it cannot panic.
\<close>

theorem pick_never_out_of_range:
  assumes "cs \<noteq> []"
  shows "(case fst (pick py s cs) of None \<Rightarrow> 0 | Some i \<Rightarrow> i) < length cs"
  by (rule any_strategy.chosen_index_valid [OF assms])

theorem pick_never_out_of_range_witness:
  "(case fst (pick (\<lambda>_ _ _. PyStr ''nowhere'') (PythonScriptStrategy ''s'' [])
      [cand ''a'' E_Trino 1 2]) of None \<Rightarrow> 0 | Some i \<Rightarrow> i) < length [cand ''a'' E_Trino 1 2]"
  by (rule pick_never_out_of_range) simp

lemma enumerate_Nil_iff [simp]: "List.enumerate n xs = [] \<longleftrightarrow> xs = []"
  by (cases xs) simp_all

lemma least_loaded_first:
  assumes "least_loaded_pick cs = Some i" and "j < i"
  shows "cand_running_queries (cs ! i) < cand_running_queries (cs ! j)"
proof -
  have gen: "min_by_key k (List.enumerate n xs) = Some (i, c) \<Longrightarrow> n \<le> j \<Longrightarrow> j < i
      \<Longrightarrow> k (i, c) < k (j, xs ! (j - n))" for k :: "nat \<times> ClusterCandidate \<Rightarrow> u64" and n xs i c j
  proof (induction xs arbitrary: n i c)
    case (Cons x xs)
    show ?case
    proof (cases "min_by_key k (List.enumerate (Suc n) xs)")
      case None
      then have "xs = []" by simp
      with Cons.prems show ?thesis by simp
    next
      case (Some y)
      then show ?thesis
        using Cons.prems Cons.IH [of "Suc n" i c]
        by (cases "j = n") (auto split: if_splits simp: nth_Cons' Suc_le_eq)
    qed
  qed simp
  from assms(1) obtain c where
    m: "min_by_key (\<lambda>(_, c). cand_running_queries c) (List.enumerate 0 cs) = Some (i, c)"
    by (auto simp: least_loaded_pick_def)
  have "c = cs ! i" using enumerate_snd [OF min_by_key_in [OF m]] by simp
  with gen [OF m _ assms(2)] show ?thesis by simp
qed

text \<open>
  The least-loaded strategy returns a candidate with the fewest running queries, and
  of several such candidates the first in member order; it selects something whenever there is
  a candidate.
\<close>

theorem least_loaded_correct:
  "(least_loaded_pick cs = None \<longleftrightarrow> cs = [])
   \<and> (least_loaded_pick cs = Some i \<longrightarrow>
        i < length cs
        \<and> (\<forall>j < length cs. cand_running_queries (cs ! i) \<le> cand_running_queries (cs ! j))
        \<and> (\<forall>j < i. cand_running_queries (cs ! i) < cand_running_queries (cs ! j)))"
proof (intro conjI impI allI)
  show "least_loaded_pick cs = None \<longleftrightarrow> cs = []"
    by (simp add: least_loaded_pick_def)
qed (simp_all add: least_loaded_pick_spec least_loaded_first)

theorem least_loaded_correct_witness:
  "\<forall>j < 2. cand_running_queries ([cand ''a'' E_Trino 5 100, cand ''b'' E_Trino 4 5] ! 1)
      \<le> cand_running_queries ([cand ''a'' E_Trino 5 100, cand ''b'' E_Trino 4 5] ! j)"
proof -
  let ?cs = "[cand ''a'' E_Trino 5 100, cand ''b'' E_Trino 4 5]"
  have "least_loaded_pick ?cs = Some 1"
    by (simp add: least_loaded_pick_def cand_def)
  with conjunct2 [OF least_loaded_correct, of ?cs 1]
  have "\<forall>j < length ?cs. cand_running_queries (?cs ! 1) \<le> cand_running_queries (?cs ! j)" by blast
  then show ?thesis by simp
qed

text \<open>The successive picks of the round-robin strategy over an unchanged candidate list.\<close>

fun round_robin_run :: "nat \<Rightarrow> u64 \<Rightarrow> ClusterCandidate list \<Rightarrow> nat option list" where
  "round_robin_run 0 counter cs = []"
| "round_robin_run (Suc n) counter cs =
     (case round_robin_pick counter cs of (r, counter') \<Rightarrow> r # round_robin_run n counter' cs)"

lemma round_robin_run_eq:
  assumes "cs \<noteq> []" and "unat counter + n \<le> 2 ^ 64"
  shows "round_robin_run n counter cs = map (\<lambda>k. Some ((unat counter + k) mod length cs)) [0..<n]"
  using assms(2)
proof (induction n arbitrary: counter)
  case (Suc n)
  show ?case
  proof (cases n)
    case 0
    with assms(1) show ?thesis by (simp add: round_robin_pick_def)
  next
    case (Suc m)
    with Suc.prems have "unat (counter + 1) = Suc (unat counter)"
      by (simp add: unat_word_ariths)
    with Suc.IH [of "counter + 1"] Suc.prems assms(1) show ?thesis
      by (simp add: round_robin_pick_def upt_conv_Cons map_Suc_upt [symmetric] del: upt_Suc map_Suc_upt)
  qed
qed simp

lemma shifted_mod_bij:
  fixes a n :: nat
  assumes "0 < n"
  shows "inj_on (\<lambda>k. (a + k) mod n) {..<n}" and "(\<lambda>k. (a + k) mod n) ` {..<n} = {..<n}"
proof -
  have le: "i = j" if "i \<le> j" "j < n" "(a + j) mod n = (a + i) mod n" for i j
  proof -
    have "n dvd (a + j) - (a + i)" using that mod_eq_dvd_iff_nat [of "a + i" "a + j" n] by simp
    then have "n dvd j - i" by simp
    with that have "j - i = 0" by (auto dest: dvd_imp_le)
    with that show ?thesis by simp
  qed
  show inj: "inj_on (\<lambda>k. (a + k) mod n) {..<n}"
    by (rule inj_onI) (metis le lessThan_iff nat_le_linear)
  have "(\<lambda>k. (a + k) mod n) ` {..<n} \<subseteq> {..<n}" using assms by auto
  with inj show "(\<lambda>k. (a + k) mod n) ` {..<n} = {..<n}"
    by (simp add: endo_inj_surj)
qed

text \<open>
  Round-robin is fair: as many consecutive picks as there are candidates select every
  candidate exactly once, from whatever counter value they start (short of the 64-bit wrap).
\<close>

theorem round_robin_fair:
  assumes "cs \<noteq> []" and "unat counter + length cs \<le> 2 ^ 64"
  shows "distinct (round_robin_run (length cs) counter cs)
    \<and> set (round_robin_run (length cs) counter cs) = Some ` {..<length cs}"
proof -
  have eq: "round_robin_run (length cs) counter cs =
      map Some (map (\<lambda>k. (unat counter + k) mod length cs) [0..<length cs])"
    using round_robin_run_eq [OF assms] by simp
  have pos: "0 < length cs" using assms(1) by simp
  have "{0..<length cs} = {..<length cs}" by auto
  with shifted_mod_bij [OF pos, of "unat counter"] show ?thesis
    unfolding eq by (simp add: distinct_map image_image [symmetric] del: map_map)
qed

theorem round_robin_fair_witness:
  "set (round_robin_run 2 7 [cand ''a'' E_Trino 0 1, cand ''b'' E_Trino 0 1]) = Some ` {..<2}"
proof -
  let ?cs = "[cand ''a'' E_Trino 0 1, cand ''b'' E_Trino 0 1]"
  have "unat (7 :: u64) + length ?cs \<le> 2 ^ 64" by simp
  then have "set (round_robin_run (length ?cs) 7 ?cs) = Some ` {..<length ?cs}"
    using round_robin_fair [of ?cs 7] by blast
  moreover have "length ?cs = 2" by simp
  ultimately show ?thesis by (simp only:)
qed

text \<open>
  Engine affinity honours the preference order: the selected candidate runs the first
  preferred engine that any candidate has and is least loaded among the candidates of that
  engine; if no candidate has a preferred engine, the first candidate is selected.
\<close>

theorem engine_affinity_correct:
  assumes "cs \<noteq> []"
  shows "\<exists>i. engine_affinity_pick preference cs = Some i \<and> i < length cs
    \<and> (case find (\<lambda>e. \<exists>c \<in> set cs. cand_engine_type c = e) preference of
         None \<Rightarrow> i = 0
       | Some e \<Rightarrow> cand_engine_type (cs ! i) = e
           \<and> (\<forall>c \<in> set cs. cand_engine_type c = e \<longrightarrow>
                cand_running_queries (cs ! i) \<le> cand_running_queries c))"
proof (induction preference)
  case Nil
  with assms show ?case by (simp add: engine_affinity_pick_def)
next
  case (Cons e es)
  let ?ec = "map fst (filter (\<lambda>(_, c). cand_engine_type c = e) (List.enumerate 0 cs))"
  have ec: "set ?ec = {i. i < length cs \<and> cand_engine_type (cs ! i) = e}"
    by (rule affinity_candidates)
  show ?case
  proof (cases "\<exists>c \<in> set cs. cand_engine_type c = e")
    case True
    then have "set ?ec \<noteq> {}" unfolding ec by (auto simp: in_set_conv_nth)
    then have ne: "?ec \<noteq> []" by (metis set_empty)
    then obtain i where m: "min_by_key (\<lambda>i. cand_running_queries (cs ! i)) ?ec = Some i"
      by (metis min_by_key_None option.exhaust)
    have "i \<in> set ?ec" using m by (rule min_by_key_in)
    moreover have "\<forall>j \<in> set ?ec. cand_running_queries (cs ! i) \<le> cand_running_queries (cs ! j)"
      using min_by_key_le [OF m] by blast
    ultimately have "i < length cs" "cand_engine_type (cs ! i) = e"
      "\<forall>c \<in> set cs. cand_engine_type c = e \<longrightarrow> cand_running_queries (cs ! i) \<le> cand_running_queries c"
      unfolding ec by (auto simp: in_set_conv_nth)
    moreover have "engine_affinity_pick (e # es) cs = Some i"
      using assms ne m by (simp add: engine_affinity_pick_def Let_def)
    ultimately show ?thesis using True by simp
  next
    case False
    then have "set ?ec = {}" unfolding ec using nth_mem by blast
    then have "?ec = []" by (simp only: set_empty)
    then have "engine_affinity_pick (e # es) cs = engine_affinity_pick es cs"
      using assms by (simp add: engine_affinity_pick_def)
    with Cons False show ?thesis by simp
  qed
qed

theorem engine_affinity_correct_witness:
  "\<exists>i. engine_affinity_pick [E_DuckDb, E_Trino]
         [cand ''a'' E_StarRocks 0 9, cand ''b'' E_Trino 3 9, cand ''c'' E_Trino 1 9] = Some i
     \<and> cand_engine_type ([cand ''a'' E_StarRocks 0 9, cand ''b'' E_Trino 3 9, cand ''c'' E_Trino 1 9] ! i) = E_Trino"
proof -
  let ?cs = "[cand ''a'' E_StarRocks 0 9, cand ''b'' E_Trino 3 9, cand ''c'' E_Trino 1 9]"
  have "find (\<lambda>e. \<exists>c \<in> set ?cs. cand_engine_type c = e) [E_DuckDb, E_Trino] = Some E_Trino"
    by (simp add: cand_def)
  note f = this
  have "?cs \<noteq> []" by simp
  from engine_affinity_correct [OF this, of "[E_DuckDb, E_Trino]"] show ?thesis
    unfolding f option.case by blast
qed

section \<open>Weighted selection\<close>

lemma unat_sum_list_word:
  fixes ws :: "'a::len word list"
  shows "sum_list (map unat ws) < 2 ^ LENGTH('a) \<Longrightarrow> unat (sum_list ws) = sum_list (map unat ws)"
proof (induction ws)
  case (Cons w ws)
  then have "unat (sum_list ws) = sum_list (map unat ws)" by simp
  with Cons.prems show ?case using unat_add_lem [of w "sum_list ws"] by simp
qed simp

lemma unat_ucast_u64: "unat (ucast t :: u64) = unat t" for t :: u32
proof -
  have "unat t < 2 ^ 32" using unat_less [of t] by simp
  then show ?thesis by (simp add: unsigned_ucast_eq take_bit_nat_eq_self)
qed

lemma unat_roll:
  fixes t :: u32 and x :: u64
  assumes "0 < unat t"
  shows "unat (ucast (x mod ucast t) :: u32) = unat x mod unat t"
proof -
  have y: "unat (x mod ucast t) = unat x mod unat t" by (simp only: unat_mod unat_ucast_u64)
  have "unat x mod unat t < unat t" using assms by simp
  also have "unat t < 2 ^ 32" using unat_less [of t] by simp
  finally have "unat x mod unat t < 2 ^ 32" .
  then show ?thesis
    by (simp add: unsigned_ucast_eq [of "x mod ucast t"] y take_bit_nat_eq_self del: unat_mod)
qed

text \<open>Without wrap-around the scan stops at the candidate whose weight interval holds the roll.\<close>

lemma weighted_scan_spec:
  assumes "unat acc + sum_list (map (unat \<circ> snd) ws) < 2 ^ 32"
    and "acc \<le> roll" and "unat roll < unat acc + sum_list (map (unat \<circ> snd) ws)"
  shows "\<exists>i w. weighted_scan roll acc ws = Some i \<and> (i, w) \<in> set ws \<and> w \<noteq> 0"
  using assms
proof (induction ws arbitrary: acc)
  case (Cons iw ws)
  obtain i w where iw: "iw = (i, w)" by (cases iw)
  have u: "unat (acc + w) = unat acc + unat w"
    using Cons.prems(1) unat_add_lem [of acc w] by (simp add: iw)
  show ?case
  proof (cases "roll < acc + w")
    case True
    then have "w \<noteq> 0" using Cons.prems(2) by (metis add.right_neutral not_le)
    moreover have "weighted_scan roll acc (iw # ws) = Some i" using True iw by simp
    ultimately show ?thesis using iw by (metis list.set_intros(1))
  next
    case False
    then have "weighted_scan roll acc (iw # ws) = weighted_scan roll (acc + w) ws"
      using iw by simp
    moreover have "\<exists>j v. weighted_scan roll (acc + w) ws = Some j \<and> (j, v) \<in> set ws \<and> v \<noteq> 0"
      using False Cons.prems u iw by (intro Cons.IH) (simp_all add: not_less)
    ultimately show ?thesis by (metis list.set_intros(2))
  qed
qed (simp add: word_le_nat_alt)

text \<open>
  As long as the configured weights do not overflow 32 bits, the weighted strategy never
  selects a candidate of weight 0 while some candidate has a positive weight, and a candidate
  the configuration does not mention counts with weight 1.
\<close>

theorem weighted_never_zero:
  assumes "c0 \<in> set cs" and "weight_of weights (cand_name c0) \<noteq> 0"
    and "sum_list (map (\<lambda>c. unat (weight_of weights (cand_name c))) cs) < 2 ^ 32"
  shows "\<exists>i < length cs. weighted_pick weights cs = Some i
           \<and> weight_of weights (cand_name (cs ! i)) \<noteq> 0"
proof -
  define W where "W = map (\<lambda>(i, c). (i, weight_of weights (cand_name c))) (List.enumerate 0 cs)"
  define total where "total = sum_list (map snd W)"
  define roll :: u32 where "roll = ucast (weighted_seed cs mod ucast total)"
  have snd_W: "map snd W = map (\<lambda>c. weight_of weights (cand_name c)) cs"
    unfolding W_def by (rule nth_equalityI) (simp_all add: nth_enumerate_eq)
  have in_W: "i < length cs \<and> w = weight_of weights (cand_name (cs ! i))" if "(i, w) \<in> set W" for i w
    using that by (auto simp: W_def in_set_enumerate_eq)
  have "map (unat \<circ> snd) W = map unat (map snd W)" by simp
  then have sum_W: "sum_list (map (unat \<circ> snd) W) =
      sum_list (map (\<lambda>c. unat (weight_of weights (cand_name c))) cs)"
    unfolding snd_W by (simp add: comp_def)
  have total: "unat total = sum_list (map (unat \<circ> snd) W)"
    unfolding total_def using unat_sum_list_word [of "map snd W"] assms(3) sum_W by simp
  have "unat (weight_of weights (cand_name c0)) \<le> unat total"
    unfolding total sum_W using assms(1) by (intro member_le_sum_list) auto
  moreover have "0 < unat (weight_of weights (cand_name c0))" using assms(2) by (simp add: unat_gt_0)
  ultimately have pos: "0 < unat total" by linarith
  then have "unat roll < unat total" unfolding roll_def by (simp only: unat_roll mod_less_divisor)
  then obtain i w where scan: "weighted_scan roll 0 W = Some i" "(i, w) \<in> set W" "w \<noteq> 0"
    using weighted_scan_spec [of 0 W roll] assms(3) by (auto simp: total sum_W)
  have "cs \<noteq> []" "total \<noteq> 0" using assms(1) pos by auto
  then have "weighted_pick weights cs = Some i"
    using scan(1) unfolding weighted_pick_def Let_def
    by (simp flip: W_def) (simp flip: total_def roll_def)
  with in_W [OF scan(2)] scan(3) show ?thesis by blast
qed

theorem weighted_never_zero_witness:
  "\<exists>i < 2. weighted_pick [(''a'', 0)] [cand ''a'' E_Trino 0 9, cand ''b'' E_Trino 0 9] = Some i
     \<and> weight_of [(''a'', 0)] (cand_name ([cand ''a'' E_Trino 0 9, cand ''b'' E_Trino 0 9] ! i)) \<noteq> 0"
proof -
  let ?cs = "[cand ''a'' E_Trino 0 9, cand ''b'' E_Trino 0 9]"
  have "cand ''b'' E_Trino 0 9 \<in> set ?cs" by simp
  moreover have "weight_of [(''a'', 0)] (cand_name (cand ''b'' E_Trino 0 9)) \<noteq> 0"
    by (simp add: weight_of_def cand_def)
  moreover have "sum_list (map (\<lambda>c. unat (weight_of [(''a'', 0)] (cand_name c))) ?cs) < 2 ^ 32"
    by (simp add: weight_of_def cand_def)
  ultimately have "\<exists>i < length ?cs. weighted_pick [(''a'', 0)] ?cs = Some i
      \<and> weight_of [(''a'', 0)] (cand_name (?cs ! i)) \<noteq> 0"
    by (rule weighted_never_zero)
  moreover have "length ?cs = 2" by simp
  ultimately show ?thesis by (simp only:)
qed

end
