(* ===== verification/Cluster_Manager.thy ===== *)
theory Cluster_Manager
  imports Cluster_State Strategy
begin

text \<open>
  The cluster-group manager: \<open>crates/queryflux-cluster-manager/src/simple.rs\<close> implementing the
  trait of \<open>crates/queryflux-cluster-manager/src/lib.rs\<close>. Groups are an association list with
  distinct keys (a \<open>HashMap\<close> in its iteration order). Other tasks run between the atomic
  accesses of \<open>acquire_cluster\<close>: they are the parameter \<open>env\<close>, applied before every access,
  so the theorems hold for every interference they allow. A panic inside the blocking Python
  task (a \<open>JoinError\<close>) is not modelled.
\<close>

section \<open>State\<close>

type_synonym ManagedGroup = "ClusterState list \<times> Strategy"

record Manager =
  mgr_groups :: "(ClusterGroupName \<times> ManagedGroup) list"
  mgr_shared :: Shared

type_synonym members = "ClusterState list \<times> Shared"
type_synonym interference = "nat \<Rightarrow> members \<Rightarrow> members"

definition get_group :: "Manager \<Rightarrow> ClusterGroupName \<Rightarrow> ManagedGroup option" where
  "get_group m g = map_of (mgr_groups m) g"

definition set_group :: "Manager \<Rightarrow> ClusterGroupName \<Rightarrow> ManagedGroup \<Rightarrow> Manager" where
  "set_group m g v =
     m\<lparr>mgr_groups := map (\<lambda>(k, x). if k = g then (k, v) else (k, x)) (mgr_groups m)\<rparr>"

section \<open>Operations\<close>

definition eligible :: "members \<Rightarrow> nat list" where
  "eligible st =
     (case st of (cs, sh) \<Rightarrow>
        filter (\<lambda>i. can_accept_query sh (cs ! i) \<and> \<not> is_at_capacity sh (cs ! i)) [0..<length cs])"

definition candidate :: "members \<Rightarrow> nat \<Rightarrow> ClusterCandidate" where
  "candidate st i =
     (case st of (cs, sh) \<Rightarrow>
        \<lparr>cand_name = cluster_name (cs ! i), cand_engine_type = engine_type (cs ! i),
         cand_running_queries = running_queries sh (cs ! i),
         cand_max_running_queries = max_running_queries (cs ! i)\<rparr>)"

text \<open>
  Admission to one member: check, reserve, check again, and give the slot back if the member
  stopped accepting in between. The environment runs before each of the accesses.
\<close>

definition try_admit :: "interference \<Rightarrow> nat \<Rightarrow> nat \<Rightarrow> members \<Rightarrow> bool \<times> members" where
  "try_admit env k i st0 =
     (case env k st0 of (cs1, sh1) \<Rightarrow>
      if \<not> can_accept_query sh1 (cs1 ! i) then (False, (cs1, sh1))
      else
        (case env (k + 1) (cs1, sh1) of (cs2, sh2) \<Rightarrow>
         case try_increment_running sh2 (cs2 ! i) of
           (False, sh3) \<Rightarrow> (False, (cs2, sh3))
         | (True, sh3) \<Rightarrow>
             (case env (k + 2) (cs2, sh3) of (cs4, sh4) \<Rightarrow>
              if can_accept_query sh4 (cs4 ! i) then (True, (cs4, sh4))
              else
                (case env (k + 3) (cs4, sh4) of (cs5, sh5) \<Rightarrow>
                 (False, (cs5, decrement_running sh5 (cs5 ! i)))))))"

fun admit_first :: "interference \<Rightarrow> nat \<Rightarrow> nat list \<Rightarrow> members \<Rightarrow> nat option \<times> members" where
  "admit_first env k [] st = (None, st)"
| "admit_first env k (i # is) st =
     (case try_admit env k i st of
        (True, st') \<Rightarrow> (Some i, st')
      | (False, st') \<Rightarrow> admit_first env (k + 4) is st')"

definition acquire_cluster ::
  "interference \<Rightarrow> python \<Rightarrow> Manager \<Rightarrow> ClusterGroupName \<Rightarrow> ClusterName option result \<times> Manager" where
  "acquire_cluster env py m grp =
     (case get_group m grp of
        None \<Rightarrow> (Inl (NoClusterGroupAvailable grp), m)
      | Some (cs, strategy) \<Rightarrow>
          let st = (cs, mgr_shared m); el = eligible st in
          if el = [] then (Inr None, m)
          else
            let st1 = env 0 st in
            (case pick py strategy (map (candidate st1) el) of (picked, strategy') \<Rightarrow>
               let idx = (case picked of None \<Rightarrow> 0 | Some i \<Rightarrow> i); chosen = el ! idx in
               (case admit_first env 1 (chosen # el) st1 of (r, (cs', sh')) \<Rightarrow>
                  (Inr (map_option (\<lambda>i. cluster_name (cs' ! i)) r),
                   (set_group m grp (cs', strategy'))\<lparr>mgr_shared := sh'\<rparr>))))"

definition member_index :: "ClusterState list \<Rightarrow> ClusterName \<Rightarrow> nat option" where
  "member_index cs cluster = position (\<lambda>c. cluster_name c = cluster) cs"

definition release_cluster :: "Manager \<Rightarrow> ClusterGroupName \<Rightarrow> ClusterName \<Rightarrow> Manager" where
  "release_cluster m grp cluster =
     (case get_group m grp of
        None \<Rightarrow> m
      | Some (cs, _) \<Rightarrow>
          (case member_index cs cluster of
             None \<Rightarrow> m
           | Some i \<Rightarrow> m\<lparr>mgr_shared := decrement_running (mgr_shared m) (cs ! i)\<rparr>))"

definition mgr_record_backend_outcome ::
  "Manager \<Rightarrow> ClusterGroupName \<Rightarrow> ClusterName \<Rightarrow> BackendOutcome \<Rightarrow> instant \<Rightarrow> Manager" where
  "mgr_record_backend_outcome m grp cluster o' now =
     (case get_group m grp of
        None \<Rightarrow> m
      | Some (cs, _) \<Rightarrow>
          (case member_index cs cluster of
             None \<Rightarrow> m
           | Some i \<Rightarrow> m\<lparr>mgr_shared := snd (record_backend_outcome (mgr_shared m) (cs ! i) o' now)\<rparr>))"

definition cluster_state :: "Manager \<Rightarrow> ClusterGroupName \<Rightarrow> ClusterName \<Rightarrow> ClusterStateSnapshot option" where
  "cluster_state m grp cluster =
     (case get_group m grp of
        None \<Rightarrow> None
      | Some (cs, _) \<Rightarrow> map_option (\<lambda>i. snapshot (mgr_shared m) (cs ! i)) (member_index cs cluster))"

definition all_cluster_states :: "Manager \<Rightarrow> ClusterStateSnapshot list" where
  "all_cluster_states m =
     concat (map (\<lambda>(_, cs, _). map (snapshot (mgr_shared m)) cs) (mgr_groups m))"

definition update_cluster ::
  "Manager \<Rightarrow> ClusterGroupName \<Rightarrow> ClusterName \<Rightarrow> bool option \<Rightarrow> u64 option \<Rightarrow> bool \<times> Manager" where
  "update_cluster m grp cluster en mx =
     (case get_group m grp of
        None \<Rightarrow> (False, m)
      | Some (cs, strategy) \<Rightarrow>
          (case member_index cs cluster of
             None \<Rightarrow> (False, m)
           | Some i \<Rightarrow>
               let c1 = (case en of None \<Rightarrow> cs ! i | Some v \<Rightarrow> set_enabled (cs ! i) v);
                   c2 = (case mx of None \<Rightarrow> c1 | Some v \<Rightarrow> set_max_running_queries c1 v)
               in (True, set_group m grp (cs[i := c2], strategy))))"

section \<open>Groups\<close>

lemma get_set_group:
  "get_group (set_group m g v) g' =
     (if g' = g then (if get_group m g = None then None else Some v) else get_group m g')"
proof -
  have "map_of (map (\<lambda>(k, x). if k = g then (k, v) else (k, x)) xs) g' =
      (if g' = g then (if map_of xs g = None then None else Some v) else map_of xs g')"
    for xs :: "(ClusterGroupName \<times> ManagedGroup) list"
    by (induction xs) auto
  then show ?thesis by (simp add: get_group_def set_group_def)
qed

lemma get_group_shared [simp]: "get_group (m\<lparr>mgr_shared := sh\<rparr>) g = get_group m g"
  by (simp add: get_group_def)

lemma set_group_shared [simp]: "mgr_shared (set_group m g v) = mgr_shared m"
  by (simp add: set_group_def)

lemma set_eligible:
  "set (eligible (cs, sh)) =
     {i. i < length cs \<and> can_accept_query sh (cs ! i) \<and> \<not> is_at_capacity sh (cs ! i)}"
  by (auto simp: eligible_def)

section \<open>Admission without interference\<close>

abbreviation quiet :: interference where
  "quiet \<equiv> \<lambda>_ st. st"

lemma try_admit_quiet:
  "try_admit quiet k i (cs, sh) =
     (if can_accept_query sh (cs ! i) \<and> \<not> is_at_capacity sh (cs ! i)
      then (True, (cs, snd (try_increment_running sh (cs ! i)))) else (False, (cs, sh)))"
proof (cases "can_accept_query sh (cs ! i) \<and> \<not> is_at_capacity sh (cs ! i)")
  case True
  define sh' where "sh' = snd (try_increment_running sh (cs ! i))"
  have inc: "try_increment_running sh (cs ! i) = (True, sh')"
    using True by (simp add: sh'_def try_increment_running_def is_at_capacity_def Let_def)
  have "can_accept_query sh' (cs ! i)"
    using True can_accept_query_cong [of sh' sh] by (simp add: sh'_def frame_simps)
  with True show ?thesis by (simp add: try_admit_def inc)
next
  case False
  moreover have "try_increment_running sh (cs ! i) = (False, sh)" if "is_at_capacity sh (cs ! i)"
    using that by (simp add: try_increment_running_def is_at_capacity_def Let_def)
  ultimately show ?thesis by (auto simp: try_admit_def)
qed

lemma admit_first_quiet:
  assumes "i \<in> set (eligible (cs, sh))"
  shows "admit_first quiet k (i # is) (cs, sh) = (Some i, (cs, snd (try_increment_running sh (cs ! i))))"
  using assms by (simp add: try_admit_quiet set_eligible)


lemma acquire_quiet_eq:
  fixes py :: python
  assumes "get_group m grp = Some (cs, strat)" and ne: "eligible (cs, mgr_shared m) \<noteq> []"
  defines "cands \<equiv> map (candidate (cs, mgr_shared m)) (eligible (cs, mgr_shared m))"
  defines "i \<equiv> eligible (cs, mgr_shared m) ! (case fst (pick py strat cands) of None \<Rightarrow> 0 | Some i \<Rightarrow> i)"
  shows "i \<in> set (eligible (cs, mgr_shared m))"
    and "acquire_cluster quiet py m grp =
           (Inr (Some (cluster_name (cs ! i))),
            (set_group m grp (cs, snd (pick py strat cands)))
              \<lparr>mgr_shared := snd (try_increment_running (mgr_shared m) (cs ! i))\<rparr>)"
proof -
  have "cands \<noteq> []" using ne by (simp add: cands_def)
  from any_strategy.chosen_index_valid [OF this, of py strat]
  show i: "i \<in> set (eligible (cs, mgr_shared m))" by (simp add: i_def cands_def)
  obtain p s' where pk: "pick py strat cands = (p, s')" by fastforce
  have adm: "admit_first quiet (Suc 0)
      (eligible (cs, mgr_shared m) ! (case p of None \<Rightarrow> 0 | Some i \<Rightarrow> i) # eligible (cs, mgr_shared m))
      (cs, mgr_shared m) = (Some i, (cs, snd (try_increment_running (mgr_shared m) (cs ! i))))"
    using admit_first_quiet [OF i] by (simp only: i_def pk fst_conv)
  show "acquire_cluster quiet py m grp =
           (Inr (Some (cluster_name (cs ! i))),
            (set_group m grp (cs, snd (pick py strat cands)))
              \<lparr>mgr_shared := snd (try_increment_running (mgr_shared m) (cs ! i))\<rparr>)"
    using assms(1) ne pk adm
    by (simp add: acquire_cluster_def cands_def del: admit_first.simps)
qed

lemma eligible_increment:
  assumes "i \<in> set (eligible (cs, sh))"
  shows "try_increment_running sh (cs ! i) = (True, snd (try_increment_running sh (cs ! i)))"
  using assms by (auto simp: set_eligible is_at_capacity_def try_increment_running_def Let_def)

text \<open>
  Acquisition with no interference, on every branch. An unknown group is an error;
  a group with no eligible member answers "queue" and nothing changes; otherwise some member
  that is enabled, healthy, not tripped and under its limit is returned, its running counter
  grows by exactly one without passing the limit, and no other counter moves.
\<close>

theorem acquire_uncontended:
  "case get_group m grp of
     None \<Rightarrow> acquire_cluster quiet py m grp = (Inl (NoClusterGroupAvailable grp), m)
   | Some (cs, strat) \<Rightarrow>
       if \<forall>c \<in> set cs. \<not> can_accept_query (mgr_shared m) c \<or> is_at_capacity (mgr_shared m) c
       then acquire_cluster quiet py m grp = (Inr None, m)
       else \<exists>i m'. i < length cs
              \<and> acquire_cluster quiet py m grp = (Inr (Some (cluster_name (cs ! i))), m')
              \<and> can_accept_query (mgr_shared m) (cs ! i)
              \<and> unat (running_queries (mgr_shared m') (cs ! i))
                  = Suc (unat (running_queries (mgr_shared m) (cs ! i)))
              \<and> running_queries (mgr_shared m') (cs ! i) \<le> max_running_queries (cs ! i)
              \<and> (\<forall>r. r \<noteq> running_ref (cs ! i) \<longrightarrow>
                     u64_cells (mgr_shared m') r = u64_cells (mgr_shared m) r)"
proof (cases "get_group m grp")
  case None
  then show ?thesis by (simp add: acquire_cluster_def)
next
  case (Some a)
  obtain cs strat where a: "a = (cs, strat)" by (cases a)
  let ?sh = "mgr_shared m"
  have el: "eligible (cs, ?sh) = [] \<longleftrightarrow>
      (\<forall>c \<in> set cs. \<not> can_accept_query ?sh c \<or> is_at_capacity ?sh c)"
    by (force simp: eligible_def filter_empty_conv in_set_conv_nth)
  show ?thesis
  proof (cases "eligible (cs, ?sh) = []")
    case True
    with Some a el show ?thesis by (auto simp: acquire_cluster_def Let_def)
  next
    case False
    let ?cands = "map (candidate (cs, ?sh)) (eligible (cs, ?sh))"
    define i where "i = eligible (cs, ?sh) ! (case fst (pick py strat ?cands) of None \<Rightarrow> 0 | Some i \<Rightarrow> i)"
    note acq = acquire_quiet_eq [OF Some [unfolded a] False, of py, folded i_def]
    note inc = try_increment_running_True [OF eligible_increment [OF acq(1)]]
    show ?thesis
      using False Some a el acq inc
      by (auto simp: set_eligible word_le_nat_alt intro!: exI [of _ i])
  qed
qed

text \<open>
  What an acquisition takes, a release gives back: with no other activity, releasing
  the acquired cluster restores every counter and breaker of the deployment.
\<close>

theorem acquire_release_roundtrip:
  assumes "get_group m grp = Some (cs, strat)" and dist: "distinct (map cluster_name cs)"
    and "acquire_cluster quiet py m grp = (Inr (Some c), m')"
  shows "mgr_shared (release_cluster m' grp c) = mgr_shared m"
proof -
  let ?sh = "mgr_shared m"
  have ne: "eligible (cs, ?sh) \<noteq> []"
    using assms by (auto simp: acquire_cluster_def Let_def)
  let ?cands = "map (candidate (cs, ?sh)) (eligible (cs, ?sh))"
  define i where "i = eligible (cs, ?sh) ! (case fst (pick py strat ?cands) of None \<Rightarrow> 0 | Some i \<Rightarrow> i)"
  note acq = acquire_quiet_eq [OF assms(1) ne, of py, folded i_def]
  have i: "i < length cs" and c: "c = cluster_name (cs ! i)"
    using acq assms(3) by (auto simp: set_eligible)
  have "member_index cs c = Some i"
    using i dist unfolding c member_index_def
    by (intro position_eqI) (auto simp: distinct_conv_nth)
  then show ?thesis
    using acq(2) assms(1,3) decrement_try_increment [OF eligible_increment [OF acq(1)]]
    by (auto simp: release_cluster_def get_set_group)
qed


section \<open>Admission under interference\<close>

text \<open>
  Interference that may flip health and enablement, change limits and drive the breakers, but
  neither moves the counters nor renames members: what health checks, admin updates and outcome
  reports do while an acquisition is in flight.
\<close>

definition keeps_counters :: "interference \<Rightarrow> bool" where
  "keeps_counters env \<longleftrightarrow> (\<forall>k cs sh cs' sh'. env k (cs, sh) = (cs', sh') \<longrightarrow>
     map running_ref cs' = map running_ref cs \<and> map cluster_name cs' = map cluster_name cs
     \<and> u64_cells sh' = u64_cells sh)"

definition same_members :: "ClusterState list \<Rightarrow> ClusterState list \<Rightarrow> bool" where
  "same_members cs cs' \<longleftrightarrow>
     map running_ref cs' = map running_ref cs \<and> map cluster_name cs' = map cluster_name cs"

lemma same_members_refl [simp]: "same_members cs cs"
  by (simp add: same_members_def)

lemma same_members_trans: "same_members a b \<Longrightarrow> same_members b c \<Longrightarrow> same_members a c"
  by (simp add: same_members_def)

lemma same_members_nth:
  assumes "same_members cs cs'"
  shows "length cs' = length cs"
    and "i < length cs \<Longrightarrow> running_ref (cs' ! i) = running_ref (cs ! i)"
    and "i < length cs \<Longrightarrow> cluster_name (cs' ! i) = cluster_name (cs ! i)"
  using assms unfolding same_members_def by (metis length_map nth_map)+

lemma keeps_countersD:
  "keeps_counters env \<Longrightarrow> env k (cs, sh) = (cs', sh') \<Longrightarrow>
     same_members cs cs' \<and> u64_cells sh' = u64_cells sh"
  by (auto simp: keeps_counters_def same_members_def)

definition bump :: "(nat \<Rightarrow> u64) \<Rightarrow> nat \<Rightarrow> nat \<Rightarrow> u64" where
  "bump cells r = cells(r := cells r + 1)"

lemma decrement_bumped:
  assumes "u64_cells sh = bump cells (running_ref c)" "cells (running_ref c) < mx"
  shows "u64_cells (decrement_running sh c) = cells"
proof -
  have "cells (running_ref c) + 1 \<noteq> 0" using unat_plus1_less [OF assms(2)] by auto
  with assms(1) show ?thesis
    by (simp add: decrement_running_def running_queries_def Let_def bump_def fun_eq_iff)
qed

lemma try_admit_accounts:
  assumes env: "keeps_counters env" and i: "i < length cs"
    and run: "try_admit env k i (cs, sh) = (ok, (cs', sh'))"
  shows "same_members cs cs'"
    and "u64_cells sh' = (if ok then bump (u64_cells sh) (running_ref (cs ! i)) else u64_cells sh)"
    and "ok \<Longrightarrow> can_accept_query sh' (cs' ! i) \<and> u64_cells sh (running_ref (cs ! i)) \<noteq> -1"
proof -
  obtain cs1 sh1 where e1: "env k (cs, sh) = (cs1, sh1)" by fastforce
  obtain cs2 sh2 where e2: "env (k + 1) (cs1, sh1) = (cs2, sh2)" by fastforce
  obtain b sh3 where inc: "try_increment_running sh2 (cs2 ! i) = (b, sh3)" by fastforce
  obtain cs4 sh4 where e4: "env (k + 2) (cs2, sh3) = (cs4, sh4)" by fastforce
  obtain cs5 sh5 where e5: "env (k + 3) (cs4, sh4) = (cs5, sh5)" by fastforce
  note D = keeps_countersD [OF env e1] keeps_countersD [OF env e2]
    keeps_countersD [OF env e4] keeps_countersD [OF env e5]
  have s2: "same_members cs cs2" and s4: "same_members cs cs4" and s5: "same_members cs cs5"
    using D same_members_trans by metis+
  note refs = same_members_nth(2) [OF s2 i] same_members_nth(2) [OF s5 i]
  define old where "old = u64_cells sh (running_ref (cs ! i))"
  have less: "old < max_running_queries (cs2 ! i)" if "b"
    using inc that D refs
    by (auto simp: old_def try_increment_running_def Let_def running_queries_def not_le split: if_splits)
  have c3: "u64_cells sh3 = (if b then bump (u64_cells sh) (running_ref (cs ! i)) else u64_cells sh)"
    using inc D refs
    by (auto simp: try_increment_running_def Let_def running_queries_def bump_def split: if_splits)
  have c5: "u64_cells (decrement_running sh5 (cs5 ! i)) = u64_cells sh" if "b"
    using decrement_bumped [of sh5 "u64_cells sh" "cs5 ! i"] D c3 refs less [OF that] that
    by (simp add: old_def)
  have old: "old \<noteq> -1" if b using unat_plus1_less [OF less [OF that]] by auto
  note cases = run [unfolded try_admit_def e1 prod.case e2 inc]
  show "same_members cs cs'"
    using cases D s2 s4 s5 by (auto simp: e4 [simplified] e5 split: if_splits bool.splits)
  show "u64_cells sh' = (if ok then bump (u64_cells sh) (running_ref (cs ! i)) else u64_cells sh)"
    using cases D c3 c5 by (auto simp: e4 [simplified] e5 split: if_splits bool.splits)
  show "ok \<Longrightarrow> can_accept_query sh' (cs' ! i) \<and> u64_cells sh (running_ref (cs ! i)) \<noteq> -1"
    using cases old by (auto simp: e4 [simplified] e5 old_def split: if_splits bool.splits)
qed


lemma admit_first_accounts:
  assumes env: "keeps_counters env" and "set is \<subseteq> {..<length cs}"
    and "admit_first env k is (cs, sh) = (r, (cs', sh'))"
  shows "same_members cs cs'
    \<and> (case r of
         None \<Rightarrow> u64_cells sh' = u64_cells sh
       | Some i \<Rightarrow> i \<in> set is \<and> u64_cells sh' = bump (u64_cells sh) (running_ref (cs ! i))
           \<and> u64_cells sh (running_ref (cs ! i)) \<noteq> -1 \<and> can_accept_query sh' (cs' ! i))"
  using assms(2,3)
proof (induction "is" arbitrary: k cs sh)
  case (Cons i "is")
  obtain ok cs1 sh1 where t: "try_admit env k i (cs, sh) = (ok, (cs1, sh1))" by (metis prod.exhaust)
  have i: "i < length cs" using Cons.prems(1) by simp
  note acc = try_admit_accounts [OF env i t]
  show ?case
  proof (cases ok)
    case True
    with Cons.prems(2) t acc show ?thesis by auto
  next
    case False
    have len: "length cs1 = length cs" by (rule same_members_nth(1) [OF acc(1)])
    with False Cons.prems t Cons.IH [of cs1 "k + 4" sh1] acc
    have ih: "same_members cs1 cs'
      \<and> (case r of
         None \<Rightarrow> u64_cells sh' = u64_cells sh1
       | Some i \<Rightarrow> i \<in> set is \<and> u64_cells sh' = bump (u64_cells sh1) (running_ref (cs1 ! i))
           \<and> u64_cells sh1 (running_ref (cs1 ! i)) \<noteq> -1 \<and> can_accept_query sh' (cs' ! i))"
      by simp
    have "running_ref (cs1 ! j) = running_ref (cs ! j)" if "j \<in> set is" for j
      using that Cons.prems(1) by (auto intro: same_members_nth(2) [OF acc(1)])
    with ih False acc show ?thesis
      by (auto intro: same_members_trans split: option.splits)
  qed
qed auto

text \<open>
  Claim C12. No slot is lost and no unavailable cluster is handed out when health checks, admin
  updates and breaker transitions race with an acquisition, whatever they do and whenever they
  run. If a cluster is returned, exactly one running counter, the one of a member with that
  name, has grown by one (without wrapping), and that member accepted queries at the last
  check; if none is returned, every counter is as before, reservations that failed the
  second check included.
\<close>

theorem acquire_never_leaks_slots:
  assumes env: "keeps_counters env" and g: "get_group m grp = Some (cs, strat)"
    and acq: "acquire_cluster env py m grp = (Inr r, m')"
  shows "case r of
      None \<Rightarrow> u64_cells (mgr_shared m') = u64_cells (mgr_shared m)
    | Some name \<Rightarrow>
        \<exists>i cs' strat'. i < length cs \<and> name = cluster_name (cs ! i)
          \<and> u64_cells (mgr_shared m) (running_ref (cs ! i)) \<noteq> -1
          \<and> u64_cells (mgr_shared m') = (u64_cells (mgr_shared m))
               (running_ref (cs ! i) := u64_cells (mgr_shared m) (running_ref (cs ! i)) + 1)
          \<and> get_group m' grp = Some (cs', strat') \<and> can_accept_query (mgr_shared m') (cs' ! i)"
proof (cases "eligible (cs, mgr_shared m) = []")
  case True
  with g acq show ?thesis by (auto simp: acquire_cluster_def)
next
  case ne: False
  let ?el = "eligible (cs, mgr_shared m)"
  obtain cs1 sh1 where e1: "env 0 (cs, mgr_shared m) = (cs1, sh1)" by fastforce
  note D = keeps_countersD [OF env e1]
  let ?cands = "map (candidate (cs1, sh1)) ?el"
  obtain p strat' where pk: "pick py strat ?cands = (p, strat')" by fastforce
  let ?chosen = "?el ! (case p of None \<Rightarrow> 0 | Some i \<Rightarrow> i)"
  obtain q cs2 sh2 where adm: "admit_first env 1 (?chosen # ?el) (cs1, sh1) = (q, (cs2, sh2))"
    by (metis prod.exhaust)
  have "?chosen \<in> set ?el"
    using any_strategy.chosen_index_valid [of ?cands py strat] ne pk by simp
  then have sub: "set (?chosen # ?el) \<subseteq> {..<length cs}" by (auto simp: set_eligible)
  have len: "length cs1 = length cs" using D by (auto dest: same_members_nth(1))
  note acc = admit_first_accounts [OF env sub [folded len] adm]
  have res: "r = map_option (\<lambda>i. cluster_name (cs2 ! i)) q" "mgr_shared m' = sh2"
    "get_group m' grp = Some (cs2, strat')"
    using acq g ne e1 pk adm by (auto simp: acquire_cluster_def get_set_group simp del: admit_first.simps)
  show ?thesis
  proof (cases q)
    case None
    with res acc D show ?thesis by simp
  next
    case (Some i)
    with acc sub have i: "i < length cs" by auto
    have mem: "same_members cs cs2" using D acc same_members_trans by blast
    show ?thesis
      using Some res acc D i same_members_nth(3) [OF mem i] same_members_nth(2) [of cs cs1 i]
      by (auto simp: bump_def intro!: exI [of _ i])
  qed
qed


section \<open>Admin updates\<close>

lemma acquired_is_eligible:
  assumes "get_group m grp = Some (cs, strat)"
    and "acquire_cluster quiet py m grp = (Inr (Some c), m')"
  obtains i where "i \<in> set (eligible (cs, mgr_shared m))" "c = cluster_name (cs ! i)"
proof -
  have ne: "eligible (cs, mgr_shared m) \<noteq> []"
    using assms by (auto simp: acquire_cluster_def Let_def)
  show thesis using that acquire_quiet_eq [OF assms(1) ne, of py] assms(2) by auto
qed

text \<open>
  Disabling a cluster through the admin API takes it out of selection at once and
  touches nothing else: no strategy and no script can return it for its group afterwards, its
  running counter is kept for the queries it still has, and other groups are unchanged.
\<close>

theorem disabled_cluster_not_acquired:
  assumes g: "get_group m grp = Some (cs, strat)" and dist: "distinct (map cluster_name cs)"
    and upd: "update_cluster m grp c (Some False) mx = (True, m1)"
  shows "fst (acquire_cluster quiet py m1 grp) \<noteq> Inr (Some c)"
    and "mgr_shared m1 = mgr_shared m"
    and "g' \<noteq> grp \<longrightarrow> get_group m1 g' = get_group m g'"
proof -
  obtain i where i: "member_index cs c = Some i"
    using g upd by (auto simp: update_cluster_def split: option.splits)
  note pos = position_Some [OF i [unfolded member_index_def]]
  define c' where "c' = (let d = set_enabled (cs ! i) False in
     case mx of None \<Rightarrow> d | Some v \<Rightarrow> set_max_running_queries d v)"
  define cs1 where "cs1 = cs[i := c']"
  have m1: "m1 = set_group m grp (cs1, strat)"
    using g upd i by (simp add: update_cluster_def cs1_def c'_def Let_def)
  then have g1: "get_group m1 grp = Some (cs1, strat)" using g by (simp add: get_set_group)
  have c': "\<not> enabled c'" "cluster_name c' = cluster_name (cs ! i)"
    by (simp_all add: c'_def set_enabled_def set_max_running_queries_def Let_def split: option.splits)
  then have cs1: "\<not> enabled (cs1 ! i)" "map cluster_name cs1 = map cluster_name cs"
    using pos by (simp_all add: cs1_def map_update list_update_same_conv)
  show "fst (acquire_cluster quiet py m1 grp) \<noteq> Inr (Some c)"
  proof
    assume "fst (acquire_cluster quiet py m1 grp) = Inr (Some c)"
    then obtain m2 where "acquire_cluster quiet py m1 grp = (Inr (Some c), m2)"
      by (cases "acquire_cluster quiet py m1 grp") auto
    from acquired_is_eligible [OF g1 this] obtain j where
      j: "j \<in> set (eligible (cs1, mgr_shared m1))" "c = cluster_name (cs1 ! j)" .
    have len: "length cs1 = length cs" using cs1(2) map_eq_imp_length_eq by blast
    have "cluster_name (cs1 ! j) = cluster_name (cs1 ! i)"
      using j pos cs1(2) len by (metis nth_map)
    then have "j = i"
      using dist [folded cs1(2)] j pos len by (auto simp: distinct_conv_nth set_eligible)
    with j cs1(1) show False by (simp add: set_eligible can_accept_query_def)
  qed
  show "mgr_shared m1 = mgr_shared m" "g' \<noteq> grp \<longrightarrow> get_group m1 g' = get_group m g'"
    using m1 by (auto simp: get_set_group)
qed

section \<open>Witnesses\<close>

definition example_manager :: Manager where
  "example_manager = \<lparr>mgr_groups = [(''g'', ([fst example_member], FailoverStrategy))],
     mgr_shared = snd example_member\<rparr>"

lemmas example_manager_eval = example_manager_def example_member_def example_shared_def
  ClusterState_new_def get_group_def set_group_def acquire_cluster_def eligible_def candidate_def
  failover_pick_def try_admit_def try_increment_running_def decrement_running_def
  can_accept_query_def is_at_capacity_def running_queries_def store_u64_def Let_def

theorem acquire_uncontended_witness:
  "fst (acquire_cluster quiet (\<lambda>_ _ _. PyNone) example_manager ''g'') = Inr (Some ''a'')
   \<and> fst (acquire_cluster quiet (\<lambda>_ _ _. PyNone) example_manager ''h'')
       = Inl (NoClusterGroupAvailable ''h'')"
  using acquire_uncontended [where m = example_manager and grp = "''g''" and py = "\<lambda>_ _ _. PyNone"]
    acquire_uncontended [where m = example_manager and grp = "''h''" and py = "\<lambda>_ _ _. PyNone"]
  by (simp add: example_manager_eval)

theorem acquire_release_roundtrip_witness:
  "mgr_shared (release_cluster
     (snd (acquire_cluster quiet (\<lambda>_ _ _. PyNone) example_manager ''g'')) ''g'' ''a'')
   = mgr_shared example_manager"
  by (rule acquire_release_roundtrip [where cs = "[fst example_member]" and strat = FailoverStrategy
        and py = "\<lambda>_ _ _. PyNone"])
    (simp_all add: example_manager_eval)

definition example_env :: interference where
  "example_env k st = (if k = 3 then map (\<lambda>c. set_enabled c False) (fst st) else fst st, snd st)"

lemma example_env_keeps: "keeps_counters example_env"
  by (auto simp: keeps_counters_def example_env_def set_enabled_def)

theorem acquire_never_leaks_slots_witness:
  "fst (acquire_cluster example_env (\<lambda>_ _ _. PyNone) example_manager ''g'') = Inr None
   \<and> u64_cells (mgr_shared (snd (acquire_cluster example_env (\<lambda>_ _ _. PyNone) example_manager ''g'')))
     = u64_cells (mgr_shared example_manager)"
proof -
  have g: "get_group example_manager ''g'' = Some ([fst example_member], FailoverStrategy)"
    by (simp add: example_manager_def get_group_def)
  have r: "fst (acquire_cluster example_env (\<lambda>_ _ _. PyNone) example_manager ''g'') = Inr None"
    by (simp add: example_manager_eval example_env_def set_enabled_def)
  from r have "acquire_cluster example_env (\<lambda>_ _ _. PyNone) example_manager ''g''
      = (Inr None, snd (acquire_cluster example_env (\<lambda>_ _ _. PyNone) example_manager ''g''))"
    by (metis prod.collapse)
  from acquire_never_leaks_slots [OF example_env_keeps g this] r show ?thesis by simp
qed

theorem disabled_cluster_not_acquired_witness:
  "fst (acquire_cluster quiet (\<lambda>_ _ _. PyNone)
     (snd (update_cluster example_manager ''g'' ''a'' (Some False) None)) ''g'') \<noteq> Inr (Some ''a'')"
  by (rule disabled_cluster_not_acquired(1) [where m = example_manager and mx = None
        and cs = "[fst example_member]" and strat = FailoverStrategy])
    (simp_all add: example_manager_eval update_cluster_def member_index_def)

end
