(* ===== verification/Access_Model.thy ===== *)
theory Access_Model
  imports Rust_Strings
begin

text \<open>
  The vocabulary of data-level access control, \<open>crates/queryflux-core/src/access_model.rs\<close>: who
  asks for which operation on which objects, and what a policy engine answers. Ordered maps
  (\<open>BTreeMap\<close>) are association lists in key order, JSON values are kept as text.
\<close>

section \<open>Requests\<close>

record Identity =
  id_user :: string
  id_groups :: "string list"
  id_roles :: "string list"
  id_attributes :: "(string \<times> string) list"

type_synonym Operation = string

definition SUPPORTED :: "Operation list" where
  "SUPPORTED =
     [''table.select'', ''table.insert'', ''table.update'', ''table.delete'', ''table.merge'',
      ''table.truncate'', ''table.create'', ''table.drop'', ''table.alter'', ''view.create'',
      ''view.drop'', ''view.alter'', ''schema.create'', ''schema.drop'', ''catalog.create'',
      ''catalog.drop'', ''session.set'', ''session.use'', ''role.create'', ''role.drop'',
      ''role.grant'', ''role.revoke'', ''role.set'', ''grant.grant'', ''grant.revoke'',
      ''function.create'', ''function.drop'', ''procedure.create'', ''procedure.drop'',
      ''procedure.call'']"

definition drop_counterpart :: "Operation \<Rightarrow> Operation option" where
  "drop_counterpart op =
     (case split_once CHR ''.'' op of
        None \<Rightarrow> None
      | Some (kind, verb) \<Rightarrow> if verb = ''create'' then Some (kind @ ''.drop'') else None)"

definition table_select :: Operation where "table_select = ''table.select''"

definition is_read :: "Operation \<Rightarrow> bool" where "is_read op \<longleftrightarrow> op = ''table.select''"

datatype Columns = AllColumns | NamedColumns "string list"

datatype ResourceKind =
  RK_Table | RK_View | RK_Schema | RK_Catalog | RK_Session | RK_Role | RK_Function | RK_Procedure

fun kind_as_str :: "ResourceKind \<Rightarrow> string" where
  "kind_as_str RK_Table = ''table''"
| "kind_as_str RK_View = ''view''"
| "kind_as_str RK_Schema = ''schema''"
| "kind_as_str RK_Catalog = ''catalog''"
| "kind_as_str RK_Session = ''session''"
| "kind_as_str RK_Role = ''role''"
| "kind_as_str RK_Function = ''function''"
| "kind_as_str RK_Procedure = ''procedure''"

record AccessResource =
  ar_kind :: ResourceKind
  ar_catalog :: "string option"
  ar_schema :: "string option"
  ar_table :: string
  ar_columns :: Columns
  ar_value :: "string option"

definition unwrap_or_default :: "string option \<Rightarrow> string" where
  "unwrap_or_default x = (case x of Some s \<Rightarrow> s | None \<Rightarrow> [])"

definition resource_name :: "AccessResource \<Rightarrow> string" where
  "resource_name r =
     (case ar_kind r of
        RK_Schema \<Rightarrow> unwrap_or_default (ar_schema r)
      | RK_Catalog \<Rightarrow> unwrap_or_default (ar_catalog r)
      | _ \<Rightarrow> ar_table r)"

definition qualified_name :: "AccessResource \<Rightarrow> string" where
  "qualified_name r =
     (case ar_kind r of
        RK_Schema \<Rightarrow>
          (case ar_catalog r of Some c \<Rightarrow> c @ ''.'' @ resource_name r | None \<Rightarrow> resource_name r)
      | RK_Catalog \<Rightarrow> resource_name r
      | _ \<Rightarrow> (case ar_schema r of Some s \<Rightarrow> s @ ''.'' @ ar_table r | None \<Rightarrow> ar_table r))"

record RequestContext =
  rc_cluster_group :: string
  rc_engine :: string
  rc_query_id :: string
  rc_session_params :: "(string \<times> string) list"

record GrantDetail =
  gd_privileges :: "string list"
  gd_grantees :: "string list"
  gd_with_grant_option :: bool

record AccessRequest =
  rq_grant :: "GrantDetail option"
  rq_identity :: Identity
  rq_operation :: Operation
  rq_resources :: "AccessResource list"
  rq_context :: RequestContext

section \<open>Decisions\<close>

datatype MaskType =
  M_Null | M_Redact | M_ShowLast4 | M_ShowFirst4 | M_Constant | M_DateShowYear | M_Hash | M_Custom

record RowFilter =
  rf_expression :: "string option"
  rf_ucast :: "string option"

record ColumnMask =
  cm_column :: string
  cm_mask_type :: MaskType
  cm_value :: "string option"
  cm_expression :: "string option"

record ResourceDecision =
  rd_table :: string
  rd_allow :: bool
  rd_reason :: "string option"
  rd_row_filters :: "RowFilter list"
  rd_column_masks :: "ColumnMask list"

record AccessDecision =
  ad_resources :: "ResourceDecision list"

definition allow_all :: AccessDecision where
  "allow_all = \<lparr>ad_resources = []\<rparr>"

definition deny_all :: "string \<Rightarrow> AccessDecision" where
  "deny_all reason =
     \<lparr>ad_resources =
        [\<lparr>rd_table = ''*'', rd_allow = False, rd_reason = Some reason, rd_row_filters = [], rd_column_masks = []\<rparr>]\<rparr>"

definition is_allowed :: "AccessDecision \<Rightarrow> bool" where
  "is_allowed d = list_all rd_allow (ad_resources d)"

definition first_denied :: "AccessDecision \<Rightarrow> (string \<times> string) option" where
  "first_denied d =
     map_option (\<lambda>r. (rd_table r, case rd_reason r of Some x \<Rightarrow> x | None \<Rightarrow> ''access denied''))
       (find (\<lambda>r. \<not> rd_allow r) (ad_resources d))"

definition row_filters :: "AccessDecision \<Rightarrow> (string \<times> string) list" where
  "row_filters d =
     concat (map (\<lambda>r. List.map_filter (\<lambda>f. map_option (Pair (rd_table r)) (rf_expression f)) (rd_row_filters r))
       (ad_resources d))"

definition column_masks :: "AccessDecision \<Rightarrow> (string \<times> ColumnMask) list" where
  "column_masks d = concat (map (\<lambda>r. map (Pair (rd_table r)) (rd_column_masks r)) (ad_resources d))"

definition has_rewrite :: "AccessDecision \<Rightarrow> bool" where
  "has_rewrite d \<longleftrightarrow>
     is_allowed d \<and> list_ex (\<lambda>r. rd_row_filters r \<noteq> [] \<or> rd_column_masks r \<noteq> []) (ad_resources d)"

definition has_ucast_filter :: "AccessDecision \<Rightarrow> bool" where
  "has_ucast_filter d \<longleftrightarrow> list_ex (\<lambda>r. list_ex (\<lambda>f. rf_ucast f \<noteq> None) (rd_row_filters r)) (ad_resources d)"

section \<open>Facts\<close>

lemma is_allowed_allow_all [simp]: "is_allowed allow_all"
  by (simp add: is_allowed_def allow_all_def)

lemma not_is_allowed_deny_all [simp]: "\<not> is_allowed (deny_all m)"
  by (simp add: is_allowed_def deny_all_def)

lemma first_denied_None_iff: "first_denied d = None \<longleftrightarrow> is_allowed d"
  by (auto simp: first_denied_def is_allowed_def find_None_iff list_all_iff)

text \<open>A denial is always reported with a reason, and a rewrite is never asked of a denied query.\<close>

lemma first_denied_Some: "\<not> is_allowed d \<Longrightarrow> \<exists>t m. first_denied d = Some (t, m)"
  using first_denied_None_iff [of d] by (cases "first_denied d") auto

lemma has_rewrite_allowed: "has_rewrite d \<Longrightarrow> first_denied d = None"
  by (simp add: has_rewrite_def first_denied_None_iff)

lemma kind_as_str_inj [simp]: "kind_as_str a = kind_as_str b \<longleftrightarrow> a = b"
  by (cases a; cases b) simp_all

text \<open>Every operation that replaces an object names a supported drop operation.\<close>

lemma drop_counterpart_supported:
  "op \<in> set SUPPORTED \<Longrightarrow> drop_counterpart op = Some d \<Longrightarrow> d \<in> set SUPPORTED"
  by (auto simp: SUPPORTED_def drop_counterpart_def split: if_splits)

end
