(* ===== verification/Opa.thy ===== *)
theory Opa
  imports Access_Model "HOL-Library.AList"
begin

text \<open>
  The policy provider interface and its OPA implementation:
  \<open>crates/queryflux-access-control/src/provider.rs\<close> and \<open>providers/opa/{mod,wire}.rs\<close>, with the OAuth
  token cache that \<open>OpenFgaAuthorizationClient\<close> (\<open>crates/queryflux-auth/src/authorization.rs\<close>)
  repeats. What the policy server and the token endpoint answer are arguments.
\<close>

section \<open>Provider errors\<close>

datatype PolicyError = PE_Timeout | PE_Transport string | PE_Status nat string | PE_Body string

fun show_policy_error :: "PolicyError \<Rightarrow> string" where
  "show_policy_error PE_Timeout = ''policy provider timed out''"
| "show_policy_error (PE_Transport e) = ''policy provider transport error: '' @ e"
| "show_policy_error (PE_Status s body) =
     (if body = [] then ''policy provider returned HTTP '' @ show_nat s
      else ''policy provider returned HTTP '' @ show_nat s @ '': '' @ body)"
| "show_policy_error (PE_Body e) = ''policy provider response unparseable: '' @ e"

section \<open>The request on the wire\<close>

record WireResource =
  wr_kind :: string
  wr_catalog :: "string option"
  wr_schema :: "string option"
  wr_table :: string
  wr_value :: "string option"
  wr_name :: string
  wr_columns :: "string list option"

record OpaInput =
  oi_identity :: Identity
  oi_operation :: Operation
  oi_resources :: "WireResource list"
  oi_grant :: "GrantDetail option"
  oi_context :: RequestContext

definition wire_resource :: "AccessResource \<Rightarrow> WireResource" where
  "wire_resource r =
     \<lparr>wr_kind = kind_as_str (ar_kind r), wr_catalog = ar_catalog r, wr_schema = ar_schema r,
      wr_table = (if ar_kind r = RK_Table \<or> ar_kind r = RK_View then ar_table r else []),
      wr_value = ar_value r, wr_name = resource_name r,
      wr_columns = (case ar_columns r of AllColumns \<Rightarrow> None | NamedColumns c \<Rightarrow> Some c)\<rparr>"

definition to_request :: "AccessRequest \<Rightarrow> OpaInput" where
  "to_request req =
     \<lparr>oi_identity = rq_identity req, oi_operation = rq_operation req,
      oi_resources = map wire_resource (rq_resources req), oi_grant = rq_grant req,
      oi_context = rq_context req\<rparr>"

section \<open>The response\<close>

record WireResourceDecision =
  wd_table :: "string option"
  wd_name :: "string option"
  wd_allow :: bool
  wd_reason :: "string option"
  wd_row_filters :: "RowFilter list"
  wd_column_masks :: "ColumnMask list"

text \<open>A response holds the entries of \<open>result.resources\<close>, or nothing when \<open>result\<close> is missing.\<close>

type_synonym OpaResponse = "WireResourceDecision list option"

text \<open>\<open>*map.entry(k).or_insert(0) += 1\<close>.\<close>

definition bump_count :: "'k \<Rightarrow> ('k \<times> nat) list \<Rightarrow> ('k \<times> nat) list" where
  "bump_count k m = AList.update k ((case map_of m k of Some n \<Rightarrow> n | None \<Rightarrow> 0) + 1) m"

definition bare_counts :: "AccessResource list \<Rightarrow> (string \<times> nat) list" where
  "bare_counts rs =
     fold (\<lambda>r m. if ar_table r \<noteq> [] then bump_count (to_lowercase (ar_table r)) m else m) rs []"

definition name_counts :: "AccessResource list \<Rightarrow> ((string \<times> string) \<times> nat) list" where
  "name_counts rs = fold (\<lambda>r. bump_count (kind_as_str (ar_kind r), to_lowercase (resource_name r))) rs []"

definition eq_ignore_ascii_case :: "string \<Rightarrow> string \<Rightarrow> bool" where
  "eq_ignore_ascii_case a b \<longleftrightarrow> to_ascii_lowercase a = to_ascii_lowercase b"

definition decision_covers ::
  "WireResourceDecision \<Rightarrow> AccessResource \<Rightarrow> (string \<times> nat) list \<Rightarrow> ((string \<times> string) \<times> nat) list \<Rightarrow> bool" where
  "decision_covers d res bare names =
     (if (case wd_name d of
            Some name \<Rightarrow>
              eq_ignore_ascii_case name (resource_name res)
              \<and> map_of names (kind_as_str (ar_kind res), to_lowercase (resource_name res)) = Some 1
          | None \<Rightarrow> False)
      then True
      else if ar_table res = [] then False
      else
        (case wd_table d of
           None \<Rightarrow> False
         | Some table_echo \<Rightarrow>
             let echo = to_lowercase table_echo; table = to_lowercase (ar_table res) in
             (case ar_schema res of
                None \<Rightarrow> echo = table
              | Some s \<Rightarrow>
                  let qualified = to_lowercase s @ ''.'' @ table in
                  if echo = qualified then True
                  else if (case ar_catalog res of
                             Some c \<Rightarrow> echo = to_lowercase c @ ''.'' @ qualified | None \<Rightarrow> False)
                  then True
                  else echo = table \<and> map_of bare table = Some 1)))"

definition undecided :: "AccessResource \<Rightarrow> ResourceDecision" where
  "undecided res =
     \<lparr>rd_table = qualified_name res, rd_allow = False,
      rd_reason = Some (''policy returned no decision for '' @ qualified_name res),
      rd_row_filters = [], rd_column_masks = []\<rparr>"

definition decided :: "AccessResource \<Rightarrow> WireResourceDecision \<Rightarrow> ResourceDecision" where
  "decided res d =
     \<lparr>rd_table = qualified_name res, rd_allow = wd_allow d, rd_reason = wd_reason d,
      rd_row_filters = wd_row_filters d, rd_column_masks = wd_column_masks d\<rparr>"

definition from_response :: "OpaResponse \<Rightarrow> AccessRequest \<Rightarrow> AccessDecision" where
  "from_response resp req =
     (let rs = rq_resources req in
      case resp of
        Some (w # ws) \<Rightarrow>
          \<lparr>ad_resources =
             map (\<lambda>res. case find (\<lambda>d. decision_covers d res (bare_counts rs) (name_counts rs)) (w # ws) of
                          Some d \<Rightarrow> decided res d
                        | None \<Rightarrow> undecided res) rs\<rparr>
      | _ \<Rightarrow> deny_all (''policy returned no decision for '' @ show_nat (length rs) @ '' resource(s)''))"

section \<open>Calling the server\<close>

definition TOKEN_REFRESH_BUFFER :: duration where "TOKEN_REFRESH_BUFFER = 30 * 10 ^ 9"
definition TOKEN_FAILURE_COOLDOWN :: duration where "TOKEN_FAILURE_COOLDOWN = 5 * 10 ^ 9"
definition ERROR_BODY_LIMIT :: nat where "ERROR_BODY_LIMIT = 4096"

datatype TokenCacheEntry = ValidToken string instant | FailedUntil instant

record OpaProvider =
  op_bearer_token :: "string option"
  op_client_credentials :: "(string \<times> string \<times> string) option"
  op_token_cache :: "TokenCacheEntry option"

text \<open>
  The part of \<open>bearer\<close> under the lock. \<open>fetch\<close> is what the token endpoint gives at this moment
  (a token and its lifetime), \<open>later\<close> the clock after it answered. The result tells whether the
  endpoint was asked.
\<close>

definition refresh_token ::
  "instant \<Rightarrow> instant \<Rightarrow> (string \<times> duration) option \<Rightarrow> TokenCacheEntry option
   \<Rightarrow> string option \<times> bool \<times> TokenCacheEntry option" where
  "refresh_token now later fetch cache =
     (let ask = (case fetch of
                   Some (token, ttl) \<Rightarrow> (Some token, True, Some (ValidToken token (now + ttl)))
                 | None \<Rightarrow> (None, True, Some (FailedUntil (later + TOKEN_FAILURE_COOLDOWN))))
      in case cache of
           Some (ValidToken tok expires) \<Rightarrow>
             if now + TOKEN_REFRESH_BUFFER < expires then (Some tok, False, cache) else ask
         | Some (FailedUntil until) \<Rightarrow> if now < until then (None, False, cache) else ask
         | None \<Rightarrow> ask)"

definition bearer ::
  "OpaProvider \<Rightarrow> instant \<Rightarrow> instant \<Rightarrow> (string \<times> duration) option \<Rightarrow> string option \<times> OpaProvider" where
  "bearer p now later fetch =
     (case op_bearer_token p of
        Some t \<Rightarrow> (Some t, p)
      | None \<Rightarrow>
          (case op_client_credentials p of
             None \<Rightarrow> (None, p)
           | Some cc \<Rightarrow>
               (case refresh_token now later fetch (op_token_cache p) of
                  (tok, asked, cache) \<Rightarrow> (tok, p\<lparr>op_token_cache := cache\<rparr>))))"

text \<open>\<open>str::is_char_boundary\<close> and the loop of \<open>truncate_error_body\<close>; \<open>None\<close> is a panic of \<open>truncate\<close>.\<close>

definition is_char_boundary :: "string \<Rightarrow> nat \<Rightarrow> bool" where
  "is_char_boundary s n \<longleftrightarrow> byte_prefix n s \<noteq> None"

fun find_boundary :: "string \<Rightarrow> nat \<Rightarrow> nat" where
  "find_boundary s 0 = 0"
| "find_boundary s (Suc n) = (if is_char_boundary s (Suc n) then Suc n else find_boundary s n)"

definition truncate_error_body :: "string \<Rightarrow> string option" where
  "truncate_error_body body =
     (if str_len body \<le> ERROR_BODY_LIMIT then Some body
      else map_option (\<lambda>p. p @ ''... (truncated)'') (byte_prefix (find_boundary body ERROR_BODY_LIMIT) body))"

datatype HttpReply =
    HttpTimeout
  | HttpFailed string
  | HttpReply nat string "string + OpaResponse"

definition opa_evaluate :: "HttpReply \<Rightarrow> AccessRequest \<Rightarrow> PolicyError + AccessDecision" where
  "opa_evaluate reply req =
     (case reply of
        HttpTimeout \<Rightarrow> Inl PE_Timeout
      | HttpFailed e \<Rightarrow> Inl (PE_Transport e)
      | HttpReply status text parsed \<Rightarrow>
          if \<not> (200 \<le> status \<and> status < 300)
          then Inl (PE_Status status (case truncate_error_body text of Some b \<Rightarrow> b | None \<Rightarrow> []))
          else (case parsed of Inl e \<Rightarrow> Inl (PE_Body e) | Inr resp \<Rightarrow> Inr (from_response resp req)))"

section \<open>Counting names\<close>

lemma map_of_bump_count:
  "map_of (bump_count k m) j = (if j = k then Some ((case map_of m k of Some n \<Rightarrow> n | None \<Rightarrow> 0) + 1) else map_of m j)"
  by (simp add: bump_count_def update_conv')

lemma map_of_bumps:
  "map_of (fold bump_count ks m) j =
   (if count_list ks j = 0 then map_of m j
    else Some ((case map_of m j of Some n \<Rightarrow> n | None \<Rightarrow> 0) + count_list ks j))"
  by (induction ks arbitrary: m) (auto simp: map_of_bump_count)

lemma map_of_bumps_once: "map_of (fold bump_count ks []) j = Some (Suc 0) \<longleftrightarrow> count_list ks j = Suc 0"
  by (simp add: map_of_bumps)

lemma fold_bump_filter:
  "fold (\<lambda>r m. if P r then bump_count (f r) m else m) rs m = fold bump_count (map f (filter P rs)) m"
  by (induction rs arbitrary: m) simp_all

lemma bare_counts_once:
  "map_of (bare_counts rs) j = Some (Suc 0)
   \<longleftrightarrow> count_list (map (to_lowercase \<circ> ar_table) (filter (\<lambda>r. ar_table r \<noteq> []) rs)) j = Suc 0"
  unfolding bare_counts_def fold_bump_filter map_of_bumps_once by (simp add: comp_def)

lemma name_counts_once:
  "map_of (name_counts rs) j = Some (Suc 0)
   \<longleftrightarrow> count_list (map (\<lambda>r. (kind_as_str (ar_kind r), to_lowercase (resource_name r))) rs) j = Suc 0"
  unfolding name_counts_def using map_of_bumps_once [of "map (\<lambda>r. (kind_as_str (ar_kind r), to_lowercase (resource_name r))) rs" j]
  by (simp add: fold_map comp_def)

lemma count_list_once_sole:
  assumes "count_list xs x = Suc 0" "i < length xs" "j < length xs" "xs ! i = x" "xs ! j = x"
  shows "i = j"
proof (rule ccontr)
  assume "i \<noteq> j"
  then have "{i, j} \<subseteq> {k. k < length xs \<and> xs ! k = x}" "card {i, j} = 2" using assms by auto
  then have "2 \<le> card {k. k < length xs \<and> xs ! k = x}" by (metis card_mono finite_Collect_less_nat finite_Collect_conjI)
  moreover have "count_list xs x = card {k. k < length xs \<and> xs ! k = x}"
    by (simp add: count_list_eq_length_filter length_filter_conv_card eq_commute)
  ultimately show False using assms(1) by simp
qed

lemma count_filter_once_sole:
  assumes "count_list (map f (filter P rs)) x = Suc 0"
    and "i < length rs" "P (rs ! i)" "f (rs ! i) = x" "j < length rs" "P (rs ! j)" "f (rs ! j) = x"
  shows "i = j"
proof -
  let ?ys = "map (\<lambda>r. if P r then Some (f r) else None) rs"
  have "count_list ?ys (Some x) = count_list (map f (filter P rs)) x"
    by (induction rs) simp_all
  then have once: "count_list ?ys (Some x) = Suc 0" using assms(1) by (rule trans)
  have len: "i < length ?ys" "j < length ?ys" using assms(2,5) by (simp_all only: length_map)
  have at: "?ys ! i = Some x" "?ys ! j = Some x" using assms(2-7) by (simp_all only: nth_map if_True)
  show ?thesis by (rule count_list_once_sole [OF once len at])
qed

section \<open>Verdicts\<close>

text \<open>
  When an entry of the reply speaks about the \<open>i\<close>-th requested object: by its name, when no
  other requested object of the same kind has that name; by its qualified or fully qualified
  table name; or by its bare table name, when no other requested object has that table name.
\<close>

definition full_names :: "AccessResource \<Rightarrow> string list" where
  "full_names r =
     (case ar_schema r of
        None \<Rightarrow> [to_lowercase (ar_table r)]
      | Some s \<Rightarrow>
          (to_lowercase s @ ''.'' @ to_lowercase (ar_table r))
          # (case ar_catalog r of
               Some c \<Rightarrow> [to_lowercase c @ ''.'' @ to_lowercase s @ ''.'' @ to_lowercase (ar_table r)]
             | None \<Rightarrow> []))"

definition names_object :: "WireResourceDecision \<Rightarrow> AccessResource list \<Rightarrow> nat \<Rightarrow> bool" where
  "names_object w rs i \<longleftrightarrow>
     (\<exists>n. wd_name w = Some n \<and> eq_ignore_ascii_case n (resource_name (rs ! i))
        \<and> (\<forall>j < length rs. j \<noteq> i \<longrightarrow> ar_kind (rs ! j) = ar_kind (rs ! i)
             \<longrightarrow> to_lowercase (resource_name (rs ! j)) \<noteq> to_lowercase (resource_name (rs ! i))))
     \<or> (\<exists>t. wd_table w = Some t \<and> ar_table (rs ! i) \<noteq> []
        \<and> (to_lowercase t \<in> set (full_names (rs ! i))
           \<or> to_lowercase t = to_lowercase (ar_table (rs ! i))
             \<and> (\<forall>j < length rs. j \<noteq> i
                  \<longrightarrow> to_lowercase (ar_table (rs ! j)) \<noteq> to_lowercase (ar_table (rs ! i)))))"

lemma name_sole:
  assumes "map_of (name_counts rs) (kind_as_str (ar_kind (rs ! i)), to_lowercase (resource_name (rs ! i))) = Some (Suc 0)"
    and "i < length rs" "j < length rs" "j \<noteq> i" "ar_kind (rs ! j) = ar_kind (rs ! i)"
  shows "to_lowercase (resource_name (rs ! j)) \<noteq> to_lowercase (resource_name (rs ! i))"
  using count_list_once_sole [OF assms(1) [unfolded name_counts_once], of i j] assms(2-5) by auto

lemma bare_sole:
  assumes "map_of (bare_counts rs) (to_lowercase (ar_table (rs ! i))) = Some (Suc 0)"
    and "i < length rs" "ar_table (rs ! i) \<noteq> []" "j < length rs" "j \<noteq> i"
  shows "to_lowercase (ar_table (rs ! j)) \<noteq> to_lowercase (ar_table (rs ! i))"
proof
  assume eq: "to_lowercase (ar_table (rs ! j)) = to_lowercase (ar_table (rs ! i))"
  then have "ar_table (rs ! j) \<noteq> []" using assms(3) by (auto simp: to_lowercase_def)
  then show False
    using count_filter_once_sole [OF assms(1) [unfolded bare_counts_once], of i j] assms eq by auto
qed

lemma decision_covers_names:
  assumes "decision_covers w (rs ! i) (bare_counts rs) (name_counts rs)" "i < length rs"
  shows "names_object w rs i"
proof (cases "\<exists>n. wd_name w = Some n \<and> eq_ignore_ascii_case n (resource_name (rs ! i))
    \<and> map_of (name_counts rs) (kind_as_str (ar_kind (rs ! i)), to_lowercase (resource_name (rs ! i))) = Some (Suc 0)")
  case True
  then show ?thesis using name_sole [of rs i] assms(2) by (auto simp: names_object_def)
next
  case False
  then obtain t where t: "ar_table (rs ! i) \<noteq> []" "wd_table w = Some t"
    and hit: "to_lowercase t \<in> set (full_names (rs ! i))
      \<or> to_lowercase t = to_lowercase (ar_table (rs ! i))
        \<and> map_of (bare_counts rs) (to_lowercase (ar_table (rs ! i))) = Some (Suc 0)"
    using assms(1) unfolding decision_covers_def full_names_def Let_def
    by (auto split: option.splits if_splits)
  then show ?thesis using bare_sole [of rs i] assms(2) by (auto simp: names_object_def)
qed

lemma from_response_length: "resp = Some (w # ws) \<Longrightarrow> length (ad_resources (from_response resp req)) = length (rq_resources req)"
  by (simp add: from_response_def Let_def)

lemma from_response_nth:
  assumes "i < length (rq_resources req)" "resp = Some (w # ws)"
  shows "ad_resources (from_response resp req) ! i =
    (case find (\<lambda>d. decision_covers d (rq_resources req ! i) (bare_counts (rq_resources req)) (name_counts (rq_resources req))) (w # ws) of
       Some d \<Rightarrow> decided (rq_resources req ! i) d | None \<Rightarrow> undecided (rq_resources req ! i))"
  using assms by (simp add: from_response_def Let_def del: find.simps)

text \<open>
  Claim C28. No access without an explicit verdict: a policy answer maps to one decision per
  requested object, in order and under the object's own qualified name, and an object is allowed
  only if some entry of the answer allows it and names it, by a qualified name, or by a bare name that
  no other requested object has or that is all the name the object has; an empty, missing or partial
  answer denies.
\<close>

theorem opa_verdicts_explicit:
  assumes "is_allowed (from_response resp req)"
  shows "\<exists>ws. resp = Some ws \<and> ws \<noteq> []
    \<and> map rd_table (ad_resources (from_response resp req)) = map qualified_name (rq_resources req)
    \<and> (\<forall>i < length (rq_resources req).
         \<exists>w \<in> set ws. wd_allow w \<and> names_object w (rq_resources req) i
           \<and> rd_row_filters (ad_resources (from_response resp req) ! i) = wd_row_filters w
           \<and> rd_column_masks (ad_resources (from_response resp req) ! i) = wd_column_masks w)"
proof -
  obtain w ws where r: "resp = Some (w # ws)"
    using assms by (cases resp; cases "the resp") (auto simp: from_response_def Let_def)
  have tables: "map rd_table (ad_resources (from_response resp req)) = map qualified_name (rq_resources req)"
    by (rule nth_equalityI)
      (simp_all add: from_response_length [OF r] from_response_nth [OF _ r] decided_def undecided_def split: option.splits)
  have "\<exists>v \<in> set (w # ws). wd_allow v \<and> names_object v (rq_resources req) i
      \<and> rd_row_filters (ad_resources (from_response resp req) ! i) = wd_row_filters v
      \<and> rd_column_masks (ad_resources (from_response resp req) ! i) = wd_column_masks v"
    if i: "i < length (rq_resources req)" for i
  proof -
    have "rd_allow (ad_resources (from_response resp req) ! i)"
      using assms i from_response_length [OF r, of req] by (simp add: is_allowed_def list_all_length)
    then obtain v where f: "find (\<lambda>d. decision_covers d (rq_resources req ! i)
        (bare_counts (rq_resources req)) (name_counts (rq_resources req))) (w # ws) = Some v"
      and "wd_allow v" and d: "ad_resources (from_response resp req) ! i = decided (rq_resources req ! i) v"
      unfolding from_response_nth [OF i r] by (auto simp: undecided_def decided_def split: option.splits)
    moreover have "v \<in> set (w # ws)" "decision_covers v (rq_resources req ! i)
        (bare_counts (rq_resources req)) (name_counts (rq_resources req))"
      using f unfolding find_Some_iff by (metis nth_mem)+
    ultimately show ?thesis using decision_covers_names i d by (auto simp: decided_def)
  qed
  then show ?thesis using r tables by blast
qed

definition opa_table :: "string option \<Rightarrow> string \<Rightarrow> string \<Rightarrow> AccessResource" where
  "opa_table catalog schema table =
     \<lparr>ar_kind = RK_Table, ar_catalog = catalog, ar_schema = Some schema, ar_table = table,
      ar_columns = AllColumns, ar_value = None\<rparr>"

definition opa_request :: "AccessResource list \<Rightarrow> AccessRequest" where
  "opa_request rs =
     \<lparr>rq_grant = None, rq_identity = \<lparr>id_user = ''u'', id_groups = [], id_roles = [], id_attributes = []\<rparr>,
      rq_operation = table_select, rq_resources = rs,
      rq_context = \<lparr>rc_cluster_group = ''g'', rc_engine = ''trino'', rc_query_id = ''q'', rc_session_params = []\<rparr>\<rparr>"

definition opa_allow :: "string \<Rightarrow> WireResourceDecision" where
  "opa_allow table =
     \<lparr>wd_table = Some table, wd_name = None, wd_allow = True, wd_reason = None, wd_row_filters = [], wd_column_masks = []\<rparr>"

theorem opa_verdicts_explicit_witness:
  "map rd_table (ad_resources (from_response (Some [opa_allow ''S.T'']) (opa_request [opa_table None ''s'' ''t'']))) = [''s.t'']"
proof -
  have "is_allowed (from_response (Some [opa_allow ''S.T'']) (opa_request [opa_table None ''s'' ''t'']))"
    by code_simp
  from opa_verdicts_explicit [OF this] show ?thesis
    by (simp add: opa_request_def opa_table_def qualified_name_def)
qed

text \<open>A bare echo of a name that two requested tables share decides neither of them.\<close>

lemma opa_ambiguous_bare_denied:
  "map rd_allow (ad_resources (from_response (Some [opa_allow ''t''])
     (opa_request [opa_table None ''s1'' ''t'', opa_table None ''s2'' ''t'']))) = [False, False]"
  by code_simp

text \<open>
  Two tables that differ in the catalog alone share one verdict: an echo of the schema and the
  table decides both.
\<close>

lemma opa_cross_catalog_verdict:
  "map rd_allow (ad_resources (from_response (Some [opa_allow ''s.t''])
     (opa_request [opa_table (Some ''c1'') ''s'' ''t'', opa_table (Some ''c2'') ''s'' ''t'']))) = [True, True]"
  by code_simp

section \<open>Tokens\<close>

text \<open>
  A cached token is only served with the refresh margin left, the endpoint is not asked again
  while a failure is remembered, and a new token is remembered until it expires.
\<close>

lemma refresh_token_spec:
  assumes "refresh_token now later fetch cache = (tok, asked, cache')"
  shows "\<not> asked \<Longrightarrow> cache' = cache
      \<and> (case cache of
           Some (ValidToken t e) \<Rightarrow> tok = Some t \<and> now + TOKEN_REFRESH_BUFFER < e
         | Some (FailedUntil u) \<Rightarrow> tok = None \<and> now < u
         | None \<Rightarrow> False)"
    and "asked \<Longrightarrow> tok = map_option fst fetch"
    and "asked \<Longrightarrow> fetch = None \<Longrightarrow> t \<le> later + TOKEN_FAILURE_COOLDOWN - 1 \<Longrightarrow>
      refresh_token t l f cache' = (None, False, cache')"
  using assms
  by (auto simp: refresh_token_def Let_def TOKEN_FAILURE_COOLDOWN_def
      split: option.splits TokenCacheEntry.splits if_splits)

section \<open>Error bodies\<close>

lemma boundary_adjacent: "Suc n \<le> str_len s \<Longrightarrow> byte_prefix (Suc n) s \<noteq> None \<or> byte_prefix n s \<noteq> None"
proof (induction s arbitrary: n)
  case (Cons c s)
  consider "len_utf8 c = 1" | "len_utf8 c = 2" by (cases "(of_char c :: nat) < 0x80") (simp_all add: len_utf8_def)
  then show ?case
  proof cases
    case 1
    then show ?thesis using Cons by (cases n) auto
  next
    case 2
    show ?thesis
    proof (cases "n < 2")
      case True
      then show ?thesis using 2 by (cases n) (auto simp: less_Suc_eq)
    next
      case False
      then obtain m where "n = Suc (Suc m)" by (metis add_2_eq_Suc le_Suc_ex not_less)
      then show ?thesis using 2 Cons.IH [of m] Cons.prems by auto
    qed
  qed
qed simp

lemma find_boundary_ok: "is_char_boundary s (find_boundary s n)" "find_boundary s n \<le> n"
  by (induction n) (auto simp: is_char_boundary_def)

text \<open>No boundary that fits is skipped: two neighbouring indices are never both inside a character.\<close>

lemma find_boundary_near: "n \<le> str_len s \<Longrightarrow> n \<le> find_boundary s n + 1"
proof (cases n)
  case (Suc m)
  assume "n \<le> str_len s"
  then have "byte_prefix n s \<noteq> None \<or> byte_prefix m s \<noteq> None" using boundary_adjacent [of m s] Suc by simp
  then show ?thesis using Suc by (cases m) (auto simp: is_char_boundary_def)
qed simp

text \<open>
  A client-visible error body is bounded and cutting it cannot panic, whatever bytes
  the policy server sends: bodies within the limit pass unchanged, longer ones become a proper
  prefix, at most three bytes shorter than the limit, followed by the marker.
\<close>

theorem truncate_error_body_total:
  "\<exists>b. truncate_error_body body = Some b
     \<and> (if str_len body \<le> ERROR_BODY_LIMIT then b = body
        else \<exists>p rest. body = p @ rest \<and> b = p @ ''... (truncated)'' \<and> str_len p \<le> ERROR_BODY_LIMIT
             \<and> ERROR_BODY_LIMIT \<le> str_len p + 3)"
proof (cases "str_len body \<le> ERROR_BODY_LIMIT")
  case True
  then show ?thesis by (simp add: truncate_error_body_def)
next
  case False
  obtain p where p: "byte_prefix (find_boundary body ERROR_BODY_LIMIT) body = Some p"
    using find_boundary_ok(1) [of body ERROR_BODY_LIMIT] by (auto simp: is_char_boundary_def)
  from byte_prefix_Some [OF p] obtain rest where
    "str_len p = find_boundary body ERROR_BODY_LIMIT" "body = p @ rest" by auto
  then show ?thesis
    using False p find_boundary_ok(2) [of body ERROR_BODY_LIMIT] find_boundary_near [of ERROR_BODY_LIMIT body]
    by (auto simp: truncate_error_body_def)
qed

end
