(* ===== verification/Access_Controller.thy ===== *)
theory Access_Controller
  imports Opa "HOL-Library.Multiset" "HOL-Library.List_Lexorder" "HOL-Library.Char_ord"
    "HOL-Library.Option_ord" "HOL-Library.Product_Lexorder"
begin

text \<open>
  The access controller, \<open>crates/queryflux-access-control/src/controller.rs\<close>: one decision per query,
  from a short-lived cache of allow decisions or from the policy provider, whose answer is an
  argument. A lookup and the handling of a provider answer are separate atomic steps, so that
  queries in flight at the same time interleave; metrics are left out.
\<close>

section \<open>State\<close>

record CacheResourceKey =
  ck_kind :: string
  ck_catalog :: "string option"
  ck_schema :: "string option"
  ck_table :: string
  ck_columns :: "string list option"
  ck_value :: "string option"

record CacheGrantKey =
  ckg_privileges :: "string list"
  ckg_grantees :: "string list"
  ckg_with_grant_option :: bool

record CacheKey =
  ck_user :: string
  ck_groups :: "string list"
  ck_roles :: "string list"
  ck_attributes :: "(string \<times> string) list"
  ck_operation :: string
  ck_resources :: "CacheResourceKey list"
  ck_grant :: "CacheGrantKey option"
  ck_cluster_group :: string
  ck_engine :: string
  ck_session_params :: "(string \<times> string) list"

record CacheEntry =
  ce_stored :: instant
  ce_decision :: AccessDecision

record AccessController =
  ac_operations :: "Operation list"
  ac_fail_open_default :: bool
  ac_group_fail_open :: "(string \<times> bool) list"
  ac_cache_ttl :: duration
  ac_cache_capacity :: nat
  ac_cache :: "(CacheKey \<times> CacheEntry) list"

definition AccessController_new :: "Operation list \<Rightarrow> bool \<Rightarrow> (string \<times> bool) list \<Rightarrow> duration \<Rightarrow> nat \<Rightarrow> AccessController" where
  "AccessController_new ops fod gfo ttl cap =
     \<lparr>ac_operations = ops, ac_fail_open_default = fod, ac_group_fail_open = gfo, ac_cache_ttl = ttl,
      ac_cache_capacity = cap, ac_cache = []\<rparr>"

definition AccessControllerConfig_new :: AccessController where
  "AccessControllerConfig_new = AccessController_new [table_select] False [] (5 * 10 ^ 9) 10000"

definition evaluates :: "AccessController \<Rightarrow> Operation \<Rightarrow> bool" where
  "evaluates c op = list_ex (\<lambda>x. x = op) (ac_operations c)"

definition fail_open_for :: "AccessController \<Rightarrow> string \<Rightarrow> bool" where
  "fail_open_for c grp =
     (case map_of (ac_group_fail_open c) grp of Some b \<Rightarrow> b | None \<Rightarrow> ac_fail_open_default c)"

section \<open>The cache key\<close>

definition resource_key :: "AccessResource \<Rightarrow> CacheResourceKey" where
  "resource_key r =
     \<lparr>ck_kind = kind_as_str (ar_kind r), ck_catalog = ar_catalog r, ck_schema = ar_schema r,
      ck_table = ar_table r,
      ck_columns = (case ar_columns r of AllColumns \<Rightarrow> None | NamedColumns c \<Rightarrow> Some (sort c)),
      ck_value = ar_value r\<rparr>"

definition resource_order ::
  "CacheResourceKey \<Rightarrow> string \<times> string option \<times> string option \<times> string \<times> string option \<times> string list option" where
  "resource_order k = (ck_kind k, ck_catalog k, ck_schema k, ck_table k, ck_value k, ck_columns k)"

definition grant_key :: "GrantDetail \<Rightarrow> CacheGrantKey" where
  "grant_key g =
     \<lparr>ckg_privileges = sort (gd_privileges g), ckg_grantees = sort (gd_grantees g),
      ckg_with_grant_option = gd_with_grant_option g\<rparr>"

definition cache_key :: "AccessRequest \<Rightarrow> CacheKey" where
  "cache_key req =
     \<lparr>ck_user = id_user (rq_identity req), ck_groups = sort (id_groups (rq_identity req)),
      ck_roles = sort (id_roles (rq_identity req)), ck_attributes = id_attributes (rq_identity req),
      ck_operation = rq_operation req,
      ck_resources = sort_key resource_order (map resource_key (rq_resources req)),
      ck_grant = map_option grant_key (rq_grant req),
      ck_cluster_group = rc_cluster_group (rq_context req), ck_engine = rc_engine (rq_context req),
      ck_session_params = rc_session_params (rq_context req)\<rparr>"

section \<open>The cache\<close>

definition fresh :: "duration \<Rightarrow> instant \<Rightarrow> CacheEntry \<Rightarrow> bool" where
  "fresh ttl now e \<longleftrightarrow> saturating_duration_since now (ce_stored e) < ttl"

definition cache_get :: "AccessController \<Rightarrow> instant \<Rightarrow> CacheKey \<Rightarrow> AccessDecision option \<times> AccessController" where
  "cache_get c now key =
     (case map_of (ac_cache c) key of
        None \<Rightarrow> (None, c)
      | Some e \<Rightarrow>
          if fresh (ac_cache_ttl c) now e then (Some (ce_decision e), c)
          else (None, c\<lparr>ac_cache := AList.delete key (ac_cache c)\<rparr>))"

definition cache_put :: "AccessController \<Rightarrow> instant \<Rightarrow> CacheKey \<Rightarrow> AccessDecision \<Rightarrow> AccessController" where
  "cache_put c now key d =
     (let kept = (if ac_cache_capacity c \<le> length (ac_cache c) then
                    let live = filter (\<lambda>(_, e). fresh (ac_cache_ttl c) now e) (ac_cache c)
                    in if ac_cache_capacity c \<le> length live then [] else live
                  else ac_cache c)
      in c\<lparr>ac_cache := AList.update key \<lparr>ce_stored = now, ce_decision = d\<rparr> kept\<rparr>)"

section \<open>Evaluation\<close>

definition lookup_decision :: "AccessController \<Rightarrow> instant \<Rightarrow> AccessRequest \<Rightarrow> AccessDecision option \<times> AccessController" where
  "lookup_decision c now req =
     (if ac_cache_ttl c \<noteq> 0 then cache_get c now (cache_key req) else (None, c))"

definition finish_decision ::
  "AccessController \<Rightarrow> instant \<Rightarrow> AccessRequest \<Rightarrow> PolicyError + AccessDecision \<Rightarrow> AccessDecision \<times> AccessController" where
  "finish_decision c now req answer =
     (case answer of
        Inr d \<Rightarrow>
          (d, if is_allowed d \<and> ac_cache_ttl c \<noteq> 0 then cache_put c now (cache_key req) d else c)
      | Inl e \<Rightarrow>
          (if fail_open_for c (rc_cluster_group (rq_context req)) then allow_all
           else deny_all (''policy engine unavailable: '' @ show_policy_error e), c))"

definition evaluate ::
  "AccessController \<Rightarrow> instant \<Rightarrow> instant \<Rightarrow> AccessRequest \<Rightarrow> PolicyError + AccessDecision
   \<Rightarrow> AccessDecision \<times> AccessController" where
  "evaluate c now later req answer =
     (case lookup_decision c now req of
        (Some d, c') \<Rightarrow> (d, c')
      | (None, c') \<Rightarrow> finish_decision c' later req answer)"

section \<open>The key tells apart exactly what a policy can tell apart\<close>

text \<open>
  A request as a policy sees it: memberships, columns, objects and grants without an order, and
  no query id.
\<close>

record ResourceView =
  rv_kind :: ResourceKind
  rv_catalog :: "string option"
  rv_schema :: "string option"
  rv_table :: string
  rv_columns :: "string multiset option"
  rv_value :: "string option"

definition resource_view :: "AccessResource \<Rightarrow> ResourceView" where
  "resource_view r =
     \<lparr>rv_kind = ar_kind r, rv_catalog = ar_catalog r, rv_schema = ar_schema r, rv_table = ar_table r,
      rv_columns = (case ar_columns r of AllColumns \<Rightarrow> None | NamedColumns c \<Rightarrow> Some (mset c)),
      rv_value = ar_value r\<rparr>"

definition same_request :: "AccessRequest \<Rightarrow> AccessRequest \<Rightarrow> bool" where
  "same_request a b \<longleftrightarrow>
     id_user (rq_identity a) = id_user (rq_identity b)
     \<and> mset (id_groups (rq_identity a)) = mset (id_groups (rq_identity b))
     \<and> mset (id_roles (rq_identity a)) = mset (id_roles (rq_identity b))
     \<and> id_attributes (rq_identity a) = id_attributes (rq_identity b)
     \<and> rq_operation a = rq_operation b
     \<and> mset (map resource_view (rq_resources a)) = mset (map resource_view (rq_resources b))
     \<and> map_option (\<lambda>g. (mset (gd_privileges g), mset (gd_grantees g), gd_with_grant_option g)) (rq_grant a)
       = map_option (\<lambda>g. (mset (gd_privileges g), mset (gd_grantees g), gd_with_grant_option g)) (rq_grant b)
     \<and> rc_cluster_group (rq_context a) = rc_cluster_group (rq_context b)
     \<and> rc_engine (rq_context a) = rc_engine (rq_context b)
     \<and> rc_session_params (rq_context a) = rc_session_params (rq_context b)"

lemma sort_eq_iff_mset: "sort xs = sort ys \<longleftrightarrow> mset xs = mset ys"
  by (metis mset_sort properties_for_sort sorted_sort)

lemma inj_resource_order: "inj resource_order"
  by (rule injI) (simp add: resource_order_def CacheResourceKey.equality)

lemma sort_key_eq_iff_mset:
  assumes "inj f"
  shows "sort_key f xs = sort_key f ys \<longleftrightarrow> mset xs = mset ys"
proof
  assume "sort_key f xs = sort_key f ys"
  then have "mset (sort_key f xs) = mset (sort_key f ys)" by simp
  then show "mset xs = mset ys" by simp
next
  assume "mset xs = mset ys"
  then show "sort_key f xs = sort_key f ys"
    using assms by (intro sort_key_inj_key_eq) (auto intro: inj_on_subset)
qed

lemma resource_key_eq_iff: "resource_key a = resource_key b \<longleftrightarrow> resource_view a = resource_view b"
  by (auto simp: resource_key_def resource_view_def sort_eq_iff_mset split: Columns.splits)

lemma mset_map_eq_iff:
  assumes "\<And>a b. f a = f b \<longleftrightarrow> g a = g b"
  shows "mset (map f xs) = mset (map f ys) \<longleftrightarrow> mset (map g xs) = mset (map g ys)"
proof -
  have factor: "mset (map h xs) = mset (map h ys)"
    if k: "mset (map k xs) = mset (map k ys)" and "\<And>a b. k a = k b \<Longrightarrow> h a = h b"
    for h :: "'a \<Rightarrow> 'd" and k :: "'a \<Rightarrow> 'e"
  proof -
    have "h a = h (inv k (k a))" for a using that(2) [of a "inv k (k a)"] by (simp add: f_inv_into_f)
    then have h: "h = (h \<circ> inv k) \<circ> k" by auto
    have "mset (map h zs) = image_mset (h \<circ> inv k) (mset (map k zs))" for zs
      by (subst h) (simp add: multiset.map_comp flip: mset_map)
    then show ?thesis using k by simp
  qed
  show ?thesis using factor [of f g] factor [of g f] assms by blast
qed

lemma grant_key_eq_iff:
  "map_option grant_key a = map_option grant_key b \<longleftrightarrow>
   map_option (\<lambda>g. (mset (gd_privileges g), mset (gd_grantees g), gd_with_grant_option g)) a =
   map_option (\<lambda>g. (mset (gd_privileges g), mset (gd_grantees g), gd_with_grant_option g)) b"
  by (cases a; cases b) (simp_all add: grant_key_def sort_eq_iff_mset)

lemma cache_key_eq_iff: "cache_key a = cache_key b \<longleftrightarrow> same_request a b"
  using mset_map_eq_iff [where f = resource_key and g = resource_view and xs = "rq_resources a" and ys = "rq_resources b",
      OF resource_key_eq_iff]
  by (auto simp: cache_key_def same_request_def sort_eq_iff_mset grant_key_eq_iff
      sort_key_eq_iff_mset [OF inj_resource_order])

section \<open>Runs\<close>

text \<open>
  Queries interleave: lookups, provider answers (with the instant they arrive) and the loss of
  any cache entry, which covers a removal that races with a store. The log keeps what the
  provider has answered.
\<close>

inductive ac_reachable ::
  "AccessController \<Rightarrow> AccessController \<Rightarrow> instant \<Rightarrow> (AccessRequest \<times> AccessDecision \<times> instant) list \<Rightarrow> bool" for c0 where
  start: "ac_cache c0 = [] \<Longrightarrow> ac_reachable c0 c0 t []"
| tick: "ac_reachable c0 c t log \<Longrightarrow> t \<le> t' \<Longrightarrow> ac_reachable c0 c t' log"
| lookup: "ac_reachable c0 c t log \<Longrightarrow> ac_reachable c0 (snd (lookup_decision c t req)) t log"
| answered: "ac_reachable c0 c t log \<Longrightarrow> ac_reachable c0 (snd (finish_decision c t req (Inr d))) t ((req, d, t) # log)"
| failed: "ac_reachable c0 c t log \<Longrightarrow> ac_reachable c0 (snd (finish_decision c t req (Inl e))) t log"
| lost: "ac_reachable c0 c t log \<Longrightarrow> ac_reachable c0 (c\<lparr>ac_cache := AList.delete k (ac_cache c)\<rparr>) t log"

text \<open>Every entry comes from an allow decision of the provider, for a request with that key.\<close>

definition entry_ok :: "(AccessRequest \<times> AccessDecision \<times> instant) list \<Rightarrow> instant \<Rightarrow> CacheKey \<times> CacheEntry \<Rightarrow> bool" where
  "entry_ok log t ke \<longleftrightarrow>
     (\<exists>req. (req, ce_decision (snd ke), ce_stored (snd ke)) \<in> set log \<and> cache_key req = fst ke)
     \<and> is_allowed (ce_decision (snd ke)) \<and> ce_stored (snd ke) \<le> t"

definition ac_inv :: "AccessController \<Rightarrow> AccessController \<Rightarrow> instant \<Rightarrow> (AccessRequest \<times> AccessDecision \<times> instant) list \<Rightarrow> bool" where
  "ac_inv c0 c t log \<longleftrightarrow>
     ac_cache_ttl c = ac_cache_ttl c0 \<and> ac_cache_capacity c = ac_cache_capacity c0
     \<and> distinct (map fst (ac_cache c)) \<and> length (ac_cache c) \<le> max 1 (ac_cache_capacity c0)
     \<and> (\<forall>ke \<in> set (ac_cache c). entry_ok log t ke)"

lemma entry_ok_mono: "entry_ok log t ke \<Longrightarrow> set log \<subseteq> set log' \<Longrightarrow> t \<le> t' \<Longrightarrow> entry_ok log' t' ke"
  unfolding entry_ok_def by (meson order_trans subsetD)

lemma set_delete_subset: "set (AList.delete k xs) \<subseteq> set xs"
  by (induction xs) auto

lemma length_delete_le': "length (AList.delete k xs) \<le> length xs"
  by (induction xs) auto

lemma ac_inv_delete: "ac_inv c0 c t log \<Longrightarrow> ac_inv c0 (c\<lparr>ac_cache := AList.delete k (ac_cache c)\<rparr>) t log"
  using set_delete_subset [of k "ac_cache c"] length_delete_le' [of k "ac_cache c"]
  by (auto simp: ac_inv_def distinct_delete intro: order_trans)

lemma ac_inv_lookup: "ac_inv c0 c t log \<Longrightarrow> ac_inv c0 (snd (lookup_decision c t req)) t log"
  using ac_inv_delete [of c0 c t log "cache_key req"]
  by (simp add: lookup_decision_def cache_get_def split: option.splits)

lemma length_alist_update_le: "length (AList.update k v xs) \<le> Suc (length xs)"
  by (induction xs) auto

lemma length_alist_update_mem: "k \<in> fst ` set xs \<Longrightarrow> length (AList.update k v xs) = length xs"
  by (induction xs) auto

lemma set_alist_update_subset: "set (AList.update k v xs) \<subseteq> insert (k, v) (set xs)"
  by (induction xs) auto

lemma cache_put_cache:
  obtains kept where "ac_cache (cache_put c now key d) = AList.update key \<lparr>ce_stored = now, ce_decision = d\<rparr> kept"
    "set kept \<subseteq> set (ac_cache c)" "distinct (map fst (ac_cache c)) \<Longrightarrow> distinct (map fst kept)"
    "length kept < max 1 (ac_cache_capacity c)"
proof -
  define kept where "kept = (if ac_cache_capacity c \<le> length (ac_cache c) then
      let live = filter (\<lambda>(_, e). fresh (ac_cache_ttl c) now e) (ac_cache c)
      in if ac_cache_capacity c \<le> length live then [] else live else ac_cache c)"
  have "ac_cache (cache_put c now key d) = AList.update key \<lparr>ce_stored = now, ce_decision = d\<rparr> kept"
    by (simp add: cache_put_def kept_def)
  moreover have "set kept \<subseteq> set (ac_cache c)" by (auto simp: kept_def Let_def)
  moreover have "distinct (map fst kept)" if "distinct (map fst (ac_cache c))"
    using that by (auto simp: kept_def Let_def distinct_map_filter)
  moreover have "length kept < max 1 (ac_cache_capacity c)" by (auto simp: kept_def Let_def)
  ultimately show thesis by (rule that)
qed

lemma ac_inv_put:
  assumes "ac_inv c0 c t log" "is_allowed d"
  shows "ac_inv c0 (cache_put c t (cache_key req) d) t ((req, d, t) # log)"
proof -
  obtain kept where k: "ac_cache (cache_put c t (cache_key req) d)
      = AList.update (cache_key req) \<lparr>ce_stored = t, ce_decision = d\<rparr> kept"
    "set kept \<subseteq> set (ac_cache c)" "distinct (map fst (ac_cache c)) \<Longrightarrow> distinct (map fst kept)"
    "length kept < max 1 (ac_cache_capacity c)"
    using cache_put_cache [of c t "cache_key req" d] by blast
  have "entry_ok ((req, d, t) # log) t ke" if "ke \<in> set (ac_cache (cache_put c t (cache_key req) d))" for ke
  proof (cases "ke \<in> set kept")
    case True
    then have "entry_ok log t ke" using k(2) assms(1) by (auto simp: ac_inv_def)
    then show ?thesis by (rule entry_ok_mono) auto
  next
    case False
    then have "ke = (cache_key req, \<lparr>ce_stored = t, ce_decision = d\<rparr>)"
      using that set_alist_update_subset k(1) by fastforce
    then show ?thesis using assms(2) by (auto simp: entry_ok_def)
  qed
  moreover have "length (ac_cache (cache_put c t (cache_key req) d)) \<le> max 1 (ac_cache_capacity c)"
    using k(1,4) length_alist_update_le [of "cache_key req" _ kept] by (metis Suc_leI order.trans)
  ultimately show ?thesis
    using assms(1) k by (simp add: ac_inv_def cache_put_def Let_def distinct_update)
qed

lemma ac_reachable_inv: "ac_reachable c0 c t log \<Longrightarrow> ac_inv c0 c t log"
proof (induction rule: ac_reachable.induct)
  case (start t)
  then show ?case by (simp add: ac_inv_def)
next
  case (tick c t log t')
  then show ?case unfolding ac_inv_def using entry_ok_mono by blast
next
  case (lookup c t log req)
  then show ?case by (intro ac_inv_lookup)
next
  case (answered c t log req d)
  then have "ac_inv c0 c t ((req, d, t) # log)"
    unfolding ac_inv_def by (auto intro: entry_ok_mono)
  then show ?case using answered.IH ac_inv_put by (auto simp: finish_decision_def)
next
  case (failed c t log req e)
  then show ?case by (simp add: finish_decision_def)
next
  case (lost c t log k)
  then show ?case by (intro ac_inv_delete)
qed

lemma lookup_sound:
  assumes "ac_reachable c0 c t log" and "lookup_decision c t req = (Some d, c')"
  shows "is_allowed d \<and> c' = c \<and> length (ac_cache c) \<le> max 1 (ac_cache_capacity c0)
    \<and> (\<exists>req' t'. (req', d, t') \<in> set log \<and> same_request req' req \<and> t' \<le> t \<and> t < t' + ac_cache_ttl c0)"
proof -
  have inv: "ac_inv c0 c t log" using assms(1) by (rule ac_reachable_inv)
  from assms(2) obtain e where e: "map_of (ac_cache c) (cache_key req) = Some e"
    "fresh (ac_cache_ttl c) t e" "d = ce_decision e" "c' = c"
    by (auto simp: lookup_decision_def cache_get_def split: if_splits option.splits)
  then have "entry_ok log t (cache_key req, e)" using inv map_of_SomeD by (fastforce simp: ac_inv_def)
  then obtain req' where "(req', ce_decision e, ce_stored e) \<in> set log" "cache_key req' = cache_key req"
    "is_allowed (ce_decision e)" "ce_stored e \<le> t"
    by (auto simp: entry_ok_def)
  moreover have "t < ce_stored e + ac_cache_ttl c0"
    using e(2) inv \<open>ce_stored e \<le> t\<close> by (auto simp: fresh_def saturating_duration_since_def ac_inv_def)
  ultimately show ?thesis using e inv by (auto simp: cache_key_eq_iff ac_inv_def)
qed

lemma lookup_keeps:
  "ac_group_fail_open (snd (lookup_decision c t req)) = ac_group_fail_open c"
  "ac_fail_open_default (snd (lookup_decision c t req)) = ac_fail_open_default c"
  "set (ac_cache (snd (lookup_decision c t req))) \<subseteq> set (ac_cache c)"
  by (auto simp: lookup_decision_def cache_get_def AList.delete_eq split: option.splits)

lemma reachable_fail_open:
  "ac_reachable c0 c t log \<Longrightarrow> ac_group_fail_open c = ac_group_fail_open c0 \<and> ac_fail_open_default c = ac_fail_open_default c0"
  by (induction rule: ac_reachable.induct) (simp_all add: lookup_keeps finish_decision_def cache_put_def Let_def split: sum.splits)

section \<open>Properties\<close>

text \<open>
  The cache key is exact: two requests share a cached decision exactly when they agree
  in everything a policy may act on, up to the order of memberships, columns, objects and
  grants; the query id is the only field left out.
\<close>

theorem cache_key_exact: "cache_key a = cache_key b \<longleftrightarrow> same_request a b"
  by (rule cache_key_eq_iff)

text \<open>
  Claim C27. A cached decision is never stale, never a denial and never somebody else's: whatever
  interleaving of queries filled the cache, a decision served from it was given by the provider
  less than one lifetime ago, it allows, and it was given for the same request. The cache holds
  at most its capacity, each decision being stored in one step (in the code, queries that store at the same
  moment can pass the capacity by as many entries).
\<close>
theorem cached_decision_sound:
  assumes "ac_reachable c0 c t log" and "lookup_decision c t req = (Some d, c')"
  shows "is_allowed d \<and> c' = c \<and> length (ac_cache c) \<le> max 1 (ac_cache_capacity c0)
    \<and> (\<exists>req' t'. (req', d, t') \<in> set log \<and> same_request req' req \<and> t' \<le> t \<and> t < t' + ac_cache_ttl c0)"
  using assms by (rule lookup_sound)

definition demo_controller :: AccessController where
  "demo_controller = AccessController_new [table_select] False [] 5 10"

theorem cached_decision_sound_witness:
  "same_request (opa_request []) (opa_request [])
   \<and> lookup_decision (snd (finish_decision demo_controller 3 (opa_request []) (Inr allow_all))) 7 (opa_request [])
     = (Some allow_all, snd (finish_decision demo_controller 3 (opa_request []) (Inr allow_all)))"
proof -
  let ?c = "snd (finish_decision demo_controller 3 (opa_request []) (Inr allow_all))"
  have "ac_reachable demo_controller ?c 7 [(opa_request [], allow_all, 3)]"
    by (rule ac_reachable.tick [OF ac_reachable.answered [OF ac_reachable.start]])
      (simp_all add: demo_controller_def AccessController_new_def)
  moreover have hit: "lookup_decision ?c 7 (opa_request []) = (Some allow_all, ?c)"
    by (simp add: lookup_decision_def finish_decision_def cache_put_def cache_get_def demo_controller_def
        AccessController_new_def fresh_def saturating_duration_since_def Let_def)
  ultimately show ?thesis using cached_decision_sound by fastforce
qed

text \<open>
  Claim C31. Evaluation fails closed, in every history of the controller. A decision that is not served from the
  cache, where it is an earlier answer to the same request that allows and is younger than one lifetime, is the provider's
  own, unchanged; or, when the provider fails, an unrestricted allow if the override of the query's cluster group
  says to fail open, or there is no override and the default says so, and in all other cases a denial that
  names the failure. A failure and a denial are never remembered.
\<close>
theorem evaluate_fails_closed:
  assumes "ac_reachable c0 c t log" and "evaluate c t later req answer = (d, c')"
  shows "(\<exists>req' t'. (req', d, t') \<in> set log \<and> same_request req' req \<and> is_allowed d \<and> t' \<le> t \<and> t < t' + ac_cache_ttl c0)
      \<and> c' = c
    \<or> (case answer of
         Inr d' \<Rightarrow> d = d' \<and> (\<not> is_allowed d' \<longrightarrow> set (ac_cache c') \<subseteq> set (ac_cache c))
       | Inl e \<Rightarrow> set (ac_cache c') \<subseteq> set (ac_cache c)
           \<and> (if map_of (ac_group_fail_open c0) (rc_cluster_group (rq_context req)) = Some True
                \<or> map_of (ac_group_fail_open c0) (rc_cluster_group (rq_context req)) = None \<and> ac_fail_open_default c0
              then ad_resources d = []
              else \<not> is_allowed d
                \<and> (\<forall>r \<in> set (ad_resources d). rd_reason r = Some (''policy engine unavailable: '' @ show_policy_error e))))"
proof (cases "fst (lookup_decision c t req)")
  case (Some d')
  then have "lookup_decision c t req = (Some d, c')" using assms(2) by (auto simp: evaluate_def split: prod.splits option.splits)
  then show ?thesis using lookup_sound [OF assms(1)] by blast
next
  case None
  let ?c = "snd (lookup_decision c t req)" and ?g = "rc_cluster_group (rq_context req)"
  have f: "finish_decision ?c later req answer = (d, c')"
    using None assms(2) by (auto simp: evaluate_def split: prod.splits option.splits)
  have o: "fail_open_for ?c ?g \<longleftrightarrow> map_of (ac_group_fail_open c0) ?g = Some True
      \<or> map_of (ac_group_fail_open c0) ?g = None \<and> ac_fail_open_default c0"
    using reachable_fail_open [OF assms(1)] lookup_keeps(1,2) [of c t req] by (auto simp: fail_open_for_def split: option.splits)
  show ?thesis
    using f lookup_keeps(3) [of c t req]
    by (cases answer) (auto simp: finish_decision_def o allow_all_def deny_all_def is_allowed_def split: if_splits)
qed
theorem evaluate_fails_closed_witness:
  "\<not> is_allowed (fst (evaluate (AccessController_new [table_select] True [(''g'', False)] 5 10) 0 0 (opa_request []) (Inl PE_Timeout)))
   \<and> rc_cluster_group (rq_context (opa_request [])) = ''g''"
proof -
  let ?c = "AccessController_new [table_select] True [(''g'', False)] 5 10"
  have g: "rc_cluster_group (rq_context (opa_request [])) = ''g''" by (simp add: opa_request_def)
  have "ac_reachable ?c ?c 0 []" by (rule ac_reachable.start) (simp_all add: AccessController_new_def)
  then show ?thesis
    using evaluate_fails_closed [of ?c ?c 0 "[]" 0 "opa_request []" "Inl PE_Timeout", OF _ prod.collapse [symmetric]] g
    by (simp add: AccessController_new_def)
qed
end
