(* ===== verification/Sql_Classify.thy ===== *)
theory Sql_Classify
  imports Core_Types Session
begin

text \<open>
  Classifying SQL, \<open>crates/queryflux-sql/src/classify.rs\<close>. The parser (polyglot-sql) is an argument;
  of its syntax trees the model keeps the node kinds and fields that this code and the
  guards look at, every other node being \<open>OtherExpr\<close>.
\<close>

section \<open>Syntax trees\<close>

datatype Expression =
    Select "Expression option" bool "Expression list option"
  | Union Expression Expression "Expression option"
  | Intersect Expression Expression "Expression option"
  | Except Expression Expression "Expression option"
  | Subquery
  | Describe
  | Show
  | Command
  | LiteralNumber string
  | TableRef "string option" string
  | AliasExpr Expression
  | X_Insert | X_Update | X_Delete | X_Merge | X_Truncate | X_TruncateTable
  | X_CreateTable | X_DropTable | X_AlterTable | X_CreateView | X_DropView | X_AlterView
  | X_CreateSchema | X_DropSchema | X_DropNamespace | X_CreateDatabase | X_DropDatabase
  | OtherExpr

text \<open>
  \<open>Select\<close> carries its limit, whether it has a \<open>WHERE\<close> clause, and its \<open>FROM\<close> list; the set
  operations their two arms and limit; a table its schema and name.
\<close>

datatype DialectType =
    DT_Trino | DT_Athena | DT_DuckDB | DT_StarRocks | DT_ClickHouse | DT_MySQL | DT_PostgreSQL | DT_SQLite
  | DT_Snowflake | DT_BigQuery | DT_Databricks | DT_TSQL | DT_Redshift | DT_Exasol | DT_Generic

type_synonym parser = "DialectType \<Rightarrow> string \<Rightarrow> Expression list option"

fun to_polyglot_dialect :: "SqlDialect \<Rightarrow> DialectType" where
  "to_polyglot_dialect D_Trino = DT_Trino"
| "to_polyglot_dialect D_Athena = DT_Athena"
| "to_polyglot_dialect D_DuckDb = DT_DuckDB"
| "to_polyglot_dialect D_StarRocks = DT_StarRocks"
| "to_polyglot_dialect D_ClickHouse = DT_ClickHouse"
| "to_polyglot_dialect D_MySql = DT_MySQL"
| "to_polyglot_dialect D_Postgres = DT_PostgreSQL"
| "to_polyglot_dialect D_Sqlite = DT_SQLite"
| "to_polyglot_dialect D_Snowflake = DT_Snowflake"
| "to_polyglot_dialect D_BigQuery = DT_BigQuery"
| "to_polyglot_dialect D_Databricks = DT_Databricks"
| "to_polyglot_dialect D_MsSql = DT_TSQL"
| "to_polyglot_dialect D_Redshift = DT_Redshift"
| "to_polyglot_dialect D_Exasol = DT_Exasol"
| "to_polyglot_dialect D_Generic = DT_Generic"
| "to_polyglot_dialect (D_Sqlglot n) = DT_Generic"

fun is_read_stmt :: "Expression \<Rightarrow> bool" where
  "is_read_stmt (Select _ _ _) = True"
| "is_read_stmt (Union _ _ _) = True"
| "is_read_stmt (Intersect _ _ _) = True"
| "is_read_stmt (Except _ _ _) = True"
| "is_read_stmt Subquery = True"
| "is_read_stmt Describe = True"
| "is_read_stmt Show = True"
| "is_read_stmt Command = True"
| "is_read_stmt _ = False"

section \<open>Leading comments\<close>

lemma length_trim_start: "length (trim_start s) \<le> length s"
  by (simp add: trim_start_def length_dropWhile_le)

lemma length_strip_prefix: "strip_prefix p s = Some t \<Longrightarrow> length s = length p + length t"
  by (simp add: strip_prefix_Some)

lemma length_find_str: "find_str p s = Some (a, b) \<Longrightarrow> length b \<le> length s"
  by (auto dest!: find_str_Some)

lemma length_after_prefix:
  "strip_prefix p (trim_start s) = Some rest \<Longrightarrow> p \<noteq> [] \<Longrightarrow> length rest < length s"
  using length_trim_start [of s] length_strip_prefix [of p "trim_start s" rest] by (cases p) auto

function strip_leading_sql_comments :: "string \<Rightarrow> string" where
  "strip_leading_sql_comments s =
     (let t = trim_start s in
      case strip_prefix ''--'' t of
        Some rest \<Rightarrow>
          strip_leading_sql_comments (case find_str [CHR 0x0A] rest of Some (_, after) \<Rightarrow> after | None \<Rightarrow> [])
      | None \<Rightarrow>
          (case strip_prefix ''/*'' t of
             Some rest \<Rightarrow>
               (case find_str ''*/'' rest of
                  Some (_, after) \<Rightarrow> strip_leading_sql_comments after
                | None \<Rightarrow> t)
           | None \<Rightarrow> t))"
  by pat_completeness auto
termination
proof (relation "measure length", goal_cases)
  case (2 s t rest ab a after)
  then show ?case
    by (auto dest!: length_after_prefix length_find_str split: option.splits)
next
  case (3 s t rest)
  then show ?case
    by (auto dest!: length_after_prefix dest: length_find_str split: option.splits)
qed simp

declare strip_leading_sql_comments.simps [simp del]

definition is_read_like_fallback :: "string \<Rightarrow> bool" where
  "is_read_like_fallback sql \<longleftrightarrow>
     (let trimmed = to_uppercase (strip_leading_sql_comments sql) in
        starts_with ''SELECT'' trimmed
        \<or> starts_with ''WITH'' trimmed
        \<or> starts_with ''SHOW'' trimmed
        \<or> starts_with ''DESCRIBE'' trimmed
        \<or> starts_with ''EXPLAIN'' trimmed
        \<or> starts_with ''DESC '' trimmed
        \<or> starts_with (''DESC'' @ [CHR 0x09]) trimmed)"

section \<open>The parse cache\<close>

record SqlParseCache =
  spc_sql :: string
  spc_dialect :: SqlDialect
  spc_cache :: "Expression list option option"
  spc_parses :: nat

definition SqlParseCache_new :: "string \<Rightarrow> SqlDialect \<Rightarrow> SqlParseCache" where
  "SqlParseCache_new sql d = \<lparr>spc_sql = sql, spc_dialect = d, spc_cache = None, spc_parses = 0\<rparr>"

definition with_statements :: "string \<Rightarrow> SqlDialect \<Rightarrow> Expression list \<Rightarrow> SqlParseCache" where
  "with_statements sql d stmts = \<lparr>spc_sql = sql, spc_dialect = d, spc_cache = Some (Some stmts), spc_parses = 0\<rparr>"

definition parsed :: "parser \<Rightarrow> SqlParseCache \<Rightarrow> Expression list option \<times> SqlParseCache" where
  "parsed p c =
     (case spc_cache c of
        Some r \<Rightarrow> (r, c)
      | None \<Rightarrow>
          let r = p (to_polyglot_dialect (spc_dialect c)) (spc_sql c)
          in (r, c\<lparr>spc_cache := Some r, spc_parses := spc_parses c + 1\<rparr>))"

definition is_read_like :: "parser \<Rightarrow> SqlParseCache \<Rightarrow> bool \<times> SqlParseCache" where
  "is_read_like p c =
     (case parsed p c of
        (Some stmts, c') \<Rightarrow> (stmts \<noteq> [] \<and> list_all (\<lambda>s. is_read_stmt s \<and> s \<noteq> Command) stmts, c')
      | (None, c') \<Rightarrow> (is_read_like_fallback (spc_sql c), c'))"

definition is_read_like_sql :: "parser \<Rightarrow> string \<Rightarrow> SqlDialect \<Rightarrow> bool" where
  "is_read_like_sql p sql d = fst (is_read_like p (SqlParseCache_new sql d))"

section \<open>Properties\<close>

text \<open>A cache that holds a parse holds the parser's answer for its SQL, and is asked at most once.\<close>

definition parse_cache_ok :: "parser \<Rightarrow> SqlParseCache \<Rightarrow> bool" where
  "parse_cache_ok p c \<longleftrightarrow>
     (case spc_cache c of
        None \<Rightarrow> spc_parses c = 0
      | Some r \<Rightarrow> r = p (to_polyglot_dialect (spc_dialect c)) (spc_sql c) \<and> spc_parses c \<le> 1)"

lemma parse_cache_ok_new [simp]: "parse_cache_ok p (SqlParseCache_new sql d)"
  by (simp add: parse_cache_ok_def SqlParseCache_new_def)

lemma parsed_spec:
  assumes "parse_cache_ok p c"
  shows "fst (parsed p c) = p (to_polyglot_dialect (spc_dialect c)) (spc_sql c)"
    and "parse_cache_ok p (snd (parsed p c))" and "parsed p (snd (parsed p c)) = parsed p c"
  using assms by (auto simp: parsed_def parse_cache_ok_def Let_def split: option.splits)

lemma strip_prefix_self [simp]: "strip_prefix p (p @ t) = Some t"
  by (simp add: strip_prefix_Some)

lemma find_newline:
  "CHR 0x0A \<notin> set c \<Longrightarrow> find_str [CHR 0x0A] (c @ CHR 0x0A # rest) = Some (c, rest)"
  by (induction c) auto

lemma trim_start_hd: "trim_start s = [] \<or> \<not> is_whitespace (hd (trim_start s))"
  unfolding trim_start_def using hd_dropWhile [of is_whitespace s] by (cases "dropWhile is_whitespace s = []") simp_all

text \<open>
  A line comment in front of a statement does not change its fallback classification, and what
  is left of any SQL starts with neither whitespace nor a comment that ends.
\<close>

lemma strip_line_comment:
  assumes "CHR 0x0A \<notin> set c"
  shows "strip_leading_sql_comments (''--'' @ c @ CHR 0x0A # rest) = strip_leading_sql_comments rest"
proof -
  have "trim_start (''--'' @ c @ CHR 0x0A # rest) = ''--'' @ c @ CHR 0x0A # rest"
    by (simp add: trim_start_def is_whitespace_def)
  then show ?thesis
    using find_newline [OF assms, of rest] strip_leading_sql_comments.simps [of "''--'' @ c @ CHR 0x0A # rest"]
    by simp
qed

lemma strip_leading_sql_comments_done:
  "let r = strip_leading_sql_comments s in
     (r = [] \<or> \<not> is_whitespace (hd r)) \<and> strip_prefix ''--'' r = None
     \<and> (\<forall>rest. strip_prefix ''/*'' r = Some rest \<longrightarrow> find_str ''*/'' rest = None)"
proof (induction s rule: strip_leading_sql_comments.induct)
  case (1 s)
  show ?case
  proof (cases "strip_prefix ''--'' (trim_start s)")
    case (Some rest)
    then show ?thesis using 1(2) [OF refl Some] by (subst strip_leading_sql_comments.simps) simp
  next
    case None
    show ?thesis
    proof (cases "strip_prefix ''/*'' (trim_start s)")
      case block: (Some rest)
      show ?thesis
      proof (cases "find_str ''*/'' rest")
        case found: (Some ab)
        obtain a b where ab: "ab = (a, b)" by (cases ab)
        show ?thesis
          using 1(1) [OF refl None block found] None block found ab
          by (subst strip_leading_sql_comments.simps) simp
      next
        case unclosed: None
        then show ?thesis
          using None block trim_start_hd [of s] by (subst strip_leading_sql_comments.simps) (simp add: Let_def)
      qed
    next
      case no_block: None
      then show ?thesis
        using None trim_start_hd [of s] by (subst strip_leading_sql_comments.simps) (simp add: Let_def)
    qed
  qed
qed

text \<open>Stripping only removes text in front.\<close>

lemma strip_leading_sql_comments_suffix: "\<exists>p. s = p @ strip_leading_sql_comments s"
proof (induction s rule: strip_leading_sql_comments.induct)
  case (1 s)
  obtain w where w: "s = w @ trim_start s"
    using takeWhile_dropWhile_id [of is_whitespace s] unfolding trim_start_def by metis
  show ?case
  proof (cases "strip_prefix ''--'' (trim_start s)")
    case (Some rest)
    let ?after = "case find_str [CHR 0x0A] rest of Some (_, after) \<Rightarrow> after | None \<Rightarrow> []"
    have "\<exists>q. rest = q @ ?after" by (cases "find_str [CHR 0x0A] rest") (auto dest!: find_str_Some)
    then have "\<exists>q. s = q @ ?after" using w Some by (metis append_assoc strip_prefix_Some)
    moreover have "strip_leading_sql_comments s = strip_leading_sql_comments ?after"
      using Some by (subst strip_leading_sql_comments.simps) simp
    ultimately show ?thesis using 1(2) [OF refl Some] by (metis append_assoc)
  next
    case None
    show ?thesis
    proof (cases "strip_prefix ''/*'' (trim_start s)")
      case block: (Some rest)
      show ?thesis
      proof (cases "find_str ''*/'' rest")
        case found: (Some ab)
        obtain a b where ab: "ab = (a, b)" by (cases ab)
        have "strip_leading_sql_comments s = strip_leading_sql_comments b"
          using None block found ab by (subst strip_leading_sql_comments.simps) simp
        moreover have "\<exists>q. s = q @ b"
          using w block found ab by (metis append_assoc find_str_Some strip_prefix_Some)
        ultimately show ?thesis using 1(1) [OF refl None block found] ab by (metis append_assoc)
      next
        case unclosed: None
        have "strip_leading_sql_comments s = trim_start s"
          using None block unclosed by (subst strip_leading_sql_comments.simps) (simp add: Let_def)
        then show ?thesis using w by metis
      qed
    next
      case no_block: None
      have "strip_leading_sql_comments s = trim_start s"
        using None no_block by (subst strip_leading_sql_comments.simps) (simp add: Let_def)
      then show ?thesis using w by metis
    qed
  qed
qed

lemma length_strip_leading_sql_comments: "length (strip_leading_sql_comments s) \<le> length s"
  using strip_leading_sql_comments_suffix [of s] by (metis length_append le_add2)

end
