(* ===== verification/Guardrails.thy ===== *)
theory Guardrails
  imports Sql_Classify
begin

text \<open>
  Guardrails, \<open>crates/queryflux-guardrails/src\<close>: the verdicts (\<open>context.rs\<close>), the built-in guards
  (\<open>built_in.rs\<close>), the script and webhook guards (\<open>external.rs\<close>), the chain (\<open>chain.rs\<close>), the
  audit record (\<open>lib.rs\<close>) and the validation of the configuration (\<open>config.rs\<close>). The SQL parser,
  the Python interpreter, the webhook and the URL parser are arguments.
\<close>

section \<open>Verdicts\<close>

datatype GuardLayer = L_Input | L_Plan | L_Output

type_synonym metadata = "(string \<times> string) list"

datatype GuardResult =
    G_Allow "metadata option"
  | G_Warn string
  | G_Deny string "string option"
  | G_Rewrite string "metadata option"

definition allow :: GuardResult where "allow = G_Allow None"
definition deny :: "string \<Rightarrow> string \<Rightarrow> GuardResult" where "deny reason code = G_Deny reason (Some code)"
definition warn :: "string \<Rightarrow> GuardResult" where "warn reason = G_Warn reason"

datatype GuardChainOutcome = Blocked string "string option" | Proceed

record GuardAction =
  act_guard :: string
  act_action :: string
  act_reason :: "string option"
  act_code :: "string option"
  act_metadata :: "metadata option"

fun result_to_action :: "string \<Rightarrow> GuardResult \<Rightarrow> GuardAction" where
  "result_to_action g (G_Allow md) =
     \<lparr>act_guard = g, act_action = ''allow'', act_reason = None, act_code = None, act_metadata = md\<rparr>"
| "result_to_action g (G_Warn r) =
     \<lparr>act_guard = g, act_action = ''warn'', act_reason = Some r, act_code = None, act_metadata = None\<rparr>"
| "result_to_action g (G_Deny r c) =
     \<lparr>act_guard = g, act_action = ''deny'', act_reason = Some r, act_code = c, act_metadata = None\<rparr>"
| "result_to_action g (G_Rewrite s md) =
     \<lparr>act_guard = g, act_action = ''rewrite'', act_reason = None, act_code = None, act_metadata = md\<rparr>"

record GuardContext =
  gx_sql :: string
  gx_original_sql :: "string option"
  gx_dialect :: SqlDialect
  gx_engine_type :: EngineType
  gx_cluster_group :: ClusterGroupName
  gx_user :: "string option"
  gx_groups :: "string list"
  gx_roles :: "string list"
  gx_attributes :: "(string \<times> string) list"
  gx_query_tags :: QueryTags
  gx_session_extra :: "(string \<times> string) list"

section \<open>Built-in guards\<close>

text \<open>The statements a guard sees: the parse of the shared cache, or its own.\<close>

definition guard_statements :: "parser \<Rightarrow> GuardContext \<Rightarrow> Expression list option" where
  "guard_statements p ctx = p (to_polyglot_dialect (gx_dialect ctx)) (gx_sql ctx)"

definition WRITE_DENIED :: GuardResult where
  "WRITE_DENIED = deny ''write operations are not permitted'' ''READ_ONLY_VIOLATION''"

definition read_only_check :: "parser \<Rightarrow> GuardContext \<Rightarrow> GuardResult" where
  "read_only_check p ctx =
     (case guard_statements p ctx of
        Some stmts \<Rightarrow> if list_all is_read_stmt stmts then allow else WRITE_DENIED
      | None \<Rightarrow> if is_read_like_fallback (gx_sql ctx) then allow else WRITE_DENIED)"

text \<open>\<open>str::parse::<u64>\<close>: an optional plus sign, then decimal digits, within range.\<close>

definition parse_u64 :: "string \<Rightarrow> nat option" where
  "parse_u64 s =
     (let ds = (if starts_with ''+'' s then tl s else s);
          n = foldl (\<lambda>acc c. 10 * acc + (of_char c - 48)) (0 :: nat) ds
      in if ds \<noteq> [] \<and> list_all is_digit ds \<and> n < 2 ^ 64 then Some n else None)"

fun literal_to_u64 :: "Expression \<Rightarrow> nat option" where
  "literal_to_u64 (LiteralNumber s) = parse_u64 s"
| "literal_to_u64 _ = None"

fun top_level_limit :: "Expression \<Rightarrow> nat option" where
  "top_level_limit (Select l _ _) = Option.bind l literal_to_u64"
| "top_level_limit (Union _ _ l) = Option.bind l literal_to_u64"
| "top_level_limit (Intersect _ _ l) = Option.bind l literal_to_u64"
| "top_level_limit (Except _ _ l) = Option.bind l literal_to_u64"
| "top_level_limit _ = None"

definition NO_LIMIT :: GuardResult where
  "NO_LIMIT = warn ''query has no LIMIT clause; result set may be large''"

definition limit_exceeded :: "nat \<Rightarrow> nat \<Rightarrow> GuardResult" where
  "limit_exceeded limit_val mx =
     deny (''LIMIT '' @ show_nat limit_val @ '' exceeds maximum allowed '' @ show_nat mx) ''ROW_LIMIT_EXCEEDED''"

fun row_limit_loop :: "nat option \<Rightarrow> Expression list \<Rightarrow> GuardResult" where
  "row_limit_loop mx [] = allow"
| "row_limit_loop mx (s # ss) =
     (if \<not> is_read_stmt s then row_limit_loop mx ss
      else (case top_level_limit s of
              None \<Rightarrow> NO_LIMIT
            | Some l \<Rightarrow>
                (case mx of
                   Some m \<Rightarrow> if l > m then limit_exceeded l m else row_limit_loop mx ss
                 | None \<Rightarrow> row_limit_loop mx ss)))"

definition extract_limit_value_str :: "string \<Rightarrow> nat option" where
  "extract_limit_value_str upper =
     (case find_str '' LIMIT '' upper of
        None \<Rightarrow> None
      | Some (_, after) \<Rightarrow> parse_u64 (takeWhile is_digit (trim_start after)))"

definition row_limit_check :: "parser \<Rightarrow> nat option \<Rightarrow> GuardContext \<Rightarrow> GuardResult" where
  "row_limit_check p mx ctx =
     (case guard_statements p ctx of
        Some stmts \<Rightarrow> row_limit_loop mx stmts
      | None \<Rightarrow>
          let upper = to_uppercase (gx_sql ctx) in
          if \<not> str_contains '' LIMIT '' upper then NO_LIMIT
          else (case mx of
                  Some m \<Rightarrow>
                    (case extract_limit_value_str upper of
                       Some l \<Rightarrow> if l > m then limit_exceeded l m else allow
                     | None \<Rightarrow> allow)
                | None \<Rightarrow> allow))"

fun glob_rest :: "string list \<Rightarrow> string \<Rightarrow> bool" where
  "glob_rest [] h = True"
| "glob_rest (part # parts) h =
     (if part = [] then glob_rest parts h
      else (case find_str part h of None \<Rightarrow> False | Some (_, rest) \<Rightarrow> glob_rest parts rest))"

definition simple_glob_match :: "string \<Rightarrow> string \<Rightarrow> bool" where
  "simple_glob_match haystack pattern =
     (if CHR ''*'' \<notin> set pattern then str_contains pattern haystack
      else (case split_on CHR ''*'' pattern of
              [] \<Rightarrow> True
            | part # parts \<Rightarrow>
                (case strip_prefix part haystack of None \<Rightarrow> False | Some rest \<Rightarrow> glob_rest parts rest)))"

fun from_expr_matches :: "string list \<Rightarrow> Expression \<Rightarrow> bool" where
  "from_expr_matches patterns (TableRef schema name) =
     (let full_name = (case schema of Some s \<Rightarrow> s @ ''.'' @ name | None \<Rightarrow> name)
      in list_ex (\<lambda>p. simple_glob_match (to_uppercase full_name) (to_uppercase p)) patterns)"
| "from_expr_matches patterns (AliasExpr e) = from_expr_matches patterns e"
| "from_expr_matches patterns _ = False"

fun select_lacks_where :: "string list \<Rightarrow> Expression \<Rightarrow> bool" where
  "select_lacks_where patterns (Select _ has_where from) =
     (if has_where then False
      else if patterns = [] then True
      else (case from of Some es \<Rightarrow> list_ex (from_expr_matches patterns) es | None \<Rightarrow> False))"
| "select_lacks_where patterns (Union l r _) = (select_lacks_where patterns l \<or> select_lacks_where patterns r)"
| "select_lacks_where patterns (Intersect l r _) = (select_lacks_where patterns l \<or> select_lacks_where patterns r)"
| "select_lacks_where patterns (Except l r _) = (select_lacks_where patterns l \<or> select_lacks_where patterns r)"
| "select_lacks_where patterns _ = False"

definition table_name_matches_any_str :: "string \<Rightarrow> string list \<Rightarrow> bool" where
  "table_name_matches_any_str upper patterns = list_ex (\<lambda>p. simple_glob_match upper (to_uppercase p)) patterns"

definition MISSING_PREDICATE :: GuardResult where
  "MISSING_PREDICATE = deny ''query must include a WHERE predicate'' ''MISSING_PREDICATE''"

definition require_predicate_check :: "parser \<Rightarrow> string list \<Rightarrow> GuardContext \<Rightarrow> GuardResult" where
  "require_predicate_check p applies_to ctx =
     (case guard_statements p ctx of
        Some stmts \<Rightarrow> if list_ex (select_lacks_where applies_to) stmts then MISSING_PREDICATE else allow
      | None \<Rightarrow>
          let upper = to_uppercase (gx_sql ctx) in
          if \<not> starts_with ''SELECT'' (trim_start upper) then allow
          else if (applies_to = [] \<or> table_name_matches_any_str upper applies_to) \<and> \<not> str_contains '' WHERE '' upper
          then MISSING_PREDICATE
          else allow)"

section \<open>External guards\<close>

definition DEFAULT_TIMEOUT_MS :: nat where "DEFAULT_TIMEOUT_MS = 1000"
definition MAX_TIMEOUT_MS :: nat where "MAX_TIMEOUT_MS = 30000"

definition bounded_timeout :: "nat option \<Rightarrow> nat" where
  "bounded_timeout t = min (case t of Some x \<Rightarrow> x | None \<Rightarrow> DEFAULT_TIMEOUT_MS) MAX_TIMEOUT_MS"

datatype ResponseAction = A_Allow | A_Warn | A_Deny

record GuardResponse =
  gr_action :: ResponseAction
  gr_reason :: "string option"
  gr_code :: "string option"
  gr_metadata :: "metadata option"

definition into_result :: "GuardResponse \<Rightarrow> GuardResult" where
  "into_result r =
     (case gr_action r of
        A_Allow \<Rightarrow> G_Allow (gr_metadata r)
      | A_Warn \<Rightarrow> warn (case gr_reason r of Some x \<Rightarrow> x | None \<Rightarrow> ''guard warning'')
      | A_Deny \<Rightarrow> G_Deny (case gr_reason r of Some x \<Rightarrow> x | None \<Rightarrow> ''query blocked by external guard'') (gr_code r))"

text \<open>
  How a script run ends within its timeout: with an error text, with \<open>None\<close>, or with a parsed
  response; or its task fails; or the time is over. How one webhook request ends: without a
  response, with a status outside 200 to 299 (and its text), or with a body.
\<close>

datatype PyOutcome = PyDone "string + GuardResponse option" | PyTaskFailed string | PyTimedOut

datatype WebhookReply = WH_Error string | WH_Status nat string | WH_Body "string + GuardResponse"

datatype FailBehavior = FB_Deny | FB_Allow

definition python_check :: "PyOutcome \<Rightarrow> nat option \<Rightarrow> GuardResult" where
  "python_check outcome timeout_ms =
     (case outcome of
        PyDone (Inr None) \<Rightarrow> allow
      | PyDone (Inr (Some r)) \<Rightarrow> into_result r
      | PyDone (Inl e) \<Rightarrow> deny (''python guard failed: '' @ e) ''PYTHON_GUARD_ERROR''
      | PyTaskFailed e \<Rightarrow> deny (''python guard task failed: '' @ e) ''PYTHON_GUARD_ERROR''
      | PyTimedOut \<Rightarrow>
          deny (''python guard timed out after '' @ show_nat (bounded_timeout timeout_ms) @ ''ms'') ''PYTHON_GUARD_TIMEOUT'')"

definition fail_result :: "FailBehavior \<Rightarrow> string \<Rightarrow> GuardResult" where
  "fail_result fb reason =
     (case fb of
        FB_Allow \<Rightarrow> G_Allow (Some [(''webhook_failure'', reason)])
      | FB_Deny \<Rightarrow> deny reason ''HTTP_WEBHOOK_GUARD_ERROR'')"

text \<open>The loop over attempts: the verdict, or the last error; with the number of requests sent.\<close>

function webhook_loop :: "(nat \<Rightarrow> WebhookReply) \<Rightarrow> nat \<Rightarrow> nat \<Rightarrow> string \<Rightarrow> (string + GuardResult) \<times> nat" where
  "webhook_loop replies attempts attempt last_error =
     (if attempt \<ge> attempts then (Inl last_error, attempt)
      else
        (case replies attempt of
           WH_Body (Inr verdict) \<Rightarrow> (Inr (into_result verdict), attempt + 1)
         | WH_Body (Inl e) \<Rightarrow> (Inl (''invalid webhook response: '' @ e), attempt + 1)
         | WH_Status status text \<Rightarrow>
             let err = ''webhook returned status '' @ text in
             if \<not> (500 \<le> status \<and> status < 600) \<or> attempt + 1 \<ge> attempts then (Inl err, attempt + 1)
             else webhook_loop replies attempts (attempt + 1) err
         | WH_Error e \<Rightarrow>
             if attempt + 1 \<ge> attempts then (Inl e, attempt + 1)
             else webhook_loop replies attempts (attempt + 1) e))"
  by pat_completeness auto
termination by (relation "measure (\<lambda>(r, attempts, attempt, e). attempts - attempt)") auto

declare webhook_loop.simps [simp del]

definition webhook_attempts :: "nat \<Rightarrow> nat" where
  "webhook_attempts retry_count = min (retry_count + 1) (2 ^ 32 - 1)"

definition webhook_check :: "(nat \<Rightarrow> WebhookReply) \<Rightarrow> nat \<Rightarrow> FailBehavior \<Rightarrow> GuardResult" where
  "webhook_check replies retry_count fb =
     (let attempts = webhook_attempts retry_count in
      case fst (webhook_loop replies attempts 0 []) of
        Inr r \<Rightarrow> r
      | Inl last_error \<Rightarrow>
          fail_result fb (''http webhook guard failed after '' @ show_nat attempts @ '' attempt(s): '' @ last_error))"

section \<open>Guards and chains\<close>

datatype Guard =
    ReadOnlyGuard
  | RowLimitGuard "nat option"
  | RequirePredicateGuard "string list"
  | PythonScriptGuard string "nat option"
  | HttpWebhookGuard string "nat option" nat FailBehavior
  | MisconfiguredGuard string string

record world =
  w_parse :: parser
  w_python :: "string \<Rightarrow> GuardContext \<Rightarrow> PyOutcome"
  w_webhook :: "string \<Rightarrow> GuardContext \<Rightarrow> nat \<Rightarrow> WebhookReply"

fun guard_name :: "Guard \<Rightarrow> string" where
  "guard_name ReadOnlyGuard = ''read_only''"
| "guard_name (RowLimitGuard _) = ''row_limit''"
| "guard_name (RequirePredicateGuard _) = ''require_predicate''"
| "guard_name (PythonScriptGuard _ _) = ''python_script''"
| "guard_name (HttpWebhookGuard _ _ _ _) = ''http_webhook''"
| "guard_name (MisconfiguredGuard n _) = n"

definition guard_layer :: "Guard \<Rightarrow> GuardLayer" where "guard_layer g = L_Plan"

fun guard_check :: "world \<Rightarrow> GuardContext \<Rightarrow> Guard \<Rightarrow> GuardResult" where
  "guard_check w ctx ReadOnlyGuard = read_only_check (w_parse w) ctx"
| "guard_check w ctx (RowLimitGuard mx) = row_limit_check (w_parse w) mx ctx"
| "guard_check w ctx (RequirePredicateGuard ps) = require_predicate_check (w_parse w) ps ctx"
| "guard_check w ctx (PythonScriptGuard script t) = python_check (w_python w script ctx) t"
| "guard_check w ctx (HttpWebhookGuard url t retry fb) = webhook_check (w_webhook w url ctx) retry fb"
| "guard_check w ctx (MisconfiguredGuard n reason) = deny reason ''GUARD_CONFIG_ERROR''"

definition rewrite_unsupported :: "string \<Rightarrow> GuardChainOutcome" where
  "rewrite_unsupported name =
     Blocked (''guard '' @ [CHR 0x22] @ name @ [CHR 0x22] @ '' returned Rewrite, which chained guards do not support'')
       (Some ''GUARD_REWRITE_UNSUPPORTED'')"

fun run_loop :: "('g \<Rightarrow> GuardResult) \<Rightarrow> ('g \<Rightarrow> string) \<Rightarrow> ('g \<Rightarrow> GuardLayer) \<Rightarrow> GuardLayer \<Rightarrow> 'g list \<Rightarrow> GuardAction list
   \<Rightarrow> GuardAction list \<times> GuardChainOutcome" where
  "run_loop chk nm lay layer [] actions = (actions, Proceed)"
| "run_loop chk nm lay layer (g # gs) actions =
     (if lay g \<noteq> layer then run_loop chk nm lay layer gs actions
      else
        (let r = chk g; actions' = actions @ [result_to_action (nm g) r] in
         case r of
           G_Deny reason code \<Rightarrow> (actions', Blocked reason code)
         | G_Rewrite sql md \<Rightarrow> (actions', rewrite_unsupported (nm g))
         | G_Allow md \<Rightarrow> run_loop chk nm lay layer gs actions'
         | G_Warn reason \<Rightarrow> run_loop chk nm lay layer gs actions'))"

definition chain_run :: "world \<Rightarrow> Guard list \<Rightarrow> GuardContext \<Rightarrow> GuardLayer \<Rightarrow> GuardAction list \<times> GuardChainOutcome" where
  "chain_run w guards ctx layer = run_loop (guard_check w ctx) guard_name guard_layer layer guards []"

section \<open>Configuration\<close>

datatype GuardKind =
    K_BuiltIn
  | K_PythonScript "int option" "string option" "nat option"
  | K_HttpWebhook string "nat option" "nat option" "metadata option" "FailBehavior option"

record GuardSpec =
  gs_kind :: GuardKind
  gs_name :: "string option"
  gs_max_rows :: "nat option"
  gs_applies_to :: "string list option"

definition dquote :: "string \<Rightarrow> string" where "dquote s = [CHR 0x22] @ s @ [CHR 0x22]"

text \<open>\<open>url_scheme\<close> is the URL parser: the error text, or the scheme.\<close>

definition spec_validate :: "(string \<Rightarrow> string + string) \<Rightarrow> GuardSpec \<Rightarrow> string + unit" where
  "spec_validate url_scheme spec =
     (case gs_kind spec of
        K_BuiltIn \<Rightarrow>
          (case gs_name spec of
             Some n \<Rightarrow>
               if n \<in> {''read_only'', ''row_limit'', ''require_predicate''} then Inr ()
               else Inl (''unsupported built_in guard name '' @ dquote n)
           | None \<Rightarrow> Inl (''built_in guard is missing required field '' @ dquote ''name''))
      | K_PythonScript script_id script _ \<Rightarrow>
          let has_script = (case script of Some s \<Rightarrow> trim s \<noteq> [] | None \<Rightarrow> False);
              has_id = (script_id \<noteq> None)
          in if has_script \<and> has_id then
               Inl (''python_script guard must set either '' @ dquote ''script'' @ '' or '' @ dquote ''script_id'' @ '', not both'')
             else if \<not> has_script \<and> \<not> has_id then
               Inl (''python_script guard requires either '' @ dquote ''script'' @ '' or '' @ dquote ''script_id'')
             else Inr ()
      | K_HttpWebhook url _ _ _ _ \<Rightarrow>
          let raw = trim url in
          if raw = [] then Inl (''http_webhook guard is missing required field '' @ dquote ''url'')
          else (case url_scheme raw of
                  Inr scheme \<Rightarrow>
                    if scheme \<in> {''http'', ''https''} then Inr ()
                    else Inl (''http_webhook url must use http or https scheme, got '' @ dquote scheme)
                | Inl e \<Rightarrow> Inl (''http_webhook url is not a valid URL: '' @ e)))"

fun specs_validate :: "(string \<Rightarrow> string + string) \<Rightarrow> GuardSpec list \<Rightarrow> string + unit" where
  "specs_validate us [] = Inr ()"
| "specs_validate us (s # ss) = (case spec_validate us s of Inl e \<Rightarrow> Inl e | Inr _ \<Rightarrow> specs_validate us ss)"

record GuardChainConfig =
  gcc_global :: "GuardSpec list"
  gcc_groups :: "(string \<times> GuardSpec list) list"

fun groups_validate :: "(string \<Rightarrow> string + string) \<Rightarrow> (string \<times> GuardSpec list) list \<Rightarrow> string + unit" where
  "groups_validate us [] = Inr ()"
| "groups_validate us ((name, specs) # rest) =
     (case specs_validate us specs of
        Inl e \<Rightarrow> Inl (''group '' @ dquote name @ '': '' @ e)
      | Inr _ \<Rightarrow> groups_validate us rest)"

definition config_validate :: "(string \<Rightarrow> string + string) \<Rightarrow> GuardChainConfig \<Rightarrow> string + unit" where
  "config_validate us cfg =
     (case specs_validate us (gcc_global cfg) of Inl e \<Rightarrow> Inl e | Inr _ \<Rightarrow> groups_validate us (gcc_groups cfg))"

section \<open>Glob patterns\<close>

text \<open>The reference: \<open>*\<close> stands for any text, every other character for itself, and all of the text is matched.\<close>

fun glob :: "string \<Rightarrow> string \<Rightarrow> bool" where
  "glob [] s \<longleftrightarrow> s = []"
| "glob (c # p) [] \<longleftrightarrow> c = CHR ''*'' \<and> glob p []"
| "glob (c # p) (x # xs) \<longleftrightarrow>
     (if c = CHR ''*'' then glob p (x # xs) \<or> glob (c # p) xs else c = x \<and> glob p xs)"

lemma glob_star: "glob (CHR ''*'' # p) s \<longleftrightarrow> (\<exists>a b. s = a @ b \<and> glob p b)"
proof (induction s)
  case (Cons x xs)
  have "(\<exists>a b. x # xs = a @ b \<and> glob p b) \<longleftrightarrow> glob p (x # xs) \<or> (\<exists>a b. xs = a @ b \<and> glob p b)"
    by (metis append_Cons append_Nil list.inject neq_Nil_conv)
  with Cons show ?case by simp
qed simp

lemma glob_literal: "CHR ''*'' \<notin> set q \<Longrightarrow> glob (q @ p) s \<longleftrightarrow> (\<exists>t. s = q @ t \<and> glob p t)"
proof (induction q arbitrary: s)
  case (Cons c q)
  then show ?case by (cases s) auto
qed simp

definition starred :: "string list \<Rightarrow> string" where
  "starred parts = concat (map (\<lambda>q. q @ ''*'') parts)"

lemma starred_split_on: "starred (split_on CHR ''*'' p) = p @ ''*''"
  by (induction p) (auto simp: starred_def split: list.splits)

lemma glob_rest_iff:
  "\<forall>q \<in> set parts. CHR ''*'' \<notin> set q \<Longrightarrow> glob_rest parts h \<longleftrightarrow> glob (CHR ''*'' # starred parts) h"
proof (induction parts arbitrary: h)
  case Nil
  then show ?case by (auto simp: starred_def glob_star)
next
  case (Cons q parts)
  have IH: "glob_rest parts t \<longleftrightarrow> glob (CHR ''*'' # starred parts) t" for t using Cons by simp
  have more: "glob_rest parts t \<Longrightarrow> glob_rest parts (z @ t)" for z t
    unfolding IH glob_star by (metis append.assoc)
  have "glob (CHR ''*'' # starred (q # parts)) h \<longleftrightarrow> (\<exists>a t. h = a @ q @ t \<and> glob_rest parts t)"
  proof -
    have "starred (q # parts) = q @ CHR ''*'' # starred parts" by (simp add: starred_def)
    moreover have "glob (q @ CHR ''*'' # starred parts) b \<longleftrightarrow> (\<exists>t. b = q @ t \<and> glob_rest parts t)" for b
      using Cons.prems by (simp add: glob_literal IH)
    ultimately show ?thesis unfolding glob_star [of "starred (q # parts)"] by auto
  qed
  also have "\<dots> \<longleftrightarrow> glob_rest (q # parts) h"
  proof (cases "q = []")
    case True
    then show ?thesis using more by (auto intro: exI [of _ "[]"])
  next
    case False
    show ?thesis
    proof
      assume "\<exists>a t. h = a @ q @ t \<and> glob_rest parts t"
      then obtain a t where t: "h = a @ q @ t" "glob_rest parts t" by blast
      then obtain a' b z where "find_str q h = Some (a', b)" "b = z @ t" using find_str_first by blast
      then show "glob_rest (q # parts) h" using more [OF t(2)] False by simp
    next
      assume "glob_rest (q # parts) h"
      then show "\<exists>a t. h = a @ q @ t \<and> glob_rest parts t"
        using False find_str_Some [of q h] by (auto split: option.splits)
    qed
  qed
  finally show ?case by blast
qed

text \<open>
  What a table pattern means: a pattern with a \<open>*\<close> matches as a glob whose end is open,
  so \<open>*_log\<close> also matches \<open>my_log_archive\<close>; without one it matches any text that
  contains it. The leftmost search of the code loses no match.
\<close>

theorem simple_glob_match_iff:
  "simple_glob_match h p \<longleftrightarrow>
     (if CHR ''*'' \<in> set p then glob (p @ ''*'') h else glob (''*'' @ p @ ''*'') h)"
proof (cases "CHR ''*'' \<in> set p")
  case True
  obtain q parts where s: "split_on CHR ''*'' p = q # parts" by (cases "split_on CHR ''*'' p") auto
  have free: "CHR ''*'' \<notin> set r" if "r \<in> set (q # parts)" for r
    using split_on_pieces [of r "CHR ''*''" p] that s by simp
  have "p @ ''*'' = q @ CHR ''*'' # starred parts" using starred_split_on [of p] s by (simp add: starred_def)
  then have "glob (p @ ''*'') h \<longleftrightarrow> (\<exists>t. h = q @ t \<and> glob_rest parts t)"
    using glob_literal [of q] glob_rest_iff [of parts] free by simp
  also have "\<dots> \<longleftrightarrow> simple_glob_match h p"
    using True s strip_prefix_Some [of q h] strip_prefix_None [of q h]
    by (auto simp: simple_glob_match_def split: option.splits)
  finally show ?thesis using True by simp
next
  case False
  have "glob (CHR ''*'' # p @ ''*'') h \<longleftrightarrow> (\<exists>a b. h = a @ p @ b)"
    using False by (auto simp: glob_star glob_literal)
  then show ?thesis using False by (simp add: simple_glob_match_def str_contains_iff)
qed

text \<open>A pattern meant for one table applies to others that continue its name.\<close>

lemma glob_end_open: "simple_glob_match ''S.MY_LOG_ARCHIVE'' ''*_LOG'' \<and> \<not> glob ''*_LOG'' ''S.MY_LOG_ARCHIVE''"
  by code_simp

section \<open>The chain\<close>

fun blocks :: "GuardResult \<Rightarrow> bool" where
  "blocks (G_Deny _ _) = True"
| "blocks (G_Rewrite _ _) = True"
| "blocks (G_Allow _) = False"
| "blocks (G_Warn _) = False"

fun outcome_of :: "string \<Rightarrow> GuardResult \<Rightarrow> GuardChainOutcome" where
  "outcome_of nm (G_Deny reason code) = Blocked reason code"
| "outcome_of nm (G_Rewrite _ _) = rewrite_unsupported nm"
| "outcome_of nm _ = Proceed"

lemma run_loop_pass:
  "\<forall>g \<in> set gs. lay g = layer \<longrightarrow> \<not> blocks (chk g) \<Longrightarrow>
   run_loop chk nm lay layer (gs @ hs) actions =
   run_loop chk nm lay layer hs
     (actions @ map (\<lambda>g. result_to_action (nm g) (chk g)) (filter (\<lambda>g. lay g = layer) gs))"
proof (induction gs arbitrary: actions)
  case (Cons g gs)
  then show ?case by (cases "chk g") auto
qed simp

lemma run_loop_block:
  "lay g = layer \<Longrightarrow> blocks (chk g) \<Longrightarrow>
   run_loop chk nm lay layer (g # gs) actions =
   (actions @ [result_to_action (nm g) (chk g)], outcome_of (nm g) (chk g))"
  by (cases "chk g") auto

lemma blocks_iff_outcome: "blocks r \<longleftrightarrow> outcome_of nm r \<noteq> Proceed"
  by (cases r) (simp_all add: rewrite_unsupported_def)

text \<open>
  The chain stops at the first guard of its layer that denies (or returns a rewrite,
  which it cannot carry) and reports that guard's reason; the audit trail records, in order,
  exactly the guards of the layer that ran, with the blocking one last.
\<close>

theorem guard_chain_first_block:
  "chain_run w guards ctx L_Plan =
     (let passed = takeWhile (\<lambda>g. \<not> blocks (guard_check w ctx g)) guards in
      if length passed = length guards
      then (map (\<lambda>g. result_to_action (guard_name g) (guard_check w ctx g)) guards, Proceed)
      else let g = guards ! length passed in
           (map (\<lambda>g. result_to_action (guard_name g) (guard_check w ctx g)) (passed @ [g]),
            outcome_of (guard_name g) (guard_check w ctx g)))"
proof (cases "\<exists>g \<in> set guards. blocks (guard_check w ctx g)")
  case False
  then have all: "takeWhile (\<lambda>g. \<not> blocks (guard_check w ctx g)) guards = guards" by (simp add: takeWhile_eq_all_conv)
  show ?thesis
    unfolding Let_def all
    using False run_loop_pass [of guards guard_layer L_Plan "guard_check w ctx" guard_name "[]" "[]"]
    by (simp add: chain_run_def guard_layer_def)
next
  case True
  then obtain pre g post where split: "guards = pre @ g # post" "blocks (guard_check w ctx g)"
    "\<forall>h \<in> set pre. \<not> blocks (guard_check w ctx h)"
    using split_list_first_prop [of guards "\<lambda>g. blocks (guard_check w ctx g)"] by auto
  then have "takeWhile (\<lambda>g. \<not> blocks (guard_check w ctx g)) guards = pre" by simp
  then show ?thesis
    using split run_loop_pass [of pre guard_layer L_Plan "guard_check w ctx" guard_name "g # post" "[]"]
      run_loop_block [of guard_layer g L_Plan "guard_check w ctx" guard_name post]
    by (simp add: chain_run_def guard_layer_def Let_def)
qed

lemma chain_run_blocked:
  assumes "g \<in> set guards" "blocks (guard_check w ctx g)"
  shows "snd (chain_run w guards ctx L_Plan) \<noteq> Proceed"
proof -
  obtain pre g post where split: "guards = pre @ g # post" "blocks (guard_check w ctx g)"
    "\<forall>h \<in> set pre. \<not> blocks (guard_check w ctx h)"
    using assms split_list_first_prop [of guards "\<lambda>g. blocks (guard_check w ctx g)"] by auto
  then show ?thesis
    using run_loop_pass [of pre guard_layer L_Plan "guard_check w ctx" guard_name "g # post" "[]"]
      run_loop_block [of guard_layer g L_Plan "guard_check w ctx" guard_name post]
      blocks_iff_outcome [of "guard_check w ctx g" "guard_name g"]
    by (simp add: chain_run_def guard_layer_def)
qed

text \<open>
  Claim C29. A guard cannot be argued away: whatever other guards (scripts and webhooks included)
  stand in the chain and in which order, a query that passes a chain was stopped by no misconfigured guard, and,
  when the chain has a read-only guard, every statement it parses to is a query (a \<open>SELECT\<close>, a set
  operation of queries or a parenthesised one), a \<open>DESCRIBE\<close>, a \<open>SHOW\<close> or a statement the parser keeps as an opaque
  command. A text that does not parse passes only if, after leading comments, it starts with one of the
  reading words.
\<close>
theorem read_only_enforced:
  assumes "snd (chain_run w guards ctx L_Plan) = Proceed"
  shows "(\<forall>n reason. MisconfiguredGuard n reason \<notin> set guards)
    \<and> (ReadOnlyGuard \<in> set guards \<longrightarrow>
         (case w_parse w (to_polyglot_dialect (gx_dialect ctx)) (gx_sql ctx) of
            Some stmts \<Rightarrow> \<forall>s \<in> set stmts. (\<exists>l f t. s = Select l f t) \<or> (\<exists>a b l. s \<in> {Union a b l, Intersect a b l, Except a b l})
              \<or> s \<in> {Subquery, Describe, Show, Command}
          | None \<Rightarrow> \<exists>kw \<in> {''SELECT'', ''WITH'', ''SHOW'', ''DESCRIBE'', ''EXPLAIN'', ''DESC '', ''DESC'' @ [CHR 0x09]}.
              starts_with kw (to_uppercase (strip_leading_sql_comments (gx_sql ctx)))))"
proof -
  have pass: "\<not> blocks (guard_check w ctx g)" if "g \<in> set guards" for g
    using chain_run_blocked [OF that] assms by blast
  have "MisconfiguredGuard n reason \<notin> set guards" for n reason
    using pass [of "MisconfiguredGuard n reason"] by (auto simp: deny_def)
  moreover have "case w_parse w (to_polyglot_dialect (gx_dialect ctx)) (gx_sql ctx) of
      Some stmts \<Rightarrow> list_all is_read_stmt stmts | None \<Rightarrow> is_read_like_fallback (gx_sql ctx)" if "ReadOnlyGuard \<in> set guards"
    using pass [OF that] by (auto simp: read_only_check_def guard_statements_def WRITE_DENIED_def deny_def split: option.splits if_splits)
  moreover have "\<forall>s \<in> set stmts. (\<exists>l f t. s = Select l f t) \<or> (\<exists>a b l. s \<in> {Union a b l, Intersect a b l, Except a b l})
      \<or> s \<in> {Subquery, Describe, Show, Command}" if "list_all is_read_stmt stmts" for stmts
  proof
    fix s assume "s \<in> set stmts"
    then have "is_read_stmt s" using that by (simp add: list_all_iff)
    then show "(\<exists>l f t. s = Select l f t) \<or> (\<exists>a b l. s \<in> {Union a b l, Intersect a b l, Except a b l}) \<or> s \<in> {Subquery, Describe, Show, Command}"
      by (cases s) auto
  qed
  moreover have "\<exists>kw \<in> {''SELECT'', ''WITH'', ''SHOW'', ''DESCRIBE'', ''EXPLAIN'', ''DESC '', ''DESC'' @ [CHR 0x09]}.
      starts_with kw (to_uppercase (strip_leading_sql_comments sql))" if "is_read_like_fallback sql" for sql
    using that unfolding is_read_like_fallback_def Let_def by simp
  ultimately show ?thesis by (cases "w_parse w (to_polyglot_dialect (gx_dialect ctx)) (gx_sql ctx)") (simp_all only: option.case, blast+)
qed
definition guard_demo :: world where
  "guard_demo = \<lparr>w_parse = (\<lambda>_ _. Some [OtherExpr]), w_python = (\<lambda>_ _. PyDone (Inr None)),
     w_webhook = (\<lambda>_ _ _. WH_Error ''down'')\<rparr>"

definition guard_ctx :: GuardContext where
  "guard_ctx = \<lparr>gx_sql = ''DROP TABLE t'', gx_original_sql = None, gx_dialect = D_Trino, gx_engine_type = E_Trino,
     gx_cluster_group = ''g'', gx_user = None, gx_groups = [], gx_roles = [], gx_attributes = [],
     gx_query_tags = [], gx_session_extra = []\<rparr>"

theorem read_only_enforced_witness:
  "snd (chain_run (guard_demo\<lparr>w_parse := \<lambda>_ _. Some [Show]\<rparr>) [PythonScriptGuard ''pass'' None, ReadOnlyGuard] guard_ctx L_Plan) = Proceed
   \<and> snd (chain_run (guard_demo\<lparr>w_parse := \<lambda>_ _. Some [Show, X_Delete]\<rparr>) [PythonScriptGuard ''pass'' None, ReadOnlyGuard] guard_ctx L_Plan) \<noteq> Proceed
   \<and> snd (chain_run (guard_demo\<lparr>w_parse := \<lambda>_ _. None\<rparr>) [ReadOnlyGuard, RowLimitGuard None] guard_ctx L_Plan) \<noteq> Proceed"
proof -
  have "snd (chain_run (guard_demo\<lparr>w_parse := \<lambda>_ _. Some [Show]\<rparr>) [PythonScriptGuard ''pass'' None, ReadOnlyGuard] guard_ctx L_Plan) = Proceed"
    by code_simp
  moreover have "strip_leading_sql_comments ''DROP TABLE t'' = ''DROP TABLE t''" "to_uppercase ''DROP TABLE t'' = ''DROP TABLE T''" by code_simp+
  then have "snd (chain_run (guard_demo\<lparr>w_parse := \<lambda>_ _. None\<rparr>) [ReadOnlyGuard, RowLimitGuard None] guard_ctx L_Plan) \<noteq> Proceed"
    using read_only_enforced [of "guard_demo\<lparr>w_parse := \<lambda>_ _. None\<rparr>" "[ReadOnlyGuard, RowLimitGuard None]" guard_ctx] by (auto simp: guard_ctx_def)
  ultimately show ?thesis
    using read_only_enforced [of "guard_demo\<lparr>w_parse := \<lambda>_ _. Some [Show, X_Delete]\<rparr>" "[PythonScriptGuard ''pass'' None, ReadOnlyGuard]" guard_ctx] by auto
qed
section \<open>Row limits\<close>

text \<open>
  The row limit stops at the first readable statement without a literal limit: a later statement
  over the maximum is only warned about, and so is a limit too large for 64 bits.
\<close>

lemma row_limit_bypass:
  "row_limit_loop (Some 100) [Select None True None, Select (Some (LiteralNumber ''1000'')) True None] = NO_LIMIT
   \<and> row_limit_loop (Some 100) [Select (Some (LiteralNumber ''99999999999999999999'')) True None] = NO_LIMIT"
  by (simp add: parse_u64_def is_digit_def)

text \<open>A single statement with a literal limit is denied exactly above the maximum.\<close>

lemma row_limit_single:
  "is_read_stmt s \<Longrightarrow> top_level_limit s = Some l \<Longrightarrow>
   row_limit_loop (Some m) [s] = (if l \<le> m then allow else limit_exceeded l m)"
  by simp

section \<open>Webhooks\<close>

lemma webhook_loop_bounds: "attempt \<le> attempts \<Longrightarrow> snd (webhook_loop replies attempts attempt e) \<le> attempts"
proof (induction replies attempts attempt e rule: webhook_loop.induct)
  case (1 replies attempts attempt e)
  then show ?case
    by (subst webhook_loop.simps)
      (auto simp: Let_def split: WebhookReply.splits sum.splits)
qed

text \<open>The request \<open>k\<close> is final: a verdict, a broken body, or a status that a retry cannot help.\<close>

fun retriable :: "WebhookReply \<Rightarrow> bool" where
  "retriable (WH_Error _) = True"
| "retriable (WH_Status status _) = (500 \<le> status \<and> status < 600)"
| "retriable (WH_Body _) = False"

lemma first_settled: "\<exists>m \<le> N. (\<forall>j < m. P j) \<and> (m < N \<longrightarrow> \<not> P m)" for N :: nat
proof (induction N)
  case (Suc N)
  then obtain m where "m \<le> N" "\<forall>j < m. P j" "m < N \<longrightarrow> \<not> P m" by blast
  then have "m \<le> Suc N \<and> (\<forall>j < m. P j) \<and> (m < Suc N \<longrightarrow> \<not> P m) \<or> (\<forall>j < Suc N. P j)" by (auto simp: less_Suc_eq)
  then show ?case by blast
qed simp

lemma webhook_loop_exact:
  assumes "\<forall>j. i \<le> j \<and> j < m \<longrightarrow> retriable (replies j)" "m < attempts \<longrightarrow> \<not> retriable (replies m)"
    and "i \<le> m" "m \<le> attempts" "i < attempts"
  shows "snd (webhook_loop replies attempts i e) = min (m + 1) attempts
    \<and> (case fst (webhook_loop replies attempts i e) of
         Inr r \<Rightarrow> m < attempts \<and> (\<exists>v. replies m = WH_Body (Inr v) \<and> r = into_result v)
       | Inl _ \<Rightarrow> m < attempts \<longrightarrow> (\<forall>v. replies m \<noteq> WH_Body (Inr v)))"
  using assms
proof (induction replies attempts i e rule: webhook_loop.induct)
  case (1 replies attempts i e)
  show ?case
  proof (cases "i = m")
    case True
    then have "\<not> retriable (replies i)" using 1(4,7) by simp
    then show ?thesis
      using True 1(7) by (subst (1 2) webhook_loop.simps) (cases "replies i"; auto simp: Let_def split: sum.splits)
  next
    case False
    then have r: "i < m" "retriable (replies i)" using 1(3,5) by auto
    show ?thesis
    proof (cases "i + 1 < attempts")
      case True
      then show ?thesis
        using 1 r by (subst (1 2) webhook_loop.simps) (cases "replies i"; auto simp: Let_def)
    next
      case False
      then have "m = attempts" "attempts = i + 1" using r 1(6,7) by auto
      then show ?thesis
        using r by (subst (1 2) webhook_loop.simps) (cases "replies i"; auto simp: Let_def)
    qed
  qed
qed

lemma into_result_cases:
  "into_result v =
     (case gr_action v of
        A_Allow \<Rightarrow> G_Allow (gr_metadata v)
      | A_Warn \<Rightarrow> G_Warn (case gr_reason v of Some x \<Rightarrow> x | None \<Rightarrow> ''guard warning'')
      | A_Deny \<Rightarrow> G_Deny (case gr_reason v of Some x \<Rightarrow> x | None \<Rightarrow> ''query blocked by external guard'') (gr_code v))"
  by (cases "gr_action v") (simp_all add: into_result_def warn_def)

text \<open>
  Claim C33. A webhook guard always decides, and decides by the first reply that is not transient (no response, or a
  status of the 500s). Of at most \<open>retry_count\<close> + 1 requests it sends exactly those up to that
  reply, so a refusal of the 400s or a broken body is not asked again; when that reply is a verdict, its action, reason and
  code are the result; and in every other case the guard denies the query with its own code, or, when it
  is configured to allow on failure, allows it and says so in the metadata.
\<close>
theorem webhook_decides:
  "\<exists>m \<le> min (n + 1) (2 ^ 32 - 1).
     (\<forall>j < m. retriable (replies j)) \<and> (m < min (n + 1) (2 ^ 32 - 1) \<longrightarrow> \<not> retriable (replies m))
     \<and> snd (webhook_loop replies (webhook_attempts n) 0 []) = min (m + 1) (min (n + 1) (2 ^ 32 - 1))
     \<and> (if m < min (n + 1) (2 ^ 32 - 1) \<and> (\<exists>v. replies m = WH_Body (Inr v))
        then \<exists>v. replies m = WH_Body (Inr v)
          \<and> webhook_check replies n fb =
              (case gr_action v of
                 A_Allow \<Rightarrow> G_Allow (gr_metadata v)
               | A_Warn \<Rightarrow> G_Warn (case gr_reason v of Some x \<Rightarrow> x | None \<Rightarrow> ''guard warning'')
               | A_Deny \<Rightarrow> G_Deny (case gr_reason v of Some x \<Rightarrow> x | None \<Rightarrow> ''query blocked by external guard'') (gr_code v))
        else case fb of
            FB_Deny \<Rightarrow> \<exists>reason. webhook_check replies n fb = G_Deny reason (Some ''HTTP_WEBHOOK_GUARD_ERROR'')
          | FB_Allow \<Rightarrow> \<exists>reason. webhook_check replies n fb = G_Allow (Some [(''webhook_failure'', reason)]))"
proof -
  let ?N = "webhook_attempts n"
  have N: "?N = min (n + 1) (2 ^ 32 - 1)" "0 < ?N" by (simp_all add: webhook_attempts_def)
  obtain m where m: "m \<le> ?N" "\<forall>j < m. retriable (replies j)" "m < ?N \<longrightarrow> \<not> retriable (replies m)"
    using first_settled [of ?N "\<lambda>j. retriable (replies j)"] by blast
  have E: "snd (webhook_loop replies ?N 0 []) = min (m + 1) ?N
    \<and> (case fst (webhook_loop replies ?N 0 []) of
         Inr r \<Rightarrow> m < ?N \<and> (\<exists>v. replies m = WH_Body (Inr v) \<and> r = into_result v)
       | Inl _ \<Rightarrow> m < ?N \<longrightarrow> (\<forall>v. replies m \<noteq> WH_Body (Inr v)))"
    using webhook_loop_exact [of 0 m replies ?N] m N(2) by simp
  have "if m < ?N \<and> (\<exists>v. replies m = WH_Body (Inr v))
      then \<exists>v. replies m = WH_Body (Inr v) \<and> webhook_check replies n fb = into_result v
      else \<exists>reason. webhook_check replies n fb = fail_result fb reason"
    using E by (cases "fst (webhook_loop replies ?N 0 [])") (auto simp: webhook_check_def Let_def)
  then show ?thesis
    using m E unfolding N(1) [symmetric]
    by (intro exI [of _ m]) (auto simp: into_result_cases fail_result_def deny_def split: if_splits FailBehavior.splits)
qed
definition busy_then_allow :: "nat \<Rightarrow> WebhookReply" where
  "busy_then_allow k =
     (if k = 0 then WH_Status 503 ''busy''
      else WH_Body (Inr \<lparr>gr_action = A_Allow, gr_reason = None, gr_code = None, gr_metadata = None\<rparr>))"

theorem webhook_decides_witness:
  "webhook_check busy_then_allow 1 FB_Deny = allow \<and> snd (webhook_loop busy_then_allow (webhook_attempts 1) 0 []) = 2"
proof -
  have two: "min (1 + 1) (2 ^ 32 - 1) = (2 :: nat)" by simp
  obtain m where m: "m \<le> 2" "\<forall>j < m. retriable (busy_then_allow j)" "m < 2 \<longrightarrow> \<not> retriable (busy_then_allow m)"
    and s: "snd (webhook_loop busy_then_allow (webhook_attempts 1) 0 []) = min (m + 1) 2"
    and v: "if m < 2 \<and> (\<exists>v. busy_then_allow m = WH_Body (Inr v))
        then \<exists>v. busy_then_allow m = WH_Body (Inr v)
          \<and> webhook_check busy_then_allow 1 FB_Deny =
              (case gr_action v of
                 A_Allow \<Rightarrow> G_Allow (gr_metadata v)
               | A_Warn \<Rightarrow> G_Warn (case gr_reason v of Some x \<Rightarrow> x | None \<Rightarrow> ''guard warning'')
               | A_Deny \<Rightarrow> G_Deny (case gr_reason v of Some x \<Rightarrow> x | None \<Rightarrow> ''query blocked by external guard'') (gr_code v))
        else \<exists>reason. webhook_check busy_then_allow 1 FB_Deny = G_Deny reason (Some ''HTTP_WEBHOOK_GUARD_ERROR'')"
    using webhook_decides [of 1 busy_then_allow FB_Deny, unfolded two FailBehavior.case] by blast
  have "m = 1" using m by (cases m) (auto simp: busy_then_allow_def less_Suc_eq_0_disj split: if_splits)
  then show ?thesis using s v by (auto simp: busy_then_allow_def allow_def)
qed
end
