(* ===== verification/Access_Guard.thy ===== *)
theory Access_Guard
  imports Access_Controller Guardrails
begin

text \<open>
  The data-level access guard, \<open>crates/queryflux-frontend/src/access_control_guard.rs\<close>, with the part
  of \<open>crates/queryflux-core/src/access_config.rs\<close> that resolves a group to a connection and the mask
  rendering of \<open>crates/queryflux-sql/src/access.rs\<close>. It runs on the client's SQL before translation:
  the query is refused, passed, or rewritten with the row filters and column masks of the policy.
  What sqlglot extracts from a statement and how it splices filters into it are arguments, as is
  everything an evaluation by the access controller may find: the cache at that moment, the clock and
  the answer of the policy engine.
\<close>

section \<open>Which connection judges a group\<close>

datatype OnMissingSchema = OMS_Evaluate | OMS_Deny

record GroupOverride =
  go_enabled :: "bool option"
  go_fail_open :: "bool option"
  go_connection :: "string option"

record ConnectionRuntime =
  cr_controller :: AccessController
  cr_session_param_keys :: "string list"
  cr_on_missing_schema :: OnMissingSchema

text \<open>The guard keeps the connections and, of the configuration, what resolves a group.\<close>

record OpaAccessGuard =
  og_connections :: "(string \<times> ConnectionRuntime) list"
  og_enabled :: bool
  og_default_connection :: "string option"
  og_groups :: "(string \<times> GroupOverride) list"

definition enabled_for_group :: "OpaAccessGuard \<Rightarrow> string \<Rightarrow> bool" where
  "enabled_for_group g grp =
     (case Option.bind (map_of (og_groups g) grp) go_enabled of Some b \<Rightarrow> b | None \<Rightarrow> og_enabled g)"

definition connection_name_for_group :: "OpaAccessGuard \<Rightarrow> string \<Rightarrow> string option" where
  "connection_name_for_group g grp =
     or_else (Option.bind (map_of (og_groups g) grp) go_connection) (og_default_connection g)"

definition connection_for_group :: "OpaAccessGuard \<Rightarrow> string \<Rightarrow> ConnectionRuntime option" where
  "connection_for_group g grp = Option.bind (connection_name_for_group g grp) (map_of (og_connections g))"

definition evaluates_anything :: "AccessController \<Rightarrow> bool" where
  "evaluates_anything c = list_ex (evaluates c) SUPPORTED"

definition applies_to_group :: "OpaAccessGuard \<Rightarrow> string \<Rightarrow> bool" where
  "applies_to_group g grp \<longleftrightarrow>
     enabled_for_group g grp
     \<and> (case connection_for_group g grp of Some c \<Rightarrow> evaluates_anything (cr_controller c) | None \<Rightarrow> False)"

definition TRINO_PREPARED_STATEMENT_HEADER :: string where
  "TRINO_PREPARED_STATEMENT_HEADER = ''x-trino-prepared-statement''"

definition drop_unchecked_session_sql :: "SessionContext \<Rightarrow> SessionContext" where
  "drop_unchecked_session_sql s =
     s\<lparr>sess_extra := filter (\<lambda>(k, _). \<not> eq_ignore_ascii_case k TRINO_PREPARED_STATEMENT_HEADER) (sess_extra s)\<rparr>"

section \<open>What kind of statement it is\<close>

definition STATEMENT_STARTERS :: "string list" where
  "STATEMENT_STARTERS =
     [''select'', ''with'', ''insert'', ''update'', ''delete'', ''merge'', ''create'', ''values'', ''table'',
      ''copy'', ''call'']"

definition EXPLAIN_MODIFIERS :: "string list" where
  "EXPLAIN_MODIFIERS =
     [''analyze'', ''analyse'', ''verbose'', ''plan'', ''for'', ''ast'', ''syntax'', ''pipeline'', ''estimate'',
      ''extended'', ''formatted'', ''logical'', ''distributed'', ''io'', ''validate'', ''local'']"

definition BEGIN_TRANSACTION_WORDS :: "string list" where
  "BEGIN_TRANSACTION_WORDS =
     [''transaction'', ''work'', ''tran'', ''isolation'', ''read'', ''deferrable'', ''not'', ''name'', ''deferred'',
      ''immediate'', ''exclusive'', ''distributed'']"

definition word_at :: "string \<Rightarrow> string" where
  "word_at s = takeWhile (\<lambda>c. is_ascii_alphanumeric c \<or> c = CHR ''_'') s"

text \<open>
  A byte offset into the SQL is kept as the two texts it separates. The loop carries the text from
  \<open>pos\<close> on.
\<close>

datatype ExplainSplit = NotExplain | Inner string string | Unrecognized

lemma explain_step_shorter:
  "strip_leading_sql_comments s = rest \<Longrightarrow> rest \<noteq> [] \<Longrightarrow> n \<noteq> 0 \<Longrightarrow> length (drop n rest) < length s"
  using length_strip_leading_sql_comments [of s] by (cases rest) auto

lemma modifier_nonempty: "w \<in> set EXPLAIN_MODIFIERS \<Longrightarrow> w \<noteq> []"
  by (auto simp: EXPLAIN_MODIFIERS_def)

lemma length_after_paren:
  "find_str '')'' (strip_leading_sql_comments s) = Some (a, b) \<Longrightarrow> length b < length s"
  using length_strip_leading_sql_comments [of s] by (auto dest!: find_str_Some)

function explain_loop :: "string \<Rightarrow> string option" where
  "explain_loop from_pos =
     (let rest = strip_leading_sql_comments from_pos in
      case strip_prefix ''('' rest of
        Some inside \<Rightarrow>
          if to_ascii_lowercase (word_at (trim_start inside)) \<in> set STATEMENT_STARTERS then Some rest
          else (case find_str '')'' rest of Some (_, after) \<Rightarrow> explain_loop after | None \<Rightarrow> None)
      | None \<Rightarrow>
          let word = to_ascii_lowercase (word_at rest) in
          if word \<in> set STATEMENT_STARTERS then Some rest
          else if word \<in> set EXPLAIN_MODIFIERS then explain_loop (drop (length word) rest)
          else None)"
  by pat_completeness auto
termination
proof (relation "measure length", goal_cases)
  case (2 s rest word)
  then have "word \<noteq> []" using modifier_nonempty by blast
  moreover from this have "rest \<noteq> []" using 2 by (auto simp: word_at_def to_ascii_lowercase_def)
  ultimately show ?case using 2(1) explain_step_shorter [of s rest "length word"] by simp
next
  case 3
  then show ?case using length_after_paren by (auto split: option.splits)
qed simp

declare explain_loop.simps [simp del]

definition explain_split :: "string \<Rightarrow> ExplainSplit" where
  "explain_split sql =
     (let first = strip_leading_sql_comments sql; head = word_at first in
      if \<not> eq_ignore_ascii_case head ''explain'' then NotExplain
      else (case explain_loop (drop (length head) first) of
              Some inner \<Rightarrow> Inner (take (length sql - length inner) sql) inner
            | None \<Rightarrow> Unrecognized))"

definition runs_sql_it_does_not_show :: "string \<Rightarrow> AccessController \<Rightarrow> string option" where
  "runs_sql_it_does_not_show sql c =
     (let s = strip_leading_sql_comments sql; head = to_ascii_lowercase (word_at s) in
      if head = ''execute'' \<or> head = ''exec'' then Some ''EXECUTE''
      else if head = ''prepare'' then Some ''PREPARE''
      else if head = ''do'' then Some ''DO''
      else if head = ''declare'' then Some ''procedural block''
      else if head = ''begin'' then
        (let rest = strip_leading_sql_comments (drop (length head) s);
             next = to_ascii_lowercase (word_at rest);
             rest_is_empty = (strip_leading_sql_comments (dropWhile (\<lambda>c. c = CHR '';'') rest) = [])
         in if \<not> rest_is_empty \<and> next \<notin> set BEGIN_TRANSACTION_WORDS then Some ''procedural block'' else None)
      else if head = ''call'' \<and> \<not> evaluates c ''procedure.call'' then Some ''CALL''
      else None)"

fun classify_statement :: "Expression \<Rightarrow> Operation" where
  "classify_statement (Select _ _ _) = table_select"
| "classify_statement (Union _ _ _) = table_select"
| "classify_statement (Intersect _ _ _) = table_select"
| "classify_statement (Except _ _ _) = table_select"
| "classify_statement Subquery = table_select"
| "classify_statement X_Insert = ''table.insert''"
| "classify_statement X_Update = ''table.update''"
| "classify_statement X_Delete = ''table.delete''"
| "classify_statement X_Merge = ''table.merge''"
| "classify_statement X_CreateTable = ''table.create''"
| "classify_statement X_DropTable = ''table.drop''"
| "classify_statement X_AlterTable = ''table.alter''"
| "classify_statement X_CreateView = ''view.create''"
| "classify_statement X_DropView = ''view.drop''"
| "classify_statement X_AlterView = ''view.alter''"
| "classify_statement X_CreateSchema = ''schema.create''"
| "classify_statement X_DropSchema = ''schema.drop''"
| "classify_statement X_DropNamespace = ''schema.drop''"
| "classify_statement X_CreateDatabase = ''catalog.create''"
| "classify_statement X_DropDatabase = ''catalog.drop''"
| "classify_statement X_Truncate = ''table.truncate''"
| "classify_statement X_TruncateTable = ''table.truncate''"
| "classify_statement _ = ''statement.other''"

definition classify_operation :: "Expression list option \<Rightarrow> string \<Rightarrow> Operation" where
  "classify_operation stmts sql =
     (case stmts of
        Some (s # _) \<Rightarrow> classify_statement s
      | _ \<Rightarrow> if is_read_like_fallback sql then table_select else ''statement.other'')"

definition write_operations :: "Operation \<Rightarrow> bool \<Rightarrow> Operation list" where
  "write_operations op replaces =
     (if is_read op then []
      else op # (if replaces then (case drop_counterpart op of Some d \<Rightarrow> [d] | None \<Rightarrow> []) else []))"

fun engine_name :: "EngineType \<Rightarrow> string" where
  "engine_name E_Trino = ''trino''"
| "engine_name E_DuckDb = ''duckdb''"
| "engine_name E_DuckDbHttp = ''duckdbhttp''"
| "engine_name E_StarRocks = ''starrocks''"
| "engine_name E_ClickHouse = ''clickhouse''"
| "engine_name E_Athena = ''athena''"
| "engine_name E_Adbc = ''adbc''"
| "engine_name E_Postgres = ''postgres''"
| "engine_name E_MySql = ''mysql''"
| "engine_name E_Sqlite = ''sqlite''"
| "engine_name E_Snowflake = ''snowflake''"
| "engine_name E_BigQuery = ''bigquery''"
| "engine_name E_Databricks = ''databricks''"
| "engine_name E_MsSql = ''mssql''"
| "engine_name E_Redshift = ''redshift''"
| "engine_name E_Exasol = ''exasol''"
| "engine_name E_SingleStore = ''singlestore''"
| "engine_name E_Undispatched = ''undispatched''"
| "engine_name E_Cache = ''cache''"

section \<open>Masks\<close>

datatype MaskRenderError = MissingCustomExpression string | MissingConstantValue string

fun show_mask_error :: "MaskRenderError \<Rightarrow> string" where
  "show_mask_error (MissingCustomExpression c) = ''CUSTOM mask for column '' @ debug_str c @ '' has no expression''"
| "show_mask_error (MissingConstantValue c) = ''CONSTANT mask for column '' @ debug_str c @ '' has no value''"

definition squote :: "string \<Rightarrow> string" where
  "squote s = [CHR 0x27] @ s @ [CHR 0x27]"

definition render_mask :: "ColumnMask \<Rightarrow> string \<Rightarrow> SqlDialect \<Rightarrow> MaskRenderError + string" where
  "render_mask cm c src =
     (case cm_mask_type cm of
        M_Null \<Rightarrow> Inr ''NULL''
      | M_Constant \<Rightarrow>
          (case cm_value cm of
             None \<Rightarrow> Inl (MissingConstantValue (cm_column cm))
           | Some v \<Rightarrow> Inr (squote (replace_char (CHR 0x27) [CHR 0x27, CHR 0x27] v)))
      | M_Redact \<Rightarrow>
          let args = c @ '', '' @ squote ''[A-Za-z0-9]'' @ '', '' @ squote ''x'' in
          Inr (if src = D_Trino \<or> src = D_Athena then ''regexp_replace('' @ args @ '')''
               else if src = D_Postgres \<or> src = D_DuckDb then ''regexp_replace('' @ args @ '', '' @ squote ''g'' @ '')''
               else ''regexp_replace('' @ args @ '')'')
      | M_ShowLast4 \<Rightarrow>
          Inr (''CASE WHEN '' @ c @ '' IS NULL THEN NULL ELSE '' @ squote ''****'' @ '' || substr('' @ c @ '', -4) END'')
      | M_ShowFirst4 \<Rightarrow>
          Inr (''CASE WHEN '' @ c @ '' IS NULL THEN NULL ELSE substr('' @ c @ '', 1, 4) || '' @ squote ''****'' @ '' END'')
      | M_DateShowYear \<Rightarrow> Inr (''date_trunc('' @ squote ''year'' @ '', '' @ c @ '')'')
      | M_Hash \<Rightarrow>
          Inr (if src = D_Trino \<or> src = D_Athena then ''to_hex(sha256(to_utf8(cast('' @ c @ '' as varchar))))''
               else if src = D_DuckDb then ''sha256(cast('' @ c @ '' as varchar))''
               else if src = D_Snowflake then ''sha2(cast('' @ c @ '' as varchar), 256)''
               else if src = D_ClickHouse \<or> src = D_StarRocks then ''hex(sha256(cast('' @ c @ '' as varchar)))''
               else ''sha256(cast('' @ c @ '' as varchar))'')
      | M_Custom \<Rightarrow>
          (case cm_expression cm of
             None \<Rightarrow> Inl (MissingCustomExpression (cm_column cm))
           | Some e \<Rightarrow> Inr e))"

section \<open>Requests\<close>

record ExtractedResource =
  xr_catalog :: "string option"
  xr_schema :: "string option"
  xr_kind :: ResourceKind
  xr_table :: string
  xr_columns :: Columns
  xr_is_write_target :: bool
  xr_value :: "string option"

record ExtractedStatement =
  xs_resources :: "ExtractedResource list"
  xs_embeds_reads :: bool
  xs_replaces :: bool
  xs_write_operation :: "string option"
  xs_grant :: "GrantDetail option"
  xs_nested_writes :: bool

record TablePolicy =
  tp_table :: string
  tp_row_filters :: "string list"
  tp_masked_columns :: "(string \<times> string) list"

text \<open>
  What the guard asks of the rest of the world: the two SQL parsers (errors as their text), and
  what each evaluation finds, by request, since no two requests of one check are the same.
\<close>

record access_world =
  aw_parse :: parser
  aw_extract :: "SqlDialect \<Rightarrow> string \<Rightarrow> string + ExtractedStatement"
  aw_rewrite_scans :: "SqlDialect \<Rightarrow> string \<Rightarrow> TablePolicy list \<Rightarrow> string + string"
  aw_write_filters :: "SqlDialect \<Rightarrow> string \<Rightarrow> string list \<Rightarrow> string + string"
  aw_cache :: "AccessRequest \<Rightarrow> (CacheKey \<times> CacheEntry) list"
  aw_now :: "AccessRequest \<Rightarrow> instant"
  aw_later :: "AccessRequest \<Rightarrow> instant"
  aw_answer :: "AccessRequest \<Rightarrow> PolicyError + AccessDecision"

definition decide :: "access_world \<Rightarrow> ConnectionRuntime \<Rightarrow> AccessRequest \<Rightarrow> AccessDecision" where
  "decide w conn req =
     fst (evaluate ((cr_controller conn)\<lparr>ac_cache := aw_cache w req\<rparr>) (aw_now w req) (aw_later w req) req
       (aw_answer w req))"

definition to_access_resource :: "ExtractedResource \<Rightarrow> AccessResource" where
  "to_access_resource r =
     \<lparr>ar_kind = xr_kind r, ar_catalog = xr_catalog r, ar_schema = xr_schema r, ar_table = xr_table r,
      ar_columns = xr_columns r, ar_value = xr_value r\<rparr>"

text \<open>The forwarded session parameters are an ordered map: sorted by key, each key once.\<close>

definition session_params :: "ConnectionRuntime \<Rightarrow> GuardContext \<Rightarrow> (string \<times> string) list" where
  "session_params conn ctx =
     List.map_filter (\<lambda>k. map_option (Pair k) (map_of (gx_session_extra ctx) k))
       (sort (remdups (cr_session_param_keys conn)))"

definition build_request ::
  "ConnectionRuntime \<Rightarrow> GuardContext \<Rightarrow> Operation \<Rightarrow> ExtractedResource list \<Rightarrow> GrantDetail option \<Rightarrow> AccessRequest" where
  "build_request conn ctx op tables grant =
     \<lparr>rq_grant = grant,
      rq_identity = \<lparr>id_user = (case gx_user ctx of Some u \<Rightarrow> u | None \<Rightarrow> ''anonymous''), id_groups = gx_groups ctx,
        id_roles = gx_roles ctx, id_attributes = gx_attributes ctx\<rparr>,
      rq_operation = op,
      rq_resources = map to_access_resource tables,
      rq_context = \<lparr>rc_cluster_group = gx_cluster_group ctx, rc_engine = engine_name (gx_engine_type ctx),
        rc_query_id = [], rc_session_params = session_params conn ctx\<rparr>\<rparr>"

section \<open>The check\<close>

definition deny_first :: "AccessDecision \<Rightarrow> GuardResult" where
  "deny_first d =
     (let (table, reason) = (case first_denied d of Some x \<Rightarrow> x | None \<Rightarrow> ([], ''access denied''))
      in deny (''access denied for '' @ table @ '': '' @ reason) ''ACCESS_DENIED'')"

definition UCAST_DENIED :: GuardResult where
  "UCAST_DENIED = deny ''access control: structured (ucast) row filters are not implemented'' ''ACCESS_UCAST_UNIMPLEMENTED''"

fun check_writes ::
  "(Operation \<Rightarrow> AccessDecision) \<Rightarrow> string \<Rightarrow> Operation list \<Rightarrow> (string \<times> string list) option
   \<Rightarrow> GuardResult + (string \<times> string list) option" where
  "check_writes dec target [] scope = Inr scope"
| "check_writes dec target (op # ops) scope =
     (let d = dec op; filters = map snd (row_filters d) in
      if \<not> is_allowed d then Inl (deny_first d)
      else if has_ucast_filter d then Inl UCAST_DENIED
      else if column_masks d \<noteq> [] then
        Inl (deny (''access control: the policy returned column masks for '' @ op @ '', which apply to reads only'')
          ''ACCESS_REWRITE_UNSUPPORTED_FOR_WRITE'')
      else if filters = [] then check_writes dec target ops scope
      else if op \<in> {''table.update'', ''table.delete'', ''table.merge''} then
        check_writes dec target ops (Some (target, filters))
      else
        Inl (deny (''access control: the policy returned row filters for '' @ op
            @ '', which are only supported for table.select, table.update, table.delete and table.merge'')
          ''ACCESS_REWRITE_UNSUPPORTED_FOR_WRITE''))"

definition empty_policy :: "string \<Rightarrow> TablePolicy" where
  "empty_policy t = \<lparr>tp_table = t, tp_row_filters = [], tp_masked_columns = []\<rparr>"

text \<open>
  The policies are collected in a hash map by table, here in order of first insertion: the order
  is observable only in the audit metadata.
\<close>

definition add_policy :: "string \<Rightarrow> (TablePolicy \<Rightarrow> TablePolicy) \<Rightarrow> (string \<times> TablePolicy) list \<Rightarrow> (string \<times> TablePolicy) list" where
  "add_policy t f by_table = AList.map_default t (f (empty_policy t)) f by_table"

fun filter_policies :: "(string \<times> string) list \<Rightarrow> (string \<times> TablePolicy) list \<Rightarrow> (string \<times> TablePolicy) list" where
  "filter_policies [] by_table = by_table"
| "filter_policies ((t, e) # fs) by_table =
     filter_policies fs (add_policy t (\<lambda>p. p\<lparr>tp_row_filters := tp_row_filters p @ [e]\<rparr>) by_table)"

fun mask_policies ::
  "SqlDialect \<Rightarrow> (string \<times> ColumnMask) list \<Rightarrow> (string \<times> TablePolicy) list \<Rightarrow> MaskRenderError + (string \<times> TablePolicy) list" where
  "mask_policies d [] by_table = Inr by_table"
| "mask_policies d ((t, m) # ms) by_table =
     (case render_mask m (cm_column m) d of
        Inl e \<Rightarrow> Inl e
      | Inr r \<Rightarrow>
          mask_policies d ms
            (add_policy t (\<lambda>p. p\<lparr>tp_masked_columns := tp_masked_columns p @ [(cm_column m, r)]\<rparr>) by_table))"

definition check_read_tables :: "SqlDialect \<Rightarrow> AccessDecision \<Rightarrow> GuardResult + TablePolicy list" where
  "check_read_tables dialect d =
     (if \<not> is_allowed d then Inl (deny_first d)
      else if has_ucast_filter d then Inl UCAST_DENIED
      else (case mask_policies dialect (column_masks d) (filter_policies (row_filters d) []) of
              Inl e \<Rightarrow> Inl (deny (''access control: '' @ show_mask_error e) ''ACCESS_MASK_RENDER_FAILED'')
            | Inr by_table \<Rightarrow> Inr (map snd by_table)))"

definition rewrite_metadata :: "TablePolicy list \<Rightarrow> string option \<Rightarrow> metadata" where
  "rewrite_metadata policies write_table =
     (let wt = (case write_table of Some t \<Rightarrow> [t] | None \<Rightarrow> []) in
      [(''tables'', join '','' (map tp_table policies @ wt)),
       (''row_filtered'', join '','' (map tp_table (filter (\<lambda>p. tp_row_filters p \<noteq> []) policies) @ wt)),
       (''row_filters'',
         join [CHR 0x0A] (concat (map (\<lambda>p. map (\<lambda>f. tp_table p @ '': '' @ f) (tp_row_filters p)) policies))),
       (''masked_columns'',
         join '','' (concat (map (\<lambda>p. map (\<lambda>(c, _). tp_table p @ ''.'' @ c) (tp_masked_columns p)) policies)))])"

definition apply_policies ::
  "access_world \<Rightarrow> SqlDialect \<Rightarrow> string \<Rightarrow> TablePolicy list \<Rightarrow> (string \<times> string list) option \<Rightarrow> string + string" where
  "apply_policies w dialect sql policies write_scope =
     (case if policies = [] then Inr sql else aw_rewrite_scans w dialect sql policies of
        Inl e \<Rightarrow> Inl e
      | Inr sql' \<Rightarrow>
          (case write_scope of
             Some (_, filters) \<Rightarrow> if filters = [] then Inr sql' else aw_write_filters w dialect sql' filters
           | None \<Rightarrow> Inr sql'))"

definition finish_check ::
  "access_world \<Rightarrow> GuardContext \<Rightarrow> TablePolicy list \<Rightarrow> (string \<times> string list) option \<Rightarrow> GuardResult" where
  "finish_check w ctx policies write_scope =
     (if policies = [] \<and> write_scope = None then allow
      else (case apply_policies w (gx_dialect ctx) (gx_sql ctx) policies write_scope of
              Inr sql \<Rightarrow> G_Rewrite sql (Some (rewrite_metadata policies (map_option fst write_scope)))
            | Inl e \<Rightarrow> deny (''access control: could not apply row filters/masks: '' @ e) ''ACCESS_REWRITE_FAILED''))"

definition check_resources ::
  "access_world \<Rightarrow> ConnectionRuntime \<Rightarrow> GuardContext \<Rightarrow> Operation \<Rightarrow> ExtractedStatement \<Rightarrow> GuardResult" where
  "check_resources w conn ctx operation st =
     (let statement_op = (case xs_write_operation st of Some o1 \<Rightarrow> o1 | None \<Rightarrow> operation);
          targets = filter xr_is_write_target (xs_resources st);
          reads = filter (\<lambda>r. \<not> xr_is_write_target r) (xs_resources st);
          check_reads = (evaluates (cr_controller conn) table_select \<and> reads \<noteq> []
                         \<and> (is_read operation \<or> xs_embeds_reads st));
          write_ops = filter (evaluates (cr_controller conn)) (write_operations statement_op (xs_replaces st))
      in
      if write_ops \<noteq> [] \<and> targets = [] then
        deny (''access control: could not identify the target of '' @ statement_op) ''ACCESS_ANALYSIS_FAILED''
      else
        (let check_write = (write_ops \<noteq> [] \<and> targets \<noteq> []) in
         if \<not> check_reads \<and> \<not> check_write then allow
         else if check_reads \<and> cr_on_missing_schema conn = OMS_Deny
                 \<and> list_ex (\<lambda>r. xr_columns r = AllColumns) reads then
           deny ''access control: table columns could not be resolved (onMissingSchema=deny)'' ''ACCESS_SCHEMA_UNRESOLVED''
         else
           (case (if check_write then
                    check_writes (\<lambda>op. decide w conn (build_request conn ctx op targets (xs_grant st)))
                      (xr_table (hd targets)) write_ops None
                  else Inr None) of
              Inl r \<Rightarrow> r
            | Inr write_scope \<Rightarrow>
                if \<not> check_reads \<and> write_scope = None then allow
                else
                  (case (if check_reads then
                           check_read_tables (gx_dialect ctx)
                             (decide w conn (build_request conn ctx table_select reads None))
                         else Inr []) of
                     Inl r \<Rightarrow> r
                   | Inr policies \<Rightarrow> finish_check w ctx policies write_scope))))"

definition check_analyzed :: "access_world \<Rightarrow> ConnectionRuntime \<Rightarrow> GuardContext \<Rightarrow> GuardResult" where
  "check_analyzed w conn ctx =
     (let stmts = guard_statements (aw_parse w) ctx in
      if (case stmts of Some ss \<Rightarrow> 1 < length ss | None \<Rightarrow> False) then
        deny ''access control: multi-statement queries are not supported'' ''ACCESS_MULTI_STATEMENT''
      else if \<not> evaluates_anything (cr_controller conn) then allow
      else
        (case aw_extract w (gx_dialect ctx) (gx_sql ctx) of
           Inl e \<Rightarrow> deny (''access control: could not analyze query: '' @ e) ''ACCESS_ANALYSIS_FAILED''
         | Inr st \<Rightarrow>
             if xs_nested_writes st then
               deny ''access control: a data-modifying statement nested inside a query is not supported''
                 ''ACCESS_UNSUPPORTED_STATEMENT''
             else check_resources w conn ctx (classify_operation stmts (gx_sql ctx)) st))"

definition check_statement :: "access_world \<Rightarrow> ConnectionRuntime \<Rightarrow> GuardContext \<Rightarrow> GuardResult" where
  "check_statement w conn ctx =
     (case runs_sql_it_does_not_show (gx_sql ctx) (cr_controller conn) of
        Some kind \<Rightarrow>
          if evaluates_anything (cr_controller conn) then
            deny (''access control: '' @ kind @ '' statements are not supported'') ''ACCESS_UNSUPPORTED_STATEMENT''
          else check_analyzed w conn ctx
      | None \<Rightarrow> check_analyzed w conn ctx)"

lemma explain_loop_suffix: "explain_loop s = Some r \<Longrightarrow> \<exists>p. s = p @ r"
proof (induction s rule: explain_loop.induct)
  case (1 s)
  let ?rest = "strip_leading_sql_comments s"
  obtain p where p: "s = p @ ?rest" using strip_leading_sql_comments_suffix by blast
  show ?case
  proof (cases "strip_prefix ''('' ?rest")
    case (Some inside)
    show ?thesis
    proof (cases "to_ascii_lowercase (word_at (trim_start inside)) \<in> set STATEMENT_STARTERS")
      case True
      then have "r = ?rest" using 1(3) Some by (subst (asm) explain_loop.simps) simp
      then show ?thesis using p by blast
    next
      case False
      then obtain a b where ab: "find_str '')'' ?rest = Some (a, b)" "explain_loop b = Some r"
        using 1(3) Some by (subst (asm) explain_loop.simps) (auto split: option.splits)
      have "\<exists>q. b = q @ r" using 1(2) [OF refl Some False ab(1) refl] ab(2) by simp
      then show ?thesis using p find_str_Some [OF ab(1)] by (metis append_assoc)
    qed
  next
    case None
    let ?word = "to_ascii_lowercase (word_at ?rest)"
    show ?thesis
    proof (cases "?word \<in> set STATEMENT_STARTERS")
      case True
      then have "r = ?rest" using 1(3) None by (subst (asm) explain_loop.simps) (simp add: Let_def)
      then show ?thesis using p by blast
    next
      case False
      then have m: "?word \<in> set EXPLAIN_MODIFIERS" "explain_loop (drop (length ?word) ?rest) = Some r"
        using 1(3) None by (subst (asm) explain_loop.simps, simp add: Let_def split: if_splits)+
      have "\<exists>q. drop (length ?word) ?rest = q @ r" using 1(1) [OF refl None refl False m(1)] m(2) by simp
      then show ?thesis using p by (metis append_assoc append_take_drop_id)
    qed
  qed
qed

lemma explain_split_inner:
  assumes "explain_split sql = Inner pre inner"
  shows "sql = pre @ inner" and "length inner < length sql" and "explain_loop (drop 7 (strip_leading_sql_comments sql)) = Some inner"
proof -
  let ?first = "strip_leading_sql_comments sql"
  have head: "to_ascii_lowercase (word_at ?first) = ''explain''"
    using assms by (auto simp: explain_split_def Let_def eq_ignore_ascii_case_def to_ascii_lowercase_def ascii_lower_def split: if_splits)
  then have "length (to_ascii_lowercase (word_at ?first)) = length ''explain''" by simp
  then have len: "length (word_at ?first) = 7" by (simp add: to_ascii_lowercase_def)
  then have loop: "explain_loop (drop 7 ?first) = Some inner" and pre: "pre = take (length sql - length inner) sql"
    using assms by (auto simp: explain_split_def Let_def split: if_splits option.splits)
  show "explain_loop (drop 7 ?first) = Some inner" by (rule loop)
  obtain p where p: "sql = p @ inner"
    using explain_loop_suffix [OF loop] strip_leading_sql_comments_suffix [of sql] by (metis append_assoc append_take_drop_id)
  then show "sql = pre @ inner" using pre by simp
  obtain q where q: "drop 7 ?first = q @ inner" using explain_loop_suffix [OF loop] by blast
  have "7 \<le> length ?first" using len length_takeWhile_le [of _ ?first] by (metis word_at_def)
  then show "length inner < length sql"
    using arg_cong [OF q, of length] length_strip_leading_sql_comments [of sql] by simp
qed

function opa_access_check :: "access_world \<Rightarrow> OpaAccessGuard \<Rightarrow> GuardContext \<Rightarrow> GuardResult" where
  "opa_access_check w g ctx =
     (if \<not> enabled_for_group g (gx_cluster_group ctx) then allow
      else
        (case connection_for_group g (gx_cluster_group ctx) of
           None \<Rightarrow> allow
         | Some conn \<Rightarrow>
             (case explain_split (gx_sql ctx) of
                NotExplain \<Rightarrow> check_statement w conn ctx
              | Inner pre inner \<Rightarrow>
                  (case opa_access_check w g (ctx\<lparr>gx_sql := inner\<rparr>) of
                     G_Rewrite sql md \<Rightarrow> G_Rewrite (pre @ sql) md
                   | other \<Rightarrow> other)
              | Unrecognized \<Rightarrow>
                  if evaluates_anything (cr_controller conn) then
                    deny ''access control: could not analyze the EXPLAIN statement'' ''ACCESS_ANALYSIS_FAILED''
                  else allow)))"
  by pat_completeness auto
termination
  by (relation "measure (\<lambda>(w, g, ctx). length (gx_sql ctx))") (auto intro: explain_split_inner(2))

declare opa_access_check.simps [simp del]

datatype AccessStageOutcome =
    StageAllowed GuardAction
  | StageRewritten string GuardAction
  | StageDenied string "string option" GuardAction

definition stage_context ::
  "string \<Rightarrow> SqlDialect \<Rightarrow> EngineType \<Rightarrow> ClusterGroupName \<Rightarrow> AuthContext \<Rightarrow> SessionContext \<Rightarrow> QueryTags \<Rightarrow> GuardContext" where
  "stage_context sql dialect engine grp auth session tags =
     \<lparr>gx_sql = sql, gx_original_sql = None, gx_dialect = dialect, gx_engine_type = engine,
      gx_cluster_group = grp, gx_user = sess_user session, gx_groups = auth_groups auth,
      gx_roles = auth_roles auth, gx_attributes = auth_attributes auth, gx_query_tags = tags,
      gx_session_extra = sess_extra session\<rparr>"

definition run_access_control_stage :: "access_world \<Rightarrow> OpaAccessGuard \<Rightarrow> GuardContext \<Rightarrow> AccessStageOutcome" where
  "run_access_control_stage w g ctx =
     (let result = opa_access_check w g ctx; action = result_to_action ''opa_access'' result in
      case result of
        G_Deny reason code \<Rightarrow> StageDenied reason code action
      | G_Rewrite sql _ \<Rightarrow> StageRewritten sql action
      | G_Allow _ \<Rightarrow> StageAllowed action
      | G_Warn _ \<Rightarrow> StageAllowed action)"


section \<open>What a query that is not refused has been through\<close>

abbreviation stmt_targets :: "ExtractedStatement \<Rightarrow> ExtractedResource list" where
  "stmt_targets st \<equiv> filter xr_is_write_target (xs_resources st)"

abbreviation stmt_reads :: "ExtractedStatement \<Rightarrow> ExtractedResource list" where
  "stmt_reads st \<equiv> filter (\<lambda>r. \<not> xr_is_write_target r) (xs_resources st)"

definition judged_writes :: "ConnectionRuntime \<Rightarrow> Operation \<Rightarrow> ExtractedStatement \<Rightarrow> Operation list" where
  "judged_writes conn operation st =
     filter (evaluates (cr_controller conn))
       (write_operations (case xs_write_operation st of Some o1 \<Rightarrow> o1 | None \<Rightarrow> operation) (xs_replaces st))"

definition judges_reads :: "ConnectionRuntime \<Rightarrow> Operation \<Rightarrow> ExtractedStatement \<Rightarrow> bool" where
  "judges_reads conn operation st \<longleftrightarrow>
     evaluates (cr_controller conn) table_select \<and> stmt_reads st \<noteq> [] \<and> (is_read operation \<or> xs_embeds_reads st)"

definition write_decision :: "access_world \<Rightarrow> ConnectionRuntime \<Rightarrow> GuardContext \<Rightarrow> ExtractedStatement \<Rightarrow> Operation \<Rightarrow> AccessDecision" where
  "write_decision w conn ctx st op = decide w conn (build_request conn ctx op (stmt_targets st) (xs_grant st))"

definition read_decision :: "access_world \<Rightarrow> ConnectionRuntime \<Rightarrow> GuardContext \<Rightarrow> ExtractedStatement \<Rightarrow> AccessDecision" where
  "read_decision w conn ctx st = decide w conn (build_request conn ctx table_select (stmt_reads st) None)"

text \<open>
  Every object the statement writes was allowed under every operation it performs, and every table
  it reads was allowed for reading; nothing the policy asked for in a form the guard cannot apply
  is left.
\<close>

definition cleared :: "access_world \<Rightarrow> ConnectionRuntime \<Rightarrow> GuardContext \<Rightarrow> Operation \<Rightarrow> ExtractedStatement \<Rightarrow> bool" where
  "cleared w conn ctx operation st \<longleftrightarrow>
     (\<forall>op \<in> set (judged_writes conn operation st).
        stmt_targets st \<noteq> [] \<and> is_allowed (write_decision w conn ctx st op)
        \<and> \<not> has_ucast_filter (write_decision w conn ctx st op) \<and> column_masks (write_decision w conn ctx st op) = []
        \<and> (row_filters (write_decision w conn ctx st op) \<noteq> [] \<longrightarrow> op \<in> {''table.update'', ''table.delete'', ''table.merge''}))
     \<and> (judges_reads conn operation st \<longrightarrow>
          is_allowed (read_decision w conn ctx st) \<and> \<not> has_ucast_filter (read_decision w conn ctx st))"

text \<open>The policies hold every filter and mask of the decision, under the table it names.\<close>

definition covers_reads :: "SqlDialect \<Rightarrow> AccessDecision \<Rightarrow> TablePolicy list \<Rightarrow> bool" where
  "covers_reads dialect d policies \<longleftrightarrow>
     (\<forall>(t, e) \<in> set (row_filters d). \<exists>p \<in> set policies. tp_table p = t \<and> e \<in> set (tp_row_filters p))
     \<and> (\<forall>(t, m) \<in> set (column_masks d). \<exists>p \<in> set policies. tp_table p = t
          \<and> (\<exists>r. render_mask m (cm_column m) dialect = Inr r \<and> (cm_column m, r) \<in> set (tp_masked_columns p)))"

lemma check_writes_Inr:
  assumes "check_writes dec target ops scope = Inr scope'"
  shows "(\<forall>op \<in> set ops. is_allowed (dec op) \<and> \<not> has_ucast_filter (dec op) \<and> column_masks (dec op) = []
            \<and> (row_filters (dec op) \<noteq> [] \<longrightarrow> op \<in> {''table.update'', ''table.delete'', ''table.merge''}))
    \<and> (scope' = None \<longleftrightarrow> scope = None \<and> (\<forall>op \<in> set ops. row_filters (dec op) = []))
    \<and> (\<forall>t fs. scope' = Some (t, fs) \<longrightarrow> scope' = scope \<or> t = target \<and> (\<exists>op \<in> set ops. fs = map snd (row_filters (dec op)) \<and> fs \<noteq> []))"
  using assms
proof (induction ops arbitrary: scope)
  case (Cons op ops)
  show ?case
  proof (cases "row_filters (dec op) = []")
    case True
    then have "check_writes dec target ops scope = Inr scope'" "is_allowed (dec op)" "\<not> has_ucast_filter (dec op)"
        "column_masks (dec op) = []"
      using Cons.prems by (auto simp: Let_def split: if_splits)
    with Cons.IH [of scope] True show ?thesis by auto
  next
    case False
    then have *: "check_writes dec target ops (Some (target, map snd (row_filters (dec op)))) = Inr scope'"
        "is_allowed (dec op)" "\<not> has_ucast_filter (dec op)" "column_masks (dec op) = []"
        "op \<in> {''table.update'', ''table.delete'', ''table.merge''}"
      using Cons.prems by (auto simp: Let_def split: if_splits)
    from Cons.IH [OF *(1)] *(2-5) False show ?thesis by auto
  qed
qed simp

lemma check_writes_Inl: "check_writes dec target ops scope = Inl r \<Longrightarrow> \<exists>reason code. r = G_Deny reason code"
  by (induction ops arbitrary: scope)
    (auto simp: Let_def deny_def deny_first_def UCAST_DENIED_def split: if_splits prod.splits)

definition by_ok :: "(string \<times> TablePolicy) list \<Rightarrow> bool" where
  "by_ok by_table \<longleftrightarrow> (\<forall>(t, p) \<in> set by_table. tp_table p = t)"

definition holds_filter :: "(string \<times> TablePolicy) list \<Rightarrow> string \<Rightarrow> string \<Rightarrow> bool" where
  "holds_filter by_table t e \<longleftrightarrow> (\<exists>p. (t, p) \<in> set by_table \<and> e \<in> set (tp_row_filters p))"

definition holds_mask :: "(string \<times> TablePolicy) list \<Rightarrow> string \<Rightarrow> string \<times> string \<Rightarrow> bool" where
  "holds_mask by_table t cr \<longleftrightarrow> (\<exists>p. (t, p) \<in> set by_table \<and> cr \<in> set (tp_masked_columns p))"

lemma add_policy_set:
  "(k, p) \<in> set (add_policy t f bt) \<longrightarrow> (k, p) \<in> set bt \<or> k = t \<and> (p = f (empty_policy t) \<or> (\<exists>q. (t, q) \<in> set bt \<and> p = f q))"
  unfolding add_policy_def by (induction bt) auto

lemma add_policy_keeps:
  "(k, p) \<in> set bt \<Longrightarrow> (k, p) \<in> set (add_policy t f bt) \<or> k = t \<and> (t, f p) \<in> set (add_policy t f bt)"
  unfolding add_policy_def by (induction bt) auto

lemma add_policy_has: "\<exists>q. (t, f q) \<in> set (add_policy t f bt)"
  unfolding add_policy_def by (induction bt) auto

lemma by_ok_add:
  assumes "by_ok bt" and f: "\<And>q. tp_table (f q) = tp_table q"
  shows "by_ok (add_policy t f bt)"
proof -
  have tab: "(k, q) \<in> set bt \<Longrightarrow> tp_table q = k" for k q using assms(1) unfolding by_ok_def by blast
  have "tp_table p = k" if "(k, p) \<in> set (add_policy t f bt)" for k p
    using add_policy_set [of k p t f bt] that f tab by (auto simp: empty_policy_def)
  then show ?thesis unfolding by_ok_def by blast
qed

lemma filter_policies_ok:
  "by_ok bt \<Longrightarrow>
   by_ok (filter_policies fs bt)
   \<and> (\<forall>t e. holds_filter bt t e \<or> (t, e) \<in> set fs \<longrightarrow> holds_filter (filter_policies fs bt) t e)"
proof (induction fs bt rule: filter_policies.induct)
  case (2 t e fs bt)
  let ?f = "\<lambda>p. p\<lparr>tp_row_filters := tp_row_filters p @ [e]\<rparr>"
  have ok: "by_ok (add_policy t ?f bt)" using "2.prems" by (rule by_ok_add) simp
  have new: "holds_filter (add_policy t ?f bt) t e"
    using add_policy_has [of t ?f bt] unfolding holds_filter_def by fastforce
  have old: "holds_filter bt t' e' \<Longrightarrow> holds_filter (add_policy t ?f bt) t' e'" for t' e'
    unfolding holds_filter_def using add_policy_keeps [of t' _ bt t ?f] by fastforce
  show ?case using "2.IH" [OF ok] new old by auto
qed simp

lemma mask_policies_ok:
  "by_ok bt \<Longrightarrow> mask_policies d ms bt = Inr bt' \<Longrightarrow>
   by_ok bt' \<and> (\<forall>t e. holds_filter bt t e \<longrightarrow> holds_filter bt' t e)
   \<and> (\<forall>t cr. holds_mask bt t cr \<longrightarrow> holds_mask bt' t cr)
   \<and> (\<forall>(t, m) \<in> set ms. \<exists>r. render_mask m (cm_column m) d = Inr r \<and> holds_mask bt' t (cm_column m, r))"
proof (induction d ms bt rule: mask_policies.induct)
  case (2 d t m ms bt)
  then obtain r where r: "render_mask m (cm_column m) d = Inr r" by (auto split: sum.splits)
  let ?f = "\<lambda>p. p\<lparr>tp_masked_columns := tp_masked_columns p @ [(cm_column m, r)]\<rparr>"
  have ok: "by_ok (add_policy t ?f bt)" using "2.prems"(1) by (rule by_ok_add) simp
  have new: "holds_mask (add_policy t ?f bt) t (cm_column m, r)"
    using add_policy_has [of t ?f bt] unfolding holds_mask_def by fastforce
  have oldm: "holds_mask bt t' c \<Longrightarrow> holds_mask (add_policy t ?f bt) t' c" for t' c
    unfolding holds_mask_def using add_policy_keeps [of t' _ bt t ?f] by fastforce
  have oldf: "holds_filter bt t' e \<Longrightarrow> holds_filter (add_policy t ?f bt) t' e" for t' e
    unfolding holds_filter_def using add_policy_keeps [of t' _ bt t ?f] by fastforce
  have rest: "mask_policies d ms (add_policy t ?f bt) = Inr bt'" using "2.prems"(2) r by simp
  show ?case using "2.IH" [OF r ok rest] new oldm oldf r by auto
qed simp

lemma check_read_tables_Inr:
  assumes "check_read_tables dialect d = Inr policies"
  shows "is_allowed d \<and> \<not> has_ucast_filter d \<and> covers_reads dialect d policies"
proof -
  obtain bt where m: "mask_policies dialect (column_masks d) (filter_policies (row_filters d) []) = Inr bt"
      "policies = map snd bt" "is_allowed d" "\<not> has_ucast_filter d"
    using assms by (auto simp: check_read_tables_def split: if_splits sum.splits)
  have "by_ok []" by (simp add: by_ok_def)
  note f = filter_policies_ok [OF this, of "row_filters d"]
  note mm = mask_policies_ok [OF conjunct1 [OF f] m(1)]
  have tab: "(t, p) \<in> set bt \<Longrightarrow> tp_table p = t" for t p using mm by (auto simp: by_ok_def)
  have "\<exists>p \<in> set policies. tp_table p = t \<and> e \<in> set (tp_row_filters p)" if "(t, e) \<in> set (row_filters d)" for t e
  proof -
    have "holds_filter bt t e" using f mm that by blast
    then show ?thesis using tab m(2) unfolding holds_filter_def by force
  qed
  moreover have "\<exists>p \<in> set policies. tp_table p = t
      \<and> (\<exists>r. render_mask c (cm_column c) dialect = Inr r \<and> (cm_column c, r) \<in> set (tp_masked_columns p))"
    if in_masks: "(t, c) \<in> set (column_masks d)" for t c
  proof -
    obtain r where "render_mask c (cm_column c) dialect = Inr r" "holds_mask bt t (cm_column c, r)"
      using mm in_masks by blast
    then show ?thesis using tab m(2) unfolding holds_mask_def by force
  qed
  ultimately show ?thesis using m(3,4) unfolding covers_reads_def by blast
qed

lemma check_read_tables_Inl: "check_read_tables dialect d = Inl r \<Longrightarrow> \<exists>reason code. r = G_Deny reason code"
  by (auto simp: check_read_tables_def deny_def deny_first_def UCAST_DENIED_def split: if_splits sum.splits prod.splits)

lemma filtered_write_not_drop:
  "x @ ''.drop'' \<noteq> ''table.update''" "x @ ''.drop'' \<noteq> ''table.delete''" "x @ ''.drop'' \<noteq> ''table.merge''"
  using arg_cong [of "x @ ''.drop''" _ last] by fastforce+

lemma drop_counterpart_shape: "drop_counterpart op = Some y \<Longrightarrow> \<exists>x. y = x @ ''.drop''"
  unfolding drop_counterpart_def by (cases "split_once CHR ''.'' op") (auto split: if_splits)

lemma single_filtered_write:
  assumes "a \<in> set (write_operations op r)" "b \<in> set (write_operations op r)"
    and "a \<in> {''table.update'', ''table.delete'', ''table.merge''}" "b \<in> {''table.update'', ''table.delete'', ''table.merge''}"
  shows "a = b"
proof -
  have "x = op" if x: "x \<in> set (write_operations op r)" "x \<in> {''table.update'', ''table.delete'', ''table.merge''}" for x
  proof -
    have "x = op \<or> drop_counterpart op = Some x"
      using x(1) unfolding write_operations_def by (cases "drop_counterpart op"; cases r; cases "is_read op") auto
    moreover have "drop_counterpart op \<noteq> Some x"
    proof
      assume "drop_counterpart op = Some x"
      then obtain z where "x = z @ ''.drop''" using drop_counterpart_shape by blast
      then show False using x(2) filtered_write_not_drop [of z] by (metis empty_iff insertE)
    qed
    ultimately show ?thesis by blast
  qed
  then show ?thesis using assms by metis
qed

definition restrictions_applied ::
  "access_world \<Rightarrow> ConnectionRuntime \<Rightarrow> GuardContext \<Rightarrow> Operation \<Rightarrow> ExtractedStatement \<Rightarrow> string \<Rightarrow> bool" where
  "restrictions_applied w conn ctx operation st sql \<longleftrightarrow>
     (\<exists>policies scope.
        (judges_reads conn operation st \<longrightarrow> covers_reads (gx_dialect ctx) (read_decision w conn ctx st) policies)
        \<and> (\<forall>op \<in> set (judged_writes conn operation st). row_filters (write_decision w conn ctx st op) \<noteq> [] \<longrightarrow>
             scope = Some (xr_table (hd (stmt_targets st)), map snd (row_filters (write_decision w conn ctx st op))))
        \<and> apply_policies w (gx_dialect ctx) (gx_sql ctx) policies scope = Inr sql)"

definition unrestricted :: "access_world \<Rightarrow> ConnectionRuntime \<Rightarrow> GuardContext \<Rightarrow> Operation \<Rightarrow> ExtractedStatement \<Rightarrow> bool" where
  "unrestricted w conn ctx operation st \<longleftrightarrow>
     (judges_reads conn operation st \<longrightarrow>
        row_filters (read_decision w conn ctx st) = [] \<and> column_masks (read_decision w conn ctx st) = [])
     \<and> (\<forall>op \<in> set (judged_writes conn operation st). row_filters (write_decision w conn ctx st op) = [])"

lemma covers_reads_Nil: "covers_reads d dec [] \<Longrightarrow> row_filters dec = [] \<and> column_masks dec = []"
  by (cases "row_filters dec"; cases "column_masks dec") (auto simp: covers_reads_def)

lemma finish_check_cases:
  "finish_check w ctx policies scope = allow \<and> policies = [] \<and> scope = None
   \<or> (\<exists>sql md. finish_check w ctx policies scope = G_Rewrite sql md
        \<and> apply_policies w (gx_dialect ctx) (gx_sql ctx) policies scope = Inr sql)
   \<or> (\<exists>reason code. finish_check w ctx policies scope = G_Deny reason code)"
  by (auto simp: finish_check_def deny_def split: sum.splits)

definition judges_writes :: "ConnectionRuntime \<Rightarrow> Operation \<Rightarrow> ExtractedStatement \<Rightarrow> bool" where
  "judges_writes conn operation st \<longleftrightarrow> judged_writes conn operation st \<noteq> [] \<and> stmt_targets st \<noteq> []"

definition write_result ::
  "access_world \<Rightarrow> ConnectionRuntime \<Rightarrow> GuardContext \<Rightarrow> Operation \<Rightarrow> ExtractedStatement \<Rightarrow> GuardResult + (string \<times> string list) option" where
  "write_result w conn ctx operation st =
     (if judges_writes conn operation st then
        check_writes (write_decision w conn ctx st) (xr_table (hd (stmt_targets st))) (judged_writes conn operation st) None
      else Inr None)"

definition read_result ::
  "access_world \<Rightarrow> ConnectionRuntime \<Rightarrow> GuardContext \<Rightarrow> Operation \<Rightarrow> ExtractedStatement \<Rightarrow> GuardResult + TablePolicy list" where
  "read_result w conn ctx operation st =
     (if judges_reads conn operation st then check_read_tables (gx_dialect ctx) (read_decision w conn ctx st) else Inr [])"

lemma check_resources_eq:
  "check_resources w conn ctx operation st =
     (if judged_writes conn operation st \<noteq> [] \<and> stmt_targets st = [] then
        deny (''access control: could not identify the target of ''
          @ (case xs_write_operation st of Some o1 \<Rightarrow> o1 | None \<Rightarrow> operation)) ''ACCESS_ANALYSIS_FAILED''
      else if \<not> judges_reads conn operation st \<and> \<not> judges_writes conn operation st then allow
      else if judges_reads conn operation st \<and> cr_on_missing_schema conn = OMS_Deny
              \<and> list_ex (\<lambda>r. xr_columns r = AllColumns) (stmt_reads st) then
        deny ''access control: table columns could not be resolved (onMissingSchema=deny)'' ''ACCESS_SCHEMA_UNRESOLVED''
      else (case write_result w conn ctx operation st of
              Inl r \<Rightarrow> r
            | Inr scope \<Rightarrow>
                if \<not> judges_reads conn operation st \<and> scope = None then allow
                else (case read_result w conn ctx operation st of
                        Inl r \<Rightarrow> r | Inr ps \<Rightarrow> finish_check w ctx ps scope)))"
  unfolding check_resources_def Let_def judged_writes_def judges_reads_def judges_writes_def write_result_def
    read_result_def write_decision_def read_decision_def by simp

lemma write_result_Inl: "write_result w conn ctx operation st = Inl r \<Longrightarrow> \<exists>reason code. r = G_Deny reason code"
  by (auto simp: write_result_def dest: check_writes_Inl split: if_splits)

lemma read_result_Inl: "read_result w conn ctx operation st = Inl r \<Longrightarrow> \<exists>reason code. r = G_Deny reason code"
  by (auto simp: read_result_def dest: check_read_tables_Inl split: if_splits)

lemma write_result_Inr:
  assumes "write_result w conn ctx operation st = Inr scope"
    and "judged_writes conn operation st = [] \<or> stmt_targets st \<noteq> []"
  defines "wd \<equiv> write_decision w conn ctx st" and "ops \<equiv> judged_writes conn operation st"
  shows "\<forall>op \<in> set ops. stmt_targets st \<noteq> [] \<and> is_allowed (wd op) \<and> \<not> has_ucast_filter (wd op) \<and> column_masks (wd op) = []
           \<and> (row_filters (wd op) \<noteq> [] \<longrightarrow> op \<in> {''table.update'', ''table.delete'', ''table.merge''})"
    and "scope = None \<longleftrightarrow> (\<forall>op \<in> set ops. row_filters (wd op) = [])"
    and "\<forall>op \<in> set ops. row_filters (wd op) \<noteq> [] \<longrightarrow>
           scope = Some (xr_table (hd (stmt_targets st)), map snd (row_filters (wd op)))"
proof -
  have *: "(\<forall>op \<in> set ops. is_allowed (wd op) \<and> \<not> has_ucast_filter (wd op) \<and> column_masks (wd op) = []
        \<and> (row_filters (wd op) \<noteq> [] \<longrightarrow> op \<in> {''table.update'', ''table.delete'', ''table.merge''}))
    \<and> (scope = None \<longleftrightarrow> (\<forall>op \<in> set ops. row_filters (wd op) = []))
    \<and> (\<forall>t fs. scope = Some (t, fs) \<longrightarrow> t = xr_table (hd (stmt_targets st))
         \<and> (\<exists>op \<in> set ops. fs = map snd (row_filters (wd op)) \<and> fs \<noteq> []))"
  proof (cases "judges_writes conn operation st")
    case True
    then show ?thesis using check_writes_Inr [of wd _ ops None scope] assms by (auto simp: write_result_def)
  next
    case False
    then show ?thesis using assms by (auto simp: write_result_def judges_writes_def)
  qed
  then show "\<forall>op \<in> set ops. stmt_targets st \<noteq> [] \<and> is_allowed (wd op) \<and> \<not> has_ucast_filter (wd op)
      \<and> column_masks (wd op) = []
      \<and> (row_filters (wd op) \<noteq> [] \<longrightarrow> op \<in> {''table.update'', ''table.delete'', ''table.merge''})"
    and "scope = None \<longleftrightarrow> (\<forall>op \<in> set ops. row_filters (wd op) = [])"
    using assms(2) by (auto simp: ops_def)
  show "\<forall>op \<in> set ops. row_filters (wd op) \<noteq> [] \<longrightarrow>
      scope = Some (xr_table (hd (stmt_targets st)), map snd (row_filters (wd op)))"
  proof (intro ballI impI)
    fix op
    assume op: "op \<in> set ops" "row_filters (wd op) \<noteq> []"
    obtain t fs where tf: "scope = Some (t, fs)" using * op by (cases scope) auto
    then obtain op' where op': "op' \<in> set ops" "fs = map snd (row_filters (wd op'))" "fs \<noteq> []"
        "t = xr_table (hd (stmt_targets st))" using * by blast
    then have "row_filters (wd op') \<noteq> []" by auto
    then have "op \<in> {''table.update'', ''table.delete'', ''table.merge''}"
        "op' \<in> {''table.update'', ''table.delete'', ''table.merge''}" using * op op' by blast+
    moreover have "set ops \<subseteq> set (write_operations (case xs_write_operation st of Some o1 \<Rightarrow> o1 | None \<Rightarrow> operation) (xs_replaces st))"
      by (auto simp: ops_def judged_writes_def)
    ultimately have "op = op'" using single_filtered_write op(1) op'(1) by (meson subsetD)
    then show "scope = Some (xr_table (hd (stmt_targets st)), map snd (row_filters (wd op)))" using tf op' by simp
  qed
qed

lemma read_result_Inr:
  "read_result w conn ctx operation st = Inr ps \<Longrightarrow> judges_reads conn operation st \<Longrightarrow>
   is_allowed (read_decision w conn ctx st) \<and> \<not> has_ucast_filter (read_decision w conn ctx st)
   \<and> covers_reads (gx_dialect ctx) (read_decision w conn ctx st) ps"
  using check_read_tables_Inr by (auto simp: read_result_def)

lemma check_resources_sound:
  assumes pass: "\<nexists>reason code. check_resources w conn ctx operation st = G_Deny reason code"
  shows "cleared w conn ctx operation st
     \<and> (check_resources w conn ctx operation st = allow \<and> unrestricted w conn ctx operation st
        \<or> (\<exists>sql md. check_resources w conn ctx operation st = G_Rewrite sql md
             \<and> restrictions_applied w conn ctx operation st sql))"
proof -
  let ?C = "check_resources w conn ctx operation st"
  let ?R = "judges_reads conn operation st"
  note C = check_resources_eq [of w conn ctx operation st]
  have tgt: "judged_writes conn operation st = [] \<or> stmt_targets st \<noteq> []"
    using pass unfolding C deny_def by (auto split: if_splits)
  show ?thesis
  proof (cases "\<not> ?R \<and> \<not> judges_writes conn operation st")
    case True
    then have "?C = allow" "judged_writes conn operation st = []" using tgt unfolding C judges_writes_def by auto
    then show ?thesis using True by (auto simp: cleared_def unrestricted_def)
  next
    case some: False
    obtain scope where scope: "write_result w conn ctx operation st = Inr scope"
      using pass some tgt write_result_Inl unfolding C deny_def
      by (cases "write_result w conn ctx operation st") (fastforce split: if_splits)+
    note w = write_result_Inr [OF scope tgt]
    show ?thesis
    proof (cases "\<not> ?R \<and> scope = None")
      case True
      then have "?C = allow" using pass some scope tgt unfolding C deny_def by (auto split: if_splits)
      then show ?thesis using True w by (auto simp: cleared_def unrestricted_def)
    next
      case False
      have C2: "?C = (case read_result w conn ctx operation st of Inl r \<Rightarrow> r | Inr ps \<Rightarrow> finish_check w ctx ps scope)"
        using pass False some scope tgt unfolding C deny_def by (auto split: if_splits)
      obtain ps where ps: "read_result w conn ctx operation st = Inr ps"
        using pass C2 read_result_Inl by (cases "read_result w conn ctx operation st") fastforce+
      then have C3: "?C = finish_check w ctx ps scope" using C2 by simp
      note r = read_result_Inr [OF ps]
      have clear: "cleared w conn ctx operation st" using w(1) r unfolding cleared_def by blast
      from finish_check_cases [of w ctx ps scope] show ?thesis
      proof (elim disjE exE conjE)
        assume "finish_check w ctx ps scope = allow" "ps = []" "scope = None"
        then show ?thesis using C3 clear w(2) r covers_reads_Nil by (auto simp: unrestricted_def)
      next
        fix sql md
        assume sql: "finish_check w ctx ps scope = G_Rewrite sql md"
          "apply_policies w (gx_dialect ctx) (gx_sql ctx) ps scope = Inr sql"
        have "restrictions_applied w conn ctx operation st sql"
          unfolding restrictions_applied_def using r w(3) sql(2) by (intro exI [of _ ps] exI [of _ scope]) blast
        then show ?thesis using C3 clear sql(1) by auto
      qed (use C3 pass in simp)
    qed
  qed
qed


section \<open>Explained statements\<close>

lemma word_at_paren [simp]: "word_at (CHR ''('' # s) = []"
  by (simp add: word_at_def is_ascii_alphanumeric_def)

text \<open>The wrapped statement starts with a statement word or a parenthesis, so it is no \<open>EXPLAIN\<close> itself.\<close>

lemma explain_loop_start:
  "explain_loop s = Some r \<Longrightarrow>
   strip_leading_sql_comments r = r \<and>
   (to_ascii_lowercase (word_at r) \<in> set STATEMENT_STARTERS \<or> (\<exists>t. r = CHR ''('' # t))"
proof (induction s rule: explain_loop.induct)
  case (1 s)
  let ?rest = "strip_leading_sql_comments s"
  have stripped: "strip_leading_sql_comments ?rest = ?rest"
  proof -
    have d: "(?rest = [] \<or> \<not> is_whitespace (hd ?rest)) \<and> strip_prefix ''--'' ?rest = None
        \<and> (\<forall>rest. strip_prefix ''/*'' ?rest = Some rest \<longrightarrow> find_str ''*/'' rest = None)"
      using strip_leading_sql_comments_done [of s] by (simp add: Let_def)
    then have "trim_start ?rest = ?rest" unfolding trim_start_def by (cases ?rest) auto
    with d show ?thesis by (subst strip_leading_sql_comments.simps) (auto simp: Let_def split: option.splits)
  qed
  show ?case
  proof (cases "strip_prefix ''('' ?rest")
    case (Some inside)
    then have open_rest: "?rest = CHR ''('' # inside" by (simp add: strip_prefix_Some)
    show ?thesis
    proof (cases "to_ascii_lowercase (word_at (trim_start inside)) \<in> set STATEMENT_STARTERS")
      case True
      then have "r = ?rest" using 1(3) Some by (subst (asm) explain_loop.simps) simp
      then show ?thesis using stripped open_rest by auto
    next
      case False
      then obtain a b where ab: "find_str '')'' ?rest = Some (a, b)" "explain_loop b = Some r"
        using 1(3) Some by (subst (asm) explain_loop.simps) (auto split: option.splits)
      show ?thesis using 1(2) [OF refl Some False ab(1) refl] ab(2) by simp
    qed
  next
    case None
    let ?word = "to_ascii_lowercase (word_at ?rest)"
    show ?thesis
    proof (cases "?word \<in> set STATEMENT_STARTERS")
      case True
      then have "r = ?rest" using 1(3) None by (subst (asm) explain_loop.simps) (simp add: Let_def)
      then show ?thesis using stripped True by simp
    next
      case False
      then have m: "?word \<in> set EXPLAIN_MODIFIERS" "explain_loop (drop (length ?word) ?rest) = Some r"
        using 1(3) None by (subst (asm) explain_loop.simps, simp add: Let_def split: if_splits)+
      show ?thesis using 1(1) [OF refl None refl False m(1)] m(2) by simp
    qed
  qed
qed

lemma starter_not_explain: "w \<in> set STATEMENT_STARTERS \<Longrightarrow> w \<noteq> ''explain''"
  by (auto simp: STATEMENT_STARTERS_def)

lemma explain_inner_not_explain:
  assumes "explain_split sql = Inner pre inner"
  shows "explain_split inner = NotExplain"
proof -
  have "strip_leading_sql_comments inner = inner" and
    "to_ascii_lowercase (word_at inner) \<in> set STATEMENT_STARTERS \<or> (\<exists>t. inner = CHR ''('' # t)"
    using explain_loop_start [OF explain_split_inner(3) [OF assms]] by simp_all
  moreover have "to_ascii_lowercase ''explain'' = ''explain''" "to_ascii_lowercase [] = []"
    by (simp_all add: to_ascii_lowercase_def ascii_lower_def)
  ultimately have "\<not> eq_ignore_ascii_case (word_at inner) ''explain''"
    using starter_not_explain by (auto simp: eq_ignore_ascii_case_def)
  then show ?thesis using \<open>strip_leading_sql_comments inner = inner\<close> by (simp add: explain_split_def Let_def)
qed

text \<open>
  An explained statement is judged as the statement it wraps, whatever the modifiers, and a rewrite
  keeps the \<open>EXPLAIN\<close> in front of it.
\<close>

lemma check_explained:
  assumes "enabled_for_group g (gx_cluster_group ctx)"
    and "connection_for_group g (gx_cluster_group ctx) = Some conn"
    and "explain_split (gx_sql ctx) = Inner pre inner"
  shows "gx_sql ctx = pre @ inner"
    and "opa_access_check w g ctx =
      (case check_statement w conn (ctx\<lparr>gx_sql := inner\<rparr>) of
         G_Rewrite sql md \<Rightarrow> G_Rewrite (pre @ sql) md | other \<Rightarrow> other)"
proof -
  show "gx_sql ctx = pre @ inner" by (rule explain_split_inner(1) [OF assms(3)])
  have "opa_access_check w g (ctx\<lparr>gx_sql := inner\<rparr>) = check_statement w conn (ctx\<lparr>gx_sql := inner\<rparr>)"
    using assms explain_inner_not_explain [OF assms(3)] by (subst opa_access_check.simps) simp
  then show "opa_access_check w g ctx =
      (case check_statement w conn (ctx\<lparr>gx_sql := inner\<rparr>) of
         G_Rewrite sql md \<Rightarrow> G_Rewrite (pre @ sql) md | other \<Rightarrow> other)"
    using assms by (subst opa_access_check.simps) simp
qed

text \<open>
  The option list of \<open>EXPLAIN\<close> ends at the first closing parenthesis, even one inside a comment: of
  the statement below the guard judges the text from \<open>select 1\<close> on, of which the rest is a comment,
  while a database runs the query on \<open>secret\<close>.
\<close>

lemma explain_comment_hides_statement:
  "explain_split ''EXPLAIN ANALYZE (/*) select 1 -- */ SELECT * FROM secret)'' =
   Inner ''EXPLAIN ANALYZE (/*) '' ''select 1 -- */ SELECT * FROM secret)''"
  by code_simp

section \<open>Constant masks\<close>

text \<open>A reference reader of SQL string literals: a doubled quote stands for one, a single quote ends it.\<close>

fun literal_body :: "string \<Rightarrow> (string \<times> string) option" where
  "literal_body [] = None"
| "literal_body (c # cs) =
     (if c = CHR 0x27 then
        (case cs of
           d # ds \<Rightarrow> if d = CHR 0x27 then map_option (\<lambda>(v, r). (CHR 0x27 # v, r)) (literal_body ds) else Some ([], cs)
         | [] \<Rightarrow> Some ([], []))
      else map_option (\<lambda>(v, r). (c # v, r)) (literal_body cs))"

fun sql_string_literal :: "string \<Rightarrow> (string \<times> string) option" where
  "sql_string_literal (c # cs) = (if c = CHR 0x27 then literal_body cs else None)"
| "sql_string_literal [] = None"

lemma literal_body_escaped:
  "rest = [] \<or> hd rest \<noteq> CHR 0x27 \<Longrightarrow>
   literal_body (replace_char (CHR 0x27) [CHR 0x27, CHR 0x27] v @ CHR 0x27 # rest) = Some (v, rest)"
  by (induction v) (auto simp: replace_char_def split: list.splits)

text \<open>
  The constant a mask puts in place of a column is one SQL string literal with exactly the
  configured value, whatever quotes the value has: read in front of any text that does not start
  with a quote, the literal gives the value back and leaves that text.
\<close>
theorem constant_mask_roundtrip:
  assumes "cm_mask_type cm = M_Constant" and "cm_value cm = Some v" and "rest = [] \<or> hd rest \<noteq> CHR 0x27"
  shows "\<exists>lit. render_mask cm c src = Inr lit \<and> sql_string_literal (lit @ rest) = Some (v, rest)"
  using assms(1,2) literal_body_escaped [OF assms(3), of v] by (simp add: render_mask_def squote_def)

section \<open>Examples\<close>

definition example_conn :: ConnectionRuntime where
  "example_conn = \<lparr>cr_controller = AccessController_new [table_select, ''table.delete''] False [] 0 10,
     cr_session_param_keys = [], cr_on_missing_schema = OMS_Evaluate\<rparr>"

definition example_guard :: OpaAccessGuard where
  "example_guard = \<lparr>og_connections = [(''opa'', example_conn)], og_enabled = True,
     og_default_connection = Some ''opa'', og_groups = []\<rparr>"

definition example_orders :: ExtractedResource where
  "example_orders = \<lparr>xr_catalog = None, xr_schema = None, xr_kind = RK_Table, xr_table = ''orders'',
     xr_columns = AllColumns, xr_is_write_target = False, xr_value = None\<rparr>"

definition example_extracted :: ExtractedStatement where
  "example_extracted = \<lparr>xs_resources = [example_orders], xs_embeds_reads = True, xs_replaces = False,
     xs_write_operation = None, xs_grant = None, xs_nested_writes = False\<rparr>"

definition example_filtered :: AccessDecision where
  "example_filtered = \<lparr>ad_resources = [\<lparr>rd_table = ''orders'', rd_allow = True, rd_reason = None,
     rd_row_filters = [\<lparr>rf_expression = Some ''region = 1'', rf_ucast = None\<rparr>], rd_column_masks = []\<rparr>]\<rparr>"

definition example_access_world :: access_world where
  "example_access_world =
     \<lparr>aw_parse = (\<lambda>_ _. Some [Select None False None]), aw_extract = (\<lambda>_ _. Inr example_extracted),
      aw_rewrite_scans = (\<lambda>_ sql ps. Inr (sql @ '' WHERE '' @ join '' AND '' (concat (map tp_row_filters ps)))),
      aw_write_filters = (\<lambda>_ sql _. Inr sql), aw_cache = (\<lambda>_. []), aw_now = (\<lambda>_. 0), aw_later = (\<lambda>_. 0),
      aw_answer = (\<lambda>_. Inr example_filtered)\<rparr>"

definition example_context :: GuardContext where
  "example_context = \<lparr>gx_sql = ''SELECT * FROM orders'', gx_original_sql = None, gx_dialect = D_Trino,
     gx_engine_type = E_Trino, gx_cluster_group = ''g'', gx_user = Some ''ann'', gx_groups = [], gx_roles = [],
     gx_attributes = [], gx_query_tags = [], gx_session_extra = []\<rparr>"

lemma example_check:
  "explain_split (gx_sql example_context) = NotExplain"
  "(case opa_access_check example_access_world example_guard example_context of
     G_Rewrite sql md \<Rightarrow> sql = ''SELECT * FROM orders WHERE region = 1'' | _ \<Rightarrow> False)"
  by code_simp+


theorem constant_mask_roundtrip_witness:
  "\<exists>lit. render_mask \<lparr>cm_column = ''name'', cm_mask_type = M_Constant, cm_value = Some [CHR ''O'', CHR 0x27, CHR ''N''],
       cm_expression = None\<rparr> ''name'' D_Trino = Inr lit
     \<and> sql_string_literal (lit @ '', id'') = Some ([CHR ''O'', CHR 0x27, CHR ''N''], '', id'')"
  by (rule constant_mask_roundtrip) simp_all

end
