(* ===== verification/Authorization.thy ===== *)
theory Authorization
  imports Session Opa
begin

text \<open>
  Who may run queries on a group and act on an existing query:
  \<open>crates/queryflux-auth/src/authorization.rs\<close>, \<open>require_query_owner\<close> of \<open>credentials.rs\<close>, and the
  registry of running Snowflake queries, \<open>crates/queryflux-frontend/src/snowflake/in_flight.rs\<close>,
  whose cancellations it guards. What the OpenFGA server answers is an argument.
\<close>

section \<open>Acting on a query\<close>

datatype QueryAction = Poll | Dequeue | Cancel

record QueryAuthz =
  qz_submitted_by :: string
  qz_group :: string

record OperatorPolicy =
  opol_roles :: "string list"
  opol_groups :: "string list"

definition OperatorPolicy_default :: OperatorPolicy where
  "OperatorPolicy_default = \<lparr>opol_roles = [], opol_groups = []\<rparr>"

definition is_operator :: "OperatorPolicy \<Rightarrow> AuthContext \<Rightarrow> bool" where
  "is_operator p auth =
     (if list_ex (\<lambda>r. list_ex (\<lambda>a. a = r) (auth_roles auth)) (opol_roles p) then True
      else list_ex (\<lambda>g. list_ex (\<lambda>a. a = g) (auth_groups auth)) (opol_groups p))"

definition is_anonymous :: "string \<Rightarrow> bool" where
  "is_anonymous user \<longleftrightarrow> user = [] \<or> user = ''anonymous''"

definition is_query_owner :: "AuthContext \<Rightarrow> string \<Rightarrow> bool" where
  "is_query_owner auth submitted_by =
     (if submitted_by = [] then True
      else if is_anonymous (auth_user auth) \<and> is_anonymous submitted_by then True
      else auth_user auth = submitted_by)"

definition allow_query_action :: "AuthContext \<Rightarrow> QueryAction \<Rightarrow> QueryAuthz \<Rightarrow> OperatorPolicy \<Rightarrow> bool" where
  "allow_query_action auth action query operators =
     (if is_query_owner auth (qz_submitted_by query) then True
      else action = Cancel \<and> is_operator operators auth)"

definition require_query_owner :: "AuthContext \<Rightarrow> string \<Rightarrow> unit result" where
  "require_query_owner auth submitted_by =
     (if is_query_owner auth submitted_by then Inr ()
      else Inl (Unauthorized ''query belongs to a different user''))"

section \<open>Checkers\<close>

record ClusterGroupAuthorizationConfig =
  ga_allow_groups :: "string list"
  ga_allow_users :: "string list"

definition simple_check :: "(string \<times> ClusterGroupAuthorizationConfig) list \<Rightarrow> AuthContext \<Rightarrow> string \<Rightarrow> bool" where
  "simple_check policies auth grp =
     (case map_of policies grp of
        None \<Rightarrow> True
      | Some policy \<Rightarrow>
          if ga_allow_groups policy = [] \<and> ga_allow_users policy = [] then True
          else if auth_user auth \<in> set (ga_allow_users policy) then True
          else list_ex (\<lambda>g. g \<in> set (ga_allow_groups policy)) (auth_groups auth))"

text \<open>What an OpenFGA check request comes back with.\<close>

datatype FgaReply = FgaUnreachable string | FgaStatus nat "string + bool"

definition fga_allowed :: "FgaReply \<Rightarrow> bool" where
  "fga_allowed reply =
     (case reply of
        FgaUnreachable e \<Rightarrow> False
      | FgaStatus status body \<Rightarrow>
          if 200 \<le> status \<and> status < 300 then (case body of Inr allowed \<Rightarrow> allowed | Inl e \<Rightarrow> False) else False)"

record TupleKey =
  tk_user :: string
  tk_relation :: string
  tk_object :: string

definition check_request :: "AuthContext \<Rightarrow> string \<Rightarrow> string \<Rightarrow> TupleKey" where
  "check_request auth relation grp =
     \<lparr>tk_user = ''user:'' @ auth_user auth, tk_relation = relation, tk_object = ''cluster_group:'' @ grp\<rparr>"

definition check_relation :: "(TupleKey \<Rightarrow> FgaReply) \<Rightarrow> AuthContext \<Rightarrow> string \<Rightarrow> string \<Rightarrow> bool" where
  "check_relation server auth relation grp = fga_allowed (server (check_request auth relation grp))"

datatype Checker =
    AllowAllAuthorization OperatorPolicy
  | SimpleAuthorizationPolicy "(string \<times> ClusterGroupAuthorizationConfig) list" OperatorPolicy
  | OpenFgaAuthorizationClient OperatorPolicy

fun check :: "(TupleKey \<Rightarrow> FgaReply) \<Rightarrow> Checker \<Rightarrow> AuthContext \<Rightarrow> string \<Rightarrow> bool" where
  "check server (AllowAllAuthorization ops) auth grp = True"
| "check server (SimpleAuthorizationPolicy policies ops) auth grp = simple_check policies auth grp"
| "check server (OpenFgaAuthorizationClient ops) auth grp = check_relation server auth ''reader'' grp"

fun check_query :: "(TupleKey \<Rightarrow> FgaReply) \<Rightarrow> Checker \<Rightarrow> AuthContext \<Rightarrow> QueryAction \<Rightarrow> QueryAuthz \<Rightarrow> bool" where
  "check_query server (AllowAllAuthorization ops) auth action query = allow_query_action auth action query ops"
| "check_query server (SimpleAuthorizationPolicy policies ops) auth action query = allow_query_action auth action query ops"
| "check_query server (OpenFgaAuthorizationClient ops) auth action query =
     (if allow_query_action auth action query ops then True
      else if action = Cancel \<and> qz_group query \<noteq> [] then check_relation server auth ''can_cancel'' (qz_group query)
      else False)"

fun operators_of :: "Checker \<Rightarrow> OperatorPolicy" where
  "operators_of (AllowAllAuthorization ops) = ops"
| "operators_of (SimpleAuthorizationPolicy policies ops) = ops"
| "operators_of (OpenFgaAuthorizationClient ops) = ops"

definition openfga_bearer ::
  "string option \<Rightarrow> bool \<Rightarrow> TokenCacheEntry option \<Rightarrow> instant \<Rightarrow> instant \<Rightarrow> (string \<times> duration) option
   \<Rightarrow> string option \<times> TokenCacheEntry option" where
  "openfga_bearer api_key client_credentials cache now later fetch =
     (case api_key of
        Some k \<Rightarrow> (Some k, cache)
      | None \<Rightarrow>
          if client_credentials then
            (case refresh_token now later fetch cache of (tok, asked, cache') \<Rightarrow> (tok, cache'))
          else (None, cache))"

section \<open>Running Snowflake queries\<close>

datatype CancelOutcome = Aborted | NotFound | Forbidden

text \<open>An entry holds the owner and the task; \<open>ifr_aborted\<close> collects the tasks whose abort was signalled.\<close>

record InFlightRegistry =
  ifr_entries :: "(string \<times> string \<times> nat) list"
  ifr_aborted :: "nat list"

definition in_flight_new :: InFlightRegistry where
  "in_flight_new = \<lparr>ifr_entries = [], ifr_aborted = []\<rparr>"

definition in_flight_register :: "InFlightRegistry \<Rightarrow> string \<Rightarrow> string \<Rightarrow> nat \<Rightarrow> InFlightRegistry" where
  "in_flight_register r i owner task = r\<lparr>ifr_entries := AList.update i (owner, task) (ifr_entries r)\<rparr>"

definition in_flight_unregister :: "InFlightRegistry \<Rightarrow> string \<Rightarrow> InFlightRegistry" where
  "in_flight_unregister r i = r\<lparr>ifr_entries := AList.delete i (ifr_entries r)\<rparr>"

definition in_flight_cancel :: "InFlightRegistry \<Rightarrow> string \<Rightarrow> AuthContext \<Rightarrow> CancelOutcome \<times> InFlightRegistry" where
  "in_flight_cancel r i auth =
     (case map_of (ifr_entries r) i of
        None \<Rightarrow> (NotFound, r)
      | Some (owner, task) \<Rightarrow>
          (case require_query_owner auth owner of
             Inl e \<Rightarrow> (Forbidden, r)
           | Inr _ \<Rightarrow> (Aborted, r\<lparr>ifr_aborted := ifr_aborted r @ [task]\<rparr>)))"

definition ids_for_owner :: "InFlightRegistry \<Rightarrow> string \<Rightarrow> string list" where
  "ids_for_owner r owner = map fst (filter (\<lambda>(_, o', _). o' = owner) (ifr_entries r))"

section \<open>Properties\<close>

lemma is_operator_iff:
  "is_operator p auth \<longleftrightarrow> set (opol_roles p) \<inter> set (auth_roles auth) \<noteq> {} \<or> set (opol_groups p) \<inter> set (auth_groups auth) \<noteq> {}"
  by (auto simp: is_operator_def list_ex_iff)

lemma is_query_owner_iff:
  "is_query_owner auth s \<longleftrightarrow> s = [] \<or> is_anonymous (auth_user auth) \<and> s = ''anonymous'' \<or> auth_user auth = s"
  by (auto simp: is_query_owner_def is_anonymous_def)

text \<open>
  Claim C30. Results stay with their owner: whichever checker is configured and whatever an OpenFGA
  server answers, a query with a recorded, named owner is polled or dequeued by that user only;
  it is cancelled only by its owner, by an operator, or by whom the server grants
  \<open>can_cancel\<close> on the query's group. Failures of the server grant nothing.
\<close>

theorem query_actions_confined:
  assumes "check_query server k auth action query"
    and "qz_submitted_by query \<noteq> []" "qz_submitted_by query \<noteq> ''anonymous''"
  shows "auth_user auth = qz_submitted_by query
    \<or> action = Cancel
      \<and> (set (opol_roles (operators_of k)) \<inter> set (auth_roles auth) \<noteq> {}
         \<or> set (opol_groups (operators_of k)) \<inter> set (auth_groups auth) \<noteq> {}
         \<or> (\<exists>status. server \<lparr>tk_user = ''user:'' @ auth_user auth, tk_relation = ''can_cancel'',
                tk_object = ''cluster_group:'' @ qz_group query\<rparr> = FgaStatus status (Inr True)))"
  using assms
  by (cases k) (auto simp: allow_query_action_def is_query_owner_iff is_operator_iff check_relation_def
      check_request_def fga_allowed_def split: if_splits FgaReply.splits sum.splits)

definition user_ctx :: "string \<Rightarrow> AuthContext" where
  "user_ctx u = \<lparr>auth_user = u, auth_groups = [], auth_roles = [], auth_raw_token = None,
     auth_raw_password = None, auth_attributes = []\<rparr>"

theorem query_actions_confined_witness:
  "check_query (\<lambda>_. FgaUnreachable ''down'') (OpenFgaAuthorizationClient OperatorPolicy_default) (user_ctx ''alice'') Poll
     \<lparr>qz_submitted_by = ''alice'', qz_group = ''g''\<rparr> \<and> auth_user (user_ctx ''alice'') = ''alice''"
proof -
  have "check_query (\<lambda>_. FgaUnreachable ''down'') (OpenFgaAuthorizationClient OperatorPolicy_default) (user_ctx ''alice'') Poll
     \<lparr>qz_submitted_by = ''alice'', qz_group = ''g''\<rparr>"
    by (simp add: allow_query_action_def is_query_owner_def user_ctx_def)
  then show ?thesis using query_actions_confined by fastforce
qed

text \<open>An abort is signalled exactly to the task registered under the id, for its owner; nothing else changes.\<close>

lemma in_flight_cancel_spec:
  assumes "in_flight_cancel r i auth = (out, r')"
  shows "(out = Aborted \<longleftrightarrow> (\<exists>owner task. map_of (ifr_entries r) i = Some (owner, task) \<and> is_query_owner auth owner))"
    and "out = Aborted \<Longrightarrow> map_of (ifr_entries r) i = Some (owner, task) \<Longrightarrow> ifr_aborted r' = ifr_aborted r @ [task]"
    and "out \<noteq> Aborted \<Longrightarrow> r' = r"
    and "ifr_entries r' = ifr_entries r"
  using assms
  by (auto simp: in_flight_cancel_def require_query_owner_def split: option.splits sum.splits if_splits)

lemma in_flight_finished_not_cancelled:
  "fst (in_flight_cancel (in_flight_unregister r i) i auth) = NotFound"
  by (simp add: in_flight_cancel_def in_flight_unregister_def delete_conv')

text \<open>Group access of the allow-lists: an open or unknown group admits everybody.\<close>

lemma simple_check_iff:
  "simple_check policies auth grp \<longleftrightarrow>
     (\<forall>p. map_of policies grp = Some p \<longrightarrow>
        ga_allow_groups p = [] \<and> ga_allow_users p = []
        \<or> auth_user auth \<in> set (ga_allow_users p) \<or> set (auth_groups auth) \<inter> set (ga_allow_groups p) \<noteq> {})"
  by (auto simp: simple_check_def list_ex_iff split: option.splits)

end
