(* ===== verification/Dispatch_Slot.thy ===== *)
theory Dispatch_Slot
  imports Access_Guard Authorization Cluster_Manager In_Memory Router_Chain
begin

text \<open>
  The pieces of \<open>crates/queryflux-frontend/src/dispatch.rs\<close> that both ways of running a query share: the
  record of what happened to the SQL (\<open>sql_pipeline.rs\<close>) and to the query (\<open>state.rs\<close>), the admission
  gate, the fleet-wide lease, the queue, and the guard that owns a cluster slot. Other tasks
  and replicas run between any two calls a query makes, so what a call finds is an argument: the
  state of the cluster manager at that moment, or the reply of the store. What the query does to the
  world is the list of its calls. Calendar times are in milliseconds.
\<close>

section \<open>The record of a query\<close>

datatype QueryParam =
    P_Text string
  | P_Numeric string
  | P_Boolean bool
  | P_Date string
  | P_Timestamp string
  | P_Time string
  | P_Null

type_synonym QueryParams = "QueryParam list"

datatype QueryStatus = S_Success | S_Failed | S_Cancelled | S_Denied

record SqlPipelineMeta =
  pm_was_rewritten :: bool
  pm_rewritten_sql :: "string option"
  pm_was_translated :: bool
  pm_translated_sql :: "string option"

definition pipeline_compute :: "string \<Rightarrow> string \<Rightarrow> bool \<Rightarrow> SqlPipelineMeta" where
  "pipeline_compute access_controlled engine access_control_rewrote =
     \<lparr>pm_was_rewritten = access_control_rewrote,
      pm_rewritten_sql = (if access_control_rewrote then Some access_controlled else None),
      pm_was_translated = (engine \<noteq> access_controlled),
      pm_translated_sql = (if engine \<noteq> access_controlled then Some engine else None)\<rparr>"

definition engine_sql_for_fingerprint :: "SqlPipelineMeta \<Rightarrow> string option" where
  "engine_sql_for_fingerprint m =
     (if pm_was_translated m then pm_translated_sql m
      else if pm_was_rewritten m then pm_rewritten_sql m
      else None)"

definition pipeline_from_executing :: "ExecutingQuery \<Rightarrow> string \<times> SqlPipelineMeta" where
  "pipeline_from_executing e =
     (case ex_client_sql e of
        Some client \<Rightarrow>
          (client, \<lparr>pm_was_rewritten = (ex_rewritten_sql e \<noteq> None), pm_rewritten_sql = ex_rewritten_sql e,
             pm_was_translated = ex_was_dialect_translated e,
             pm_translated_sql = (if ex_was_dialect_translated e then Some (ex_sql e) else None)\<rparr>)
      | None \<Rightarrow>
          (case ex_translated_sql e of
             Some original \<Rightarrow>
               let changed = (ex_sql e \<noteq> original) in
               (original, \<lparr>pm_was_rewritten = False, pm_rewritten_sql = None, pm_was_translated = changed,
                  pm_translated_sql = (if changed then Some (ex_sql e) else None)\<rparr>)
           | None \<Rightarrow>
               (ex_sql e, \<lparr>pm_was_rewritten = False, pm_rewritten_sql = None, pm_was_translated = False,
                  pm_translated_sql = None\<rparr>)))"

record QueryContext =
  qc_query_id :: ProxyQueryId
  qc_sql :: string
  qc_session :: SessionContext
  qc_protocol :: FrontendProtocol
  qc_group :: ClusterGroupName
  qc_cluster :: ClusterName
  qc_cluster_group_config_id :: "int option"
  qc_cluster_config_id :: "int option"
  qc_engine_type :: EngineType
  qc_src_dialect :: SqlDialect
  qc_tgt_dialect :: SqlDialect
  qc_pipeline :: SqlPipelineMeta
  qc_translation :: "TranslationOutcome option"
  qc_query_tags :: QueryTags
  qc_query_params :: QueryParams
  qc_agent_context :: "AgentContext option"

record QueryOutcome =
  qo_backend_query_id :: "string option"
  qo_status :: QueryStatus
  qo_execution_ms :: u64
  qo_rows :: "u64 option"
  qo_error :: "string option"
  qo_routing_trace :: "RoutingTrace option"
  qo_engine_stats :: "json option"
  qo_guard_actions :: "GuardAction list"
  qo_was_guard_blocked :: bool
  qo_queue_duration_ms :: u64
  qo_cache_hit :: bool

text \<open>The fields most outcomes leave empty.\<close>

definition query_outcome :: "QueryStatus \<Rightarrow> string option \<Rightarrow> GuardAction list \<Rightarrow> QueryOutcome" where
  "query_outcome status err actions =
     \<lparr>qo_backend_query_id = None, qo_status = status, qo_execution_ms = 0, qo_rows = None, qo_error = err,
      qo_routing_trace = None, qo_engine_stats = None, qo_guard_actions = actions, qo_was_guard_blocked = False,
      qo_queue_duration_ms = 0, qo_cache_hit = False\<rparr>"

definition apply_pipeline :: "QueryContext \<Rightarrow> SqlPipelineMeta \<Rightarrow> QueryContext" where
  "apply_pipeline ctx m = ctx\<lparr>qc_pipeline := m\<rparr>"

definition no_pipeline :: SqlPipelineMeta where
  "no_pipeline = \<lparr>pm_was_rewritten = False, pm_rewritten_sql = None, pm_was_translated = False, pm_translated_sql = None\<rparr>"

section \<open>Calls\<close>

text \<open>A batch of rows: its schema, its number of rows and its contents; and what a client is sent.\<close>

record RecordBatch =
  rb_schema :: string
  rb_rows :: u64
  rb_data :: string

record QueryStats =
  qs_queue_duration_ms :: u64
  qs_execution_duration_ms :: u64
  qs_rows_returned :: u64
  qs_bytes_returned :: "u64 option"
  qs_affected_rows :: "u64 option"

datatype SinkEvent =
    On_Schema string
  | On_Batch RecordBatch
  | On_Native_Chunk RecordBatch
  | On_Error string
  | On_Complete QueryStats
  | On_Translated_Sql string

text \<open>
  The cluster manager, the capacity store, the metrics, the persistence, the engines, the result
  cache and the client, as a query calls them.
\<close>

datatype Call =
    AcquiredSlot ClusterGroupName ClusterName
  | ReleaseCluster ClusterGroupName ClusterName
  | BackendReported ClusterGroupName ClusterName BackendOutcome
  | SlotHandedOver ClusterGroupName ClusterName
  | CapTryAcquire ClusterName u64 string string
  | CapRelease ClusterName string
  | CapWaitForGrant ClusterName string duration
  | QueryStarted ClusterGroupName ClusterName
  | QueryFinished ClusterGroupName ClusterName
  | LeaseDenied ClusterGroupName ClusterName
  | CoordinationFailure string
  | QueueFullCounted ClusterGroupName
  | TranslationCounted TranslationOutcome
  | AuthFailureCounted FrontendProtocol
  | CacheHitCounted ClusterGroupName
  | CacheMissCounted ClusterGroupName
  | CacheWriteCounted ClusterGroupName
  | RecordQuery QueryContext QueryOutcome
  | UpsertQueued QueuedQuery
  | DeleteQueued ProxyQueryId
  | TakeQueued ProxyQueryId
  | TouchQueued ProxyQueryId
  | TryClaim ProxyQueryId string time
  | ReleaseClaim ProxyQueryId
  | UpsertExecuting ExecutingQuery
  | DeleteExecuting BackendQueryId
  | TouchExecuting BackendQueryId time
  | Submit ClusterName string SessionContext QueryCredentials QueryTags QueryParams
  | Execute ClusterName bool string SessionContext QueryCredentials QueryTags QueryParams
  | PollBackend BackendQueryId string "StoredWireAuth option"
  | CancelBackend BackendQueryId "StoredWireAuth option"
  | CacheLookup string
  | CacheWriter string u64
  | CacheSchema string
  | CacheBatch RecordBatch
  | CacheFinish bool
  | Sink SinkEvent
  | Backoff duration

section \<open>Dialects and outcomes\<close>

definition resolve_src_dialect :: "SessionContext \<Rightarrow> FrontendProtocol \<Rightarrow> SqlDialect" where
  "resolve_src_dialect session protocol =
     (case extra_get session ''dialect'' of Some name \<Rightarrow> D_Sqlglot name | None \<Rightarrow> default_dialect protocol)"

definition should_resolve_schema :: "bool \<Rightarrow> bool \<Rightarrow> bool" where
  "should_resolve_schema attempt_translation access_control_enabled \<longleftrightarrow> attempt_translation \<or> access_control_enabled"

definition should_attempt_translation :: "SessionContext \<Rightarrow> FrontendProtocol \<Rightarrow> bool" where
  "should_attempt_translation session protocol \<longleftrightarrow> protocol \<noteq> Mcp \<or> extra_get session ''dialect'' \<noteq> None"

fun backend_error_outcome :: "QueryFluxError \<Rightarrow> BackendOutcome" where
  "backend_error_outcome (BackendFailure _) = BO_Failure"
| "backend_error_outcome (BackendTimeout _) = BO_Timeout"
| "backend_error_outcome _ = BO_Success"

definition cluster_db_ids :: "Manager \<Rightarrow> ClusterGroupName \<Rightarrow> ClusterName \<Rightarrow> int option \<times> int option" where
  "cluster_db_ids m grp cluster =
     (case cluster_state m grp cluster of
        Some s \<Rightarrow> (snap_cluster_group_config_id s, snap_cluster_config_id s)
      | None \<Rightarrow> (None, None))"

definition trim_end_slashes :: "string \<Rightarrow> string" where
  "trim_end_slashes s = rev (dropWhile (\<lambda>c. c = CHR ''/'') (rev s))"

definition rewrite_trino_uri :: "string \<Rightarrow> string \<Rightarrow> string" where
  "rewrite_trino_uri trino_uri external_address =
     (case find_str ''/v1/'' trino_uri of
        Some (_, path) \<Rightarrow> trim_end_slashes external_address @ ''/v1/'' @ path
      | None \<Rightarrow> trino_uri)"

section \<open>Admission\<close>

definition effective_max_running :: "Manager \<Rightarrow> ClusterGroupName \<Rightarrow> ClusterName \<Rightarrow> u64" where
  "effective_max_running m grp cluster =
     (case cluster_state m grp cluster of Some s \<Rightarrow> snap_max_running_queries s | None \<Rightarrow> - 1)"

definition QUEUE_ACTIVE_WINDOW_MS :: time where
  "QUEUE_ACTIVE_WINDOW_MS = 15 * 1000"

text \<open>
  \<open>older_waiters\<close> is the reply of the queue store. The sum of the free slots wraps, as it does in a
  release build.
\<close>

definition free_slots :: "Manager \<Rightarrow> ClusterGroupName \<Rightarrow> u64" where
  "free_slots m grp =
     sum_list (map (\<lambda>s. saturating_sub (snap_max_running_queries s) (snap_running_queries s))
       (filter (\<lambda>s. snap_group_name s = grp \<and> snap_can_accept_query s) (all_cluster_states m)))"

definition should_yield_to_older_queued :: "Manager \<Rightarrow> ClusterGroupName \<Rightarrow> u64 result \<Rightarrow> bool" where
  "should_yield_to_older_queued m grp older_waiters =
     (if free_slots m grp = 0 then False
      else (case older_waiters of Inr older \<Rightarrow> free_slots m grp \<le> older | Inl _ \<Rightarrow> False))"

datatype CapacityGrant = Granted | Denied_Grant | Unavailable

record AppState =
  app_external_address :: string
  app_instance_id :: string
  app_has_capacity_store :: bool

definition acquire_global_capacity ::
  "AppState \<Rightarrow> Manager \<Rightarrow> bool result \<Rightarrow> ClusterGroupName \<Rightarrow> ClusterName \<Rightarrow> string \<Rightarrow> CapacityGrant \<times> Call list" where
  "acquire_global_capacity app m try_acquire grp cluster query_id =
     (if \<not> app_has_capacity_store app then (Granted, [])
      else
        (let max_rq = effective_max_running m grp cluster;
             asked = CapTryAcquire cluster max_rq (app_instance_id app) query_id
         in
         if max_rq = - 1 then (Granted, [])
         else
           (case try_acquire of
              Inr True \<Rightarrow> (Granted, [asked])
            | Inr False \<Rightarrow> (Denied_Grant, [asked, LeaseDenied grp cluster])
            | Inl _ \<Rightarrow> (Unavailable, [asked, CoordinationFailure ''capacity_acquire'']))))"

text \<open>\<open>depth\<close> and \<open>stored\<close> are the replies of the queue store to the count and to the insertion.\<close>

definition queue_limit_error :: "bool \<Rightarrow> u64 option \<Rightarrow> u64 result \<Rightarrow> ClusterGroupName \<Rightarrow> QueryFluxError option" where
  "queue_limit_error already_stored max_queued depth grp =
     (if already_stored then None
      else
        (case max_queued of
           None \<Rightarrow> None
         | Some lim \<Rightarrow>
             if lim = 0 then None
             else
               (let count = (case depth of Inr n \<Rightarrow> n | Inl _ \<Rightarrow> 0) in
                if lim \<le> count then Some (QueueFull grp count lim) else None)))"

definition persist_queued_query ::
  "AppState \<Rightarrow> u64 result \<Rightarrow> unit result \<Rightarrow> time \<Rightarrow> ProxyQueryId \<Rightarrow> string \<Rightarrow> SessionContext \<Rightarrow> FrontendProtocol
   \<Rightarrow> ClusterGroupName \<Rightarrow> bool \<Rightarrow> u64 \<Rightarrow> u64 option \<Rightarrow> AuthContext \<Rightarrow> string result \<times> Call list" where
  "persist_queued_query app depth stored now query_id sql session protocol grp already_stored sequence max_queued auth =
     (case queue_limit_error already_stored max_queued depth grp of
        Some e \<Rightarrow> (Inl e, [QueueFullCounted grp])
      | None \<Rightarrow>
          let row = \<lparr>qq_id = query_id, qq_sql = sql, qq_session = without_auth_headers session,
                qq_frontend_protocol = protocol, qq_cluster_group = grp, qq_creation_time = now,
                qq_last_accessed = now, qq_sequence = sequence, qq_submitted_by = auth_user auth\<rparr>
          in (case stored of
                Inl e \<Rightarrow> Inl e
              | Inr _ \<Rightarrow>
                  Inr (app_external_address app @ ''/v1/statement/qf/queued/'' @ query_id @ ''/''
                    @ show_nat (unat (sequence + 1))),
              [UpsertQueued row]))"

definition queued_backoff :: "u64 \<Rightarrow> duration" where
  "queued_backoff seq = min (100 * 2 ^ (min (unat seq) 4)) 2000 * 10 ^ 6"

section \<open>The slot guard\<close>

record ClusterSlotGuard =
  sg_group :: ClusterGroupName
  sg_cluster :: ClusterName
  sg_capacity_store :: bool
  sg_query_id :: string
  sg_started :: bool
  sg_released :: bool

definition slot_new :: "AppState \<Rightarrow> ClusterGroupName \<Rightarrow> ClusterName \<Rightarrow> string \<Rightarrow> ClusterSlotGuard" where
  "slot_new app grp cluster query_id =
     \<lparr>sg_group = grp, sg_cluster = cluster, sg_capacity_store = app_has_capacity_store app,
      sg_query_id = query_id, sg_started = False, sg_released = False\<rparr>"

definition mark_started :: "ClusterSlotGuard \<Rightarrow> ClusterSlotGuard \<times> Call list" where
  "mark_started s =
     (if sg_started s then (s, [])
      else (s\<lparr>sg_started := True\<rparr>, [QueryStarted (sg_group s) (sg_cluster s)]))"

definition disarm :: "ClusterSlotGuard \<Rightarrow> ClusterSlotGuard \<times> Call list" where
  "disarm s = (s\<lparr>sg_released := True\<rparr>, if sg_released s then [] else [SlotHandedOver (sg_group s) (sg_cluster s)])"

definition slot_backend_outcome :: "ClusterSlotGuard \<Rightarrow> BackendOutcome \<Rightarrow> Call list" where
  "slot_backend_outcome s bo = [BackendReported (sg_group s) (sg_cluster s) bo]"

definition finished_calls :: "ClusterSlotGuard \<Rightarrow> Call list" where
  "finished_calls s = (if sg_started s then [QueryFinished (sg_group s) (sg_cluster s)] else [])"

definition release_local :: "ClusterSlotGuard \<Rightarrow> ClusterSlotGuard \<times> Call list" where
  "release_local s =
     (if sg_released s then (s, [])
      else (s\<lparr>sg_released := True\<rparr>, ReleaseCluster (sg_group s) (sg_cluster s) # finished_calls s))"

text \<open>\<open>reply\<close> is what the capacity store answers to the release.\<close>

definition release_calls :: "unit result \<Rightarrow> ClusterSlotGuard \<Rightarrow> Call list" where
  "release_calls reply s =
     [ReleaseCluster (sg_group s) (sg_cluster s)]
     @ (if sg_capacity_store s then
          CapRelease (sg_cluster s) (sg_query_id s)
            # (case reply of Inl _ \<Rightarrow> [CoordinationFailure ''capacity_release''] | Inr _ \<Rightarrow> [])
        else [])
     @ finished_calls s"

definition slot_release :: "unit result \<Rightarrow> ClusterSlotGuard \<Rightarrow> ClusterSlotGuard \<times> Call list" where
  "slot_release reply s =
     (if sg_released s then (s, []) else (s\<lparr>sg_released := True\<rparr>, release_calls reply s))"

text \<open>Dropping the guard spawns the same release as a task.\<close>

definition slot_drop :: "unit result \<Rightarrow> ClusterSlotGuard \<Rightarrow> Call list" where
  "slot_drop reply s = (if sg_released s then [] else release_calls reply s)"

definition release_query_slot :: "AppState \<Rightarrow> unit result \<Rightarrow> ClusterGroupName \<Rightarrow> ClusterName \<Rightarrow> string \<Rightarrow> Call list" where
  "release_query_slot app reply grp cluster query_id =
     [QueryFinished grp cluster, ReleaseCluster grp cluster]
     @ (if app_has_capacity_store app then
          CapRelease cluster query_id
            # (case reply of Inl _ \<Rightarrow> [CoordinationFailure ''capacity_release''] | Inr _ \<Rightarrow> [])
        else [])"

text \<open>\<open>removed\<close> is the reply of the store to the deletion: whether this call removed the row.\<close>

definition end_executing_query :: "AppState \<Rightarrow> unit result \<Rightarrow> bool result \<Rightarrow> ExecutingQuery \<Rightarrow> bool \<times> Call list" where
  "end_executing_query app reply removed e =
     (let release = release_query_slot app reply (ex_cluster_group e) (ex_cluster_name e) (ex_id e);
          asked = DeleteExecuting (ex_backend_query_id e)
      in case removed of
           Inr False \<Rightarrow> (False, [asked])
         | _ \<Rightarrow> (True, asked # release))"

definition deny_and_record ::
  "unit result \<Rightarrow> ClusterSlotGuard \<Rightarrow> QueryContext \<Rightarrow> string \<Rightarrow> u64 \<Rightarrow> GuardAction list
   \<Rightarrow> QueryFluxError \<times> ClusterSlotGuard \<times> Call list" where
  "deny_and_record reply slot ctx reason execution_ms actions =
     (case slot_release reply slot of
        (slot', released) \<Rightarrow>
          (Unauthorized reason, slot',
           RecordQuery ctx ((query_outcome S_Denied (Some reason) actions)
             \<lparr>qo_execution_ms := execution_ms, qo_was_guard_blocked := True\<rparr>) # released))"

section \<open>Accounting\<close>

text \<open>
  What a list of calls does to the slots of one cluster of a group, and to the number of its running
  queries: an acquired slot is owed until it is released or handed over with the query.
\<close>

datatype cluster_key = Slots_Of ClusterGroupName ClusterName

definition at_key :: "cluster_key \<Rightarrow> ClusterGroupName \<Rightarrow> ClusterName \<Rightarrow> bool" where
  "at_key k g c \<longleftrightarrow> k = Slots_Of g c"

fun slot_change :: "cluster_key \<Rightarrow> Call \<Rightarrow> int" where
  "slot_change k (AcquiredSlot g c) = (if at_key k g c then 1 else 0)"
| "slot_change k (ReleaseCluster g c) = (if at_key k g c then -1 else 0)"
| "slot_change k (SlotHandedOver g c) = (if at_key k g c then -1 else 0)"
| "slot_change k _ = 0"

fun running_change :: "cluster_key \<Rightarrow> Call \<Rightarrow> int" where
  "running_change k (QueryStarted g c) = (if at_key k g c then 1 else 0)"
| "running_change k (QueryFinished g c) = (if at_key k g c then -1 else 0)"
| "running_change k (SlotHandedOver g c) = (if at_key k g c then -1 else 0)"
| "running_change k _ = 0"

definition slots_owed :: "cluster_key \<Rightarrow> Call list \<Rightarrow> int" where
  "slots_owed k cs = sum_list (map (slot_change k) cs)"

definition running_owed :: "cluster_key \<Rightarrow> Call list \<Rightarrow> int" where
  "running_owed k cs = sum_list (map (running_change k) cs)"

lemma slots_owed_simps [simp]:
  "slots_owed k [] = 0" "slots_owed k (c # cs) = slot_change k c + slots_owed k cs"
  "slots_owed k (cs @ ds) = slots_owed k cs + slots_owed k ds"
  by (simp_all add: slots_owed_def)

lemma running_owed_simps [simp]:
  "running_owed k [] = 0" "running_owed k (c # cs) = running_change k c + running_owed k cs"
  "running_owed k (cs @ ds) = running_owed k cs + running_owed k ds"
  by (simp_all add: running_owed_def)

definition slot_debt :: "cluster_key \<Rightarrow> ClusterSlotGuard \<Rightarrow> int" where
  "slot_debt k s = (if sg_released s \<or> \<not> at_key k (sg_group s) (sg_cluster s) then 0 else 1)"

definition running_debt :: "cluster_key \<Rightarrow> ClusterSlotGuard \<Rightarrow> int" where
  "running_debt k s = (if sg_started s \<and> \<not> sg_released s \<and> at_key k (sg_group s) (sg_cluster s) then 1 else 0)"

text \<open>A step of the guard pays exactly what it no longer owes, and stays on its slot.\<close>

definition guard_step :: "cluster_key \<Rightarrow> ClusterSlotGuard \<Rightarrow> ClusterSlotGuard \<Rightarrow> Call list \<Rightarrow> bool" where
  "guard_step k s s' cs \<longleftrightarrow>
     slot_debt k s + slots_owed k cs = slot_debt k s' \<and> running_debt k s + running_owed k cs = running_debt k s'
     \<and> sg_group s' = sg_group s \<and> sg_cluster s' = sg_cluster s \<and> sg_query_id s' = sg_query_id s
     \<and> sg_capacity_store s' = sg_capacity_store s \<and> (sg_released s \<longrightarrow> sg_released s')"

lemma guard_step_refl [simp]: "guard_step k s s []"
  by (simp add: guard_step_def)

lemma guard_step_trans: "guard_step k s t cs \<Longrightarrow> guard_step k t u ds \<Longrightarrow> guard_step k s u (cs @ ds)"
  by (auto simp: guard_step_def)

lemmas guard_defs = guard_step_def slot_debt_def running_debt_def release_calls_def finished_calls_def

lemma guard_step_started: "mark_started s = (s', cs) \<Longrightarrow> \<not> sg_released s \<Longrightarrow> guard_step k s s' cs \<and> sg_started s' \<and> \<not> sg_released s'"
  by (auto simp: mark_started_def guard_defs split: if_splits)

lemma guard_step_release: "slot_release reply s = (s', cs) \<Longrightarrow> guard_step k s s' cs \<and> sg_released s'"
  by (auto simp: slot_release_def guard_defs split: if_splits sum.splits)

lemma guard_step_release_local: "release_local s = (s', cs) \<Longrightarrow> guard_step k s s' cs \<and> sg_released s'"
  by (auto simp: release_local_def guard_defs split: if_splits)

lemma guard_step_drop: "slot_drop reply s = cs \<Longrightarrow> slot_debt k s + slots_owed k cs = 0 \<and> running_debt k s + running_owed k cs = 0"
  by (auto simp: slot_drop_def guard_defs split: if_splits sum.splits)

lemma capacity_calls_silent:
  "acquire_global_capacity app m reply grp c q = (g, cs) \<Longrightarrow> slots_owed k cs = 0 \<and> running_owed k cs = 0"
  by (auto simp: acquire_global_capacity_def Let_def split: if_splits sum.splits bool.splits)

lemma guard_step_deny:
  "deny_and_record reply s ctx reason ms actions = (e, s', cs) \<Longrightarrow> guard_step k s s' cs \<and> sg_released s'"
proof -
  assume d: "deny_and_record reply s ctx reason ms actions = (e, s', cs)"
  obtain s1 ds where r: "slot_release reply s = (s1, ds)" by (cases "slot_release reply s")
  then have "s' = s1" "\<exists>a b. cs = RecordQuery a b # ds" using d by (auto simp: deny_and_record_def)
  then show ?thesis using guard_step_release [OF r, of k] by (auto simp: guard_step_def)
qed


text \<open>
  \<open>release\<close> marks the guard as released before its first \<open>await\<close>. When the future is dropped while
  the capacity store is still being asked, the drop does nothing more: the local slot is back, but the
  query is never reported as finished.
\<close>

lemma release_cut_loses_finish:
  assumes "sg_started s" "\<not> sg_released s" "sg_capacity_store s" "slot_release reply s = (s', cs)"
  shows "\<exists>cut rest. cs = cut @ rest \<and> slot_debt k s + slots_owed k (cut @ slot_drop reply s') = 0
    \<and> (at_key k (sg_group s) (sg_cluster s) \<longrightarrow> running_debt k s + running_owed k (cut @ slot_drop reply s') = 1)"
proof (rule exI [of _ "[ReleaseCluster (sg_group s) (sg_cluster s), CapRelease (sg_cluster s) (sg_query_id s)]"],
    rule exI [of _ "drop 2 cs"])
qed (use assms in \<open>auto simp: slot_release_def slot_drop_def guard_defs\<close>)

text \<open>
  A row of the queue has the caller's SQL and name, the group it was sent to and the next place in the
  line, and no credential; a new row is refused exactly when the group has a limit and has reached it.
\<close>

lemma queued_row:
  assumes "persist_queued_query app depth stored now q sql session protocol grp already seq mx auth = (res, cs)"
  shows "UpsertQueued row \<in> set cs \<Longrightarrow>
      qq_id row = q \<and> qq_sql row = sql \<and> qq_cluster_group row = grp \<and> qq_submitted_by row = auth_user auth
      \<and> qq_sequence row = seq \<and> qq_session row = without_auth_headers session"
    and "cs = [QueueFullCounted grp] \<longleftrightarrow>
      \<not> already \<and> (\<exists>lim. mx = Some lim \<and> lim \<noteq> 0 \<and> lim \<le> (case depth of Inr n \<Rightarrow> n | Inl _ \<Rightarrow> 0))"
  using assms by (auto simp: persist_queued_query_def queue_limit_error_def Let_def split: option.splits if_splits sum.splits)

end
