(* ===== verification/Dispatch.thy ===== *)
theory Dispatch
  imports Dispatch_Slot
begin

text \<open>
  The asynchronous way of running a query, \<open>dispatch_query\<close> of \<open>crates/queryflux-frontend/src/dispatch.rs\<close>,
  stage by stage: admission, identity, access control on the client's SQL, translation, guardrails
  on the engine's SQL, submission and hand-over. A stage gives what the next one needs, or the
  result with which the function returns and the slot guard it then drops; both come with the calls
  made. What a call of another part of the system finds is a field of \<open>DispatchWorld\<close>.
\<close>

section \<open>Arguments\<close>

record Adapter =
  adp_engine_type :: EngineType
  adp_dialect :: SqlDialect
  adp_base_url :: string

datatype AdapterKind = SyncAdapter Adapter | AsyncAdapter Adapter

record ClusterCfg =
  ccfg_query_auth :: "QueryAuthConfig option"
  ccfg_sets_http_authorization :: bool

record LiveConfig =
  lv_authorization :: Checker
  lv_default_tags :: "(string \<times> QueryTags) list"
  lv_guard_chain :: "Guard list option"
  lv_group_guard_chains :: "(string \<times> Guard list) list"
  lv_access_guard :: "OpaAccessGuard option"
  lv_cluster_configs :: "(string \<times> ClusterCfg) list"
  lv_adapters :: "(string \<times> AdapterKind) list"
  lv_max_queued :: "(string \<times> u64 option) list"

record DispatchRequest =
  dr_query_id :: ProxyQueryId
  dr_sql :: string
  dr_params :: QueryParams
  dr_session :: SessionContext
  dr_protocol :: FrontendProtocol
  dr_group :: ClusterGroupName
  dr_already_queued :: bool
  dr_queued_since :: "time option"
  dr_sequence :: u64
  dr_auth :: AuthContext

datatype QueryExecution =
    Running BackendQueryId "string option" "string option"
  | Completed BackendQueryId QueryStatus "string option" "json option" "string option"

datatype DispatchOutcome = Queued string | Async "string option" "string option"

record DispatchWorld =
  dw_fga :: "TupleKey \<Rightarrow> FgaReply"
  dw_mgr_gate :: Manager
  dw_older_waiters :: "u64 result"
  dw_mgr_acquire :: Manager
  dw_interference :: interference
  dw_python :: python
  dw_mgr_limit :: Manager
  dw_try_acquire :: "bool result"
  dw_release_reply :: "unit result"
  dw_queue_depth :: "u64 result"
  dw_queue_stored :: "unit result"
  dw_mgr_ids :: Manager
  dw_credentials :: "QueryAuthConfig option \<Rightarrow> QueryCredentials result"
  dw_access :: access_world
  dw_translate :: "string \<Rightarrow> SqlDialect \<Rightarrow> SqlDialect \<Rightarrow> string result \<times> TranslationOutcome"
  dw_interpolate :: "string \<Rightarrow> QueryParams \<Rightarrow> (string \<times> Expression list option) result"
  dw_guards :: world
  dw_action_to_json :: "GuardAction \<Rightarrow> string + json"
  dw_actions_from_json :: "json list \<Rightarrow> GuardAction list option"
  dw_submit :: "QueryExecution result"
  dw_executing_stored :: "unit result"
  dw_show_error :: "QueryFluxError \<Rightarrow> string"
  dw_now_queue :: time
  dw_now_started :: time
  dw_now_submitted :: time
  dw_now_done :: time

section \<open>Stages\<close>

datatype 'a stage = Return "DispatchOutcome result" "ClusterSlotGuard option" | Next 'a

definition andThen :: "'a stage \<times> Call list \<Rightarrow> ('a \<Rightarrow> 'b stage \<times> Call list) \<Rightarrow> 'b stage \<times> Call list" where
  "andThen m f =
     (case m of
        (Return r s, cs) \<Rightarrow> (Return r s, cs)
      | (Next x, cs) \<Rightarrow> (case f x of (y, ds) \<Rightarrow> (y, cs @ ds)))"

definition ms_between :: "time \<Rightarrow> time \<Rightarrow> u64" where
  "ms_between from_t to_t = of_int (max (to_t - from_t) 0)"

definition dq_queue :: "AppState \<Rightarrow> LiveConfig \<Rightarrow> DispatchWorld \<Rightarrow> DispatchRequest \<Rightarrow> 'a stage \<times> Call list" where
  "dq_queue app live w r =
     (case persist_queued_query app (dw_queue_depth w) (dw_queue_stored w) (dw_now_queue w) (dr_query_id r) (dr_sql r)
             (dr_session r) (dr_protocol r) (dr_group r) (dr_already_queued r) (dr_sequence r)
             (Option.bind (map_of (lv_max_queued live) (dr_group r)) id) (dr_auth r) of
        (Inl e, cs) \<Rightarrow> (Return (Inl e) None, cs)
      | (Inr uri, cs) \<Rightarrow> (Return (Inr (Queued uri)) None, cs))"

definition dq_admit :: "AppState \<Rightarrow> LiveConfig \<Rightarrow> DispatchWorld \<Rightarrow> DispatchRequest \<Rightarrow> ClusterSlotGuard stage \<times> Call list" where
  "dq_admit app live w r =
     (if \<not> check (dw_fga w) (lv_authorization live) (dr_auth r) (dr_group r) then
        (Return (Inl (Unauthorized (''user '' @ squote (auth_user (dr_auth r))
           @ '' is not authorized to run queries on cluster group '' @ squote (dr_group r)))) None, [])
      else if should_yield_to_older_queued (dw_mgr_gate w) (dr_group r) (dw_older_waiters w) then
        dq_queue app live w r
      else
        (case fst (acquire_cluster (dw_interference w) (dw_python w) (dw_mgr_acquire w) (dr_group r)) of
           Inl e \<Rightarrow> (Return (Inl e) None, [])
         | Inr None \<Rightarrow> dq_queue app live w r
         | Inr (Some c) \<Rightarrow>
             let slot = slot_new app (dr_group r) c (dr_query_id r) in
             (case acquire_global_capacity app (dw_mgr_limit w) (dw_try_acquire w) (dr_group r) c (dr_query_id r) of
                (grant, asked) \<Rightarrow>
                  (case grant of
                     Granted \<Rightarrow> (Next slot, AcquiredSlot (dr_group r) c # asked)
                   | Denied_Grant \<Rightarrow>
                       (case dq_queue app live w r of
                          (q, cs) \<Rightarrow> (q, AcquiredSlot (dr_group r) c # asked @ snd (release_local slot) @ cs))
                   | Unavailable \<Rightarrow>
                       (case dq_queue app live w r of
                          (q, cs) \<Rightarrow>
                            (q, AcquiredSlot (dr_group r) c # asked @ snd (slot_release (dw_release_reply w) slot) @ cs))))))"

record Job =
  j_slot :: ClusterSlotGuard
  j_queue_ms :: u64
  j_group_config_id :: "int option"
  j_cluster_config_id :: "int option"
  j_credentials :: QueryCredentials
  j_session :: SessionContext
  j_wire_auth :: "StoredWireAuth option"
  j_adapter :: Adapter
  j_src :: SqlDialect
  j_tags :: QueryTags
  j_agent :: "AgentContext option"

definition dq_prepare ::
  "LiveConfig \<Rightarrow> DispatchWorld \<Rightarrow> DispatchRequest \<Rightarrow> ClusterSlotGuard \<Rightarrow> Job stage \<times> Call list" where
  "dq_prepare live w r slot0 =
     (let cluster = sg_cluster slot0;
          (gid, cid) = cluster_db_ids (dw_mgr_ids w) (dr_group r) cluster;
          (slot, started) = mark_started slot0;
          cfg = map_of (lv_cluster_configs live) cluster;
          fail = (\<lambda>e. case slot_release (dw_release_reply w) slot of
                        (slot', released) \<Rightarrow> (Return (Inl e) (Some slot'), started @ released))
      in
      case dw_credentials w (Option.bind cfg ccfg_query_auth) of
        Inl e \<Rightarrow> fail e
      | Inr credentials \<Rightarrow>
          let session = enrich_session_for_passthrough (dr_session r) credentials (dr_auth r);
              sets = (case cfg of Some c \<Rightarrow> ccfg_sets_http_authorization c | None \<Rightarrow> False)
          in
          (case map_of (lv_adapters live) cluster of
             None \<Rightarrow> fail (Engine (''No adapter for '' @ dr_group r @ ''/'' @ cluster))
           | Some (SyncAdapter _) \<Rightarrow> fail (SyncEngineRequired cluster)
           | Some (AsyncAdapter a) \<Rightarrow>
               (Next
                 \<lparr>j_slot = slot,
                  j_queue_ms = (case dr_queued_since r of Some t \<Rightarrow> ms_between t (dw_now_started w) | None \<Rightarrow> 0),
                  j_group_config_id = gid, j_cluster_config_id = cid, j_credentials = credentials,
                  j_session = session, j_wire_auth = resolve_stored_wire_auth credentials session sets,
                  j_adapter = a, j_src = resolve_src_dialect session (dr_protocol r),
                  j_tags = merge_tags (case map_of (lv_default_tags live) (dr_group r) of Some t \<Rightarrow> t | None \<Rightarrow> [])
                    (sess_tags (dr_session r)),
                  j_agent = resolved_agent_context (dr_session r)\<rparr>,
                started)))"

definition job_context ::
  "DispatchRequest \<Rightarrow> Job \<Rightarrow> SqlPipelineMeta \<Rightarrow> TranslationOutcome option \<Rightarrow> QueryParams \<Rightarrow> AgentContext option \<Rightarrow> QueryContext" where
  "job_context r j pipeline translation params agent =
     \<lparr>qc_query_id = dr_query_id r, qc_sql = dr_sql r, qc_session = j_session j, qc_protocol = dr_protocol r,
      qc_group = dr_group r, qc_cluster = sg_cluster (j_slot j), qc_cluster_group_config_id = j_group_config_id j,
      qc_cluster_config_id = j_cluster_config_id j, qc_engine_type = adp_engine_type (j_adapter j),
      qc_src_dialect = j_src j, qc_tgt_dialect = adp_dialect (j_adapter j), qc_pipeline = pipeline,
      qc_translation = translation, qc_query_tags = j_tags j, qc_query_params = params, qc_agent_context = agent\<rparr>"

definition dq_deny :: "DispatchWorld \<Rightarrow> Job \<Rightarrow> QueryContext \<Rightarrow> string \<Rightarrow> GuardAction list \<Rightarrow> 'a stage \<times> Call list" where
  "dq_deny w j ctx reason actions =
     (case deny_and_record (dw_release_reply w) (j_slot j) ctx reason 0 actions of
        (e, slot', cs) \<Rightarrow> (Return (Inl e) (Some slot'), cs))"

record Checked =
  ck_job :: Job
  ck_sql :: string
  ck_rewrote :: bool
  ck_actions :: "GuardAction list"

definition dq_access :: "LiveConfig \<Rightarrow> DispatchWorld \<Rightarrow> DispatchRequest \<Rightarrow> Job \<Rightarrow> Checked stage \<times> Call list" where
  "dq_access live w r j0 =
     (case lv_access_guard live of
        None \<Rightarrow> (Next \<lparr>ck_job = j0, ck_sql = dr_sql r, ck_rewrote = False, ck_actions = []\<rparr>, [])
      | Some g \<Rightarrow>
          let j = (if applies_to_group g (dr_group r) then j0\<lparr>j_session := drop_unchecked_session_sql (j_session j0)\<rparr> else j0) in
          if enabled_for_group g (dr_group r) then
            (case run_access_control_stage (dw_access w) g
                    (stage_context (dr_sql r) (j_src j) (adp_engine_type (j_adapter j)) (dr_group r) (dr_auth r)
                      (j_session j) (j_tags j)) of
               StageAllowed action \<Rightarrow>
                 (Next \<lparr>ck_job = j, ck_sql = dr_sql r, ck_rewrote = False, ck_actions = [action]\<rparr>, [])
             | StageRewritten sql action \<Rightarrow>
                 (Next \<lparr>ck_job = j, ck_sql = sql, ck_rewrote = True, ck_actions = [action]\<rparr>, [])
             | StageDenied reason code action \<Rightarrow>
                 dq_deny w j (job_context r j no_pipeline None [] (j_agent j)) reason [action])
          else (Next \<lparr>ck_job = j, ck_sql = dr_sql r, ck_rewrote = False, ck_actions = []\<rparr>, []))"

definition dq_translate ::
  "DispatchWorld \<Rightarrow> DispatchRequest \<Rightarrow> Checked \<Rightarrow> (string \<times> TranslationOutcome) stage \<times> Call list" where
  "dq_translate w r c =
     (let j = ck_job c in
      if should_attempt_translation (j_session j) (dr_protocol r) then
        (case dw_translate w (ck_sql c) (j_src j) (adp_dialect (j_adapter j)) of
           (Inr t, tout) \<Rightarrow> (Next (t, tout), [TranslationCounted tout])
         | (Inl e, tout) \<Rightarrow>
             (case slot_release (dw_release_reply w) (j_slot j) of
                (slot', released) \<Rightarrow>
                  (Return (Inl e) (Some slot'),
                   [TranslationCounted tout,
                    RecordQuery
                      (job_context r j (no_pipeline\<lparr>pm_was_rewritten := ck_rewrote c,
                           pm_rewritten_sql := (if ck_rewrote c then Some (ck_sql c) else None)\<rparr>)
                         (Some tout) (dr_params r) (resolved_agent_context (j_session j)))
                      ((query_outcome S_Failed (Some (dw_show_error w e)) (ck_actions c))\<lparr>qo_queue_duration_ms := j_queue_ms j\<rparr>)]
                   @ (if dr_already_queued r then [DeleteQueued (dr_query_id r)] else [])
                   @ released)))
      else (Next (ck_sql c, not_needed), [TranslationCounted not_needed]))"

definition KIND_CHANGED :: string where
  "KIND_CHANGED = ''access-control invariant violated: statement kind changed from read to non-read after rewrite/translation''"

definition dq_invariant ::
  "DispatchWorld \<Rightarrow> DispatchRequest \<Rightarrow> Checked \<Rightarrow> string \<Rightarrow> TranslationOutcome \<Rightarrow> unit stage \<times> Call list" where
  "dq_invariant w r c engine_sql tout =
     (let j = ck_job c in
      if ck_rewrote c \<and> is_read_like_sql (w_parse (dw_guards w)) (dr_sql r) (j_src j)
         \<and> \<not> is_read_like_sql (w_parse (dw_guards w)) engine_sql (adp_dialect (j_adapter j)) then
        dq_deny w j
          (job_context r j (pipeline_compute (ck_sql c) engine_sql (ck_rewrote c)) (Some tout) [] (j_agent j))
          KIND_CHANGED (ck_actions c)
      else (Next (), []))"

text \<open>Interpolated SQL comes with its parse, which the guards then see instead of parsing again.\<close>

definition dq_interpolate ::
  "DispatchWorld \<Rightarrow> DispatchRequest \<Rightarrow> ClusterSlotGuard \<Rightarrow> string \<Rightarrow> (string \<times> QueryParams \<times> world) stage \<times> Call list" where
  "dq_interpolate w r slot engine_sql =
     (if dr_params r = [] then (Next (engine_sql, [], dw_guards w), [])
      else
        (case dw_interpolate w engine_sql (dr_params r) of
           Inl e \<Rightarrow> (Return (Inl e) (Some slot), [])
         | Inr (sql, stmts) \<Rightarrow>
             (Next (sql, [], case stmts of Some ss \<Rightarrow> (dw_guards w)\<lparr>w_parse := \<lambda>_ _. Some ss\<rparr> | None \<Rightarrow> dw_guards w), [])))"

definition deny_reason_of :: "GuardAction list \<Rightarrow> string" where
  "deny_reason_of actions =
     (case Option.bind (find (\<lambda>a. act_action a = ''deny'') actions) act_reason of
        Some reason \<Rightarrow> reason | None \<Rightarrow> ''query blocked by guardrail'')"

fun run_chains :: "world \<Rightarrow> GuardContext \<Rightarrow> Guard list list \<Rightarrow> GuardAction list \<Rightarrow> GuardAction list \<times> bool" where
  "run_chains gw ctx [] actions = (actions, False)"
| "run_chains gw ctx (chain # rest) actions =
     (case chain_run gw chain ctx L_Plan of
        (new, Blocked _ _) \<Rightarrow> (actions @ new, True)
      | (new, Proceed) \<Rightarrow> run_chains gw ctx rest (actions @ new))"

definition live_chains :: "LiveConfig \<Rightarrow> ClusterGroupName \<Rightarrow> Guard list list" where
  "live_chains live grp =
     (case lv_guard_chain live of Some c \<Rightarrow> [c] | None \<Rightarrow> [])
     @ (case map_of (lv_group_guard_chains live) grp of Some c \<Rightarrow> [c] | None \<Rightarrow> [])"

definition plan_context :: "DispatchRequest \<Rightarrow> Job \<Rightarrow> string \<Rightarrow> GuardContext" where
  "plan_context r j engine_sql =
     \<lparr>gx_sql = engine_sql, gx_original_sql = Some (dr_sql r), gx_dialect = adp_dialect (j_adapter j),
      gx_engine_type = adp_engine_type (j_adapter j), gx_cluster_group = dr_group r, gx_user = sess_user (j_session j),
      gx_groups = auth_groups (dr_auth r), gx_roles = auth_roles (dr_auth r), gx_attributes = auth_attributes (dr_auth r),
      gx_query_tags = j_tags j, gx_session_extra = sess_extra (j_session j)\<rparr>"

definition dq_guards ::
  "LiveConfig \<Rightarrow> DispatchWorld \<Rightarrow> DispatchRequest \<Rightarrow> Checked \<Rightarrow> SqlPipelineMeta \<Rightarrow> TranslationOutcome \<Rightarrow> world \<Rightarrow> string
   \<Rightarrow> GuardAction list stage \<times> Call list" where
  "dq_guards live w r c pipeline tout gw engine_sql =
     (case run_chains gw (plan_context r (ck_job c) engine_sql) (live_chains live (dr_group r)) (ck_actions c) of
        (actions, False) \<Rightarrow> (Next actions, [])
      | (actions, True) \<Rightarrow>
          (case slot_release (dw_release_reply w) (j_slot (ck_job c)) of
             (slot', released) \<Rightarrow>
               (Return (Inl (Engine (deny_reason_of actions))) (Some slot'),
                RecordQuery (job_context r (ck_job c) pipeline (Some tout) [] (j_agent (ck_job c)))
                  ((query_outcome S_Failed (Some (deny_reason_of actions)) actions)\<lparr>qo_was_guard_blocked := True\<rparr>)
                # released)))"

fun actions_to_json :: "(GuardAction \<Rightarrow> string + json) \<Rightarrow> GuardAction list \<Rightarrow> json list result" where
  "actions_to_json to_json [] = Inr []"
| "actions_to_json to_json (a # as) =
     (case to_json a of
        Inl e \<Rightarrow> Inl (Engine (''Failed to serialize guard action '' @ squote (act_guard a) @ '': '' @ e))
      | Inr v \<Rightarrow> (case actions_to_json to_json as of Inl e \<Rightarrow> Inl e | Inr vs \<Rightarrow> Inr (v # vs)))"

definition finalize_async_terminal_on_submit ::
  "DispatchWorld \<Rightarrow> ClusterSlotGuard \<Rightarrow> ExecutingQuery \<Rightarrow> QueryContext \<Rightarrow> QueryStatus \<Rightarrow> string option \<Rightarrow> json option
   \<Rightarrow> ClusterSlotGuard \<times> Call list" where
  "finalize_async_terminal_on_submit w slot e ctx status err stats =
     (let stored = (case dw_actions_from_json w (ex_submitted_guard_actions e) of Some as \<Rightarrow> as | None \<Rightarrow> []);
          qo = (query_outcome status err [])
             \<lparr>qo_backend_query_id := Some (ex_backend_query_id e),
              qo_execution_ms := ms_between (ex_creation_time e) (dw_now_done w),
              qo_engine_stats := stats, qo_queue_duration_ms := ex_queue_duration_ms e\<rparr>;
          qo' = (if stored \<noteq> [] then qo\<lparr>qo_guard_actions := stored, qo_was_guard_blocked := ex_was_guard_blocked e\<rparr> else qo)
      in case slot_release (dw_release_reply w) slot of
           (slot', released) \<Rightarrow> (slot', RecordQuery ctx qo' # released @ [DeleteExecuting (ex_backend_query_id e)]))"

definition dq_submit ::
  "AppState \<Rightarrow> DispatchWorld \<Rightarrow> DispatchRequest \<Rightarrow> Checked \<Rightarrow> SqlPipelineMeta \<Rightarrow> TranslationOutcome \<Rightarrow> GuardAction list
   \<Rightarrow> string \<Rightarrow> QueryParams \<Rightarrow> unit stage \<times> Call list" where
  "dq_submit app w r c pipeline tout actions engine_sql params =
     (let j = ck_job c; slot = j_slot j; cluster = sg_cluster slot in
      case actions_to_json (dw_action_to_json w) actions of
        Inl e \<Rightarrow> (Return (Inl e) (Some slot), [])
      | Inr stored_actions \<Rightarrow>
          let sent = [Submit cluster engine_sql (j_session j) (j_credentials j) (j_tags j) params] in
          (case dw_submit w of
             Inl e \<Rightarrow>
               (case slot_release (dw_release_reply w) slot of
                  (slot', released) \<Rightarrow>
                    (Return (Inl e) (Some slot'), sent @ slot_backend_outcome slot (backend_error_outcome e) @ released))
           | Inr execution \<Rightarrow>
               let backend_id = (case execution of Running b _ _ \<Rightarrow> b | Completed b _ _ _ _ \<Rightarrow> b);
                   dequeued = (if dr_already_queued r then [DeleteQueued (dr_query_id r)] else []);
                   before = sent @ slot_backend_outcome slot BO_Success @ dequeued;
                   row = \<lparr>ex_id = dr_query_id r, ex_sql = engine_sql, ex_translation = Some tout,
                     ex_client_sql = Some (dr_sql r), ex_rewritten_sql = pm_rewritten_sql pipeline,
                     ex_was_dialect_translated = pm_was_translated pipeline, ex_translated_sql = None,
                     ex_cluster_group = dr_group r, ex_cluster_name = cluster,
                     ex_cluster_group_config_id = j_group_config_id j, ex_cluster_config_id = j_cluster_config_id j,
                     ex_backend_query_id = backend_id, ex_poll_base_url = Some (adp_base_url (j_adapter j)),
                     ex_creation_time = dw_now_submitted w, ex_last_accessed = dw_now_submitted w,
                     ex_query_tags = j_tags j, ex_agent_context = j_agent j,
                     ex_submitted_guard_actions = stored_actions, ex_was_guard_blocked = False,
                     ex_submitted_by = auth_user (dr_auth r), ex_wire_auth = j_wire_auth j,
                     ex_queue_duration_ms = j_queue_ms j\<rparr>
               in
               (case execution of
                  Running _ poll_token body \<Rightarrow>
                    (case dw_executing_stored w of
                       Inl e \<Rightarrow>
                         (case slot_release (dw_release_reply w) slot of
                            (slot', released) \<Rightarrow>
                              (Return (Inl (Persistence (''persist executing query: '' @ dw_show_error w e))) (Some slot'),
                               before @ [UpsertExecuting row, CancelBackend backend_id (j_wire_auth j)] @ released))
                     | Inr _ \<Rightarrow>
                         (case disarm slot of
                            (slot', handed) \<Rightarrow>
                              (Return (Inr (Async body (map_option (\<lambda>u. rewrite_trino_uri u (app_external_address app)) poll_token)))
                                 (Some slot'),
                               before @ UpsertExecuting row # handed)))
                | Completed _ status err stats body \<Rightarrow>
                    (let (original, meta) = pipeline_from_executing row;
                         ctx = apply_pipeline
                           ((job_context r j no_pipeline (ex_translation row) [] (ex_agent_context row))
                              \<lparr>qc_sql := original, qc_src_dialect := resolve_src_dialect (j_session j) (dr_protocol r)\<rparr>) meta
                     in case finalize_async_terminal_on_submit w slot row ctx status err stats of
                          (slot', cs) \<Rightarrow> (Return (Inr (Async body None)) (Some slot'), before @ cs)))))"

section \<open>The whole function\<close>

definition dispatch_stages ::
  "AppState \<Rightarrow> LiveConfig \<Rightarrow> DispatchWorld \<Rightarrow> DispatchRequest \<Rightarrow> unit stage \<times> Call list" where
  "dispatch_stages app live w r =
     andThen (dq_admit app live w r) (\<lambda>slot.
     andThen (dq_prepare live w r slot) (\<lambda>j.
     andThen (dq_access live w r j) (\<lambda>c.
     andThen (dq_translate w r c) (\<lambda>(engine_sql, tout).
     andThen (dq_invariant w r c engine_sql tout) (\<lambda>_.
     let pipeline = pipeline_compute (ck_sql c) engine_sql (ck_rewrote c) in
     andThen (dq_interpolate w r (j_slot (ck_job c)) engine_sql) (\<lambda>(final_sql, params, gw).
     andThen (dq_guards live w r c pipeline tout gw final_sql) (\<lambda>actions.
     dq_submit app w r c pipeline tout actions final_sql params)))))))"

text \<open>On return the slot guard goes out of scope and is dropped.\<close>

definition dispatch_query ::
  "AppState \<Rightarrow> LiveConfig \<Rightarrow> DispatchWorld \<Rightarrow> DispatchRequest \<Rightarrow> DispatchOutcome result option \<times> Call list" where
  "dispatch_query app live w r =
     (case dispatch_stages app live w r of
        (Return res slot, cs) \<Rightarrow>
          (Some res, cs @ (case slot of Some s \<Rightarrow> slot_drop (dw_release_reply w) s | None \<Rightarrow> []))
      | (Next _, cs) \<Rightarrow> (None, cs))"

section \<open>Accounting of the slot\<close>

fun settles :: "cluster_key \<Rightarrow> ClusterSlotGuard \<Rightarrow> 'a stage \<times> Call list \<Rightarrow> bool" where
  "settles k s (Return r (Some s'), cs) \<longleftrightarrow> guard_step k s s' cs"
| "settles k s (Return r None, cs) \<longleftrightarrow> False"
| "settles k s (Next x, cs) \<longleftrightarrow> slots_owed k cs = 0 \<and> running_owed k cs = 0"

lemma settles_andThen:
  assumes "settles k s m" and "\<And>x cs. m = (Next x, cs) \<Longrightarrow> settles k s (f x)"
  shows "settles k s (andThen m f)"
proof (cases m)
  case (Pair st cs)
  show ?thesis
  proof (cases st)
    case (Return r s')
    then show ?thesis using assms(1) Pair by (cases s') (simp_all add: andThen_def)
  next
    case (Next x)
    obtain y ds where fx: "f x = (y, ds)" by (cases "f x")
    have c: "slots_owed k cs = 0" "running_owed k cs = 0" using assms(1) Pair Next by simp_all
    have "settles k s (y, ds)" using assms(2) Pair Next fx by simp
    then have "settles k s (y, cs @ ds)"
      by (cases "(k, s, y, ds)" rule: settles.cases) (auto simp: guard_step_def c)
    then show ?thesis using Pair Next fx by (simp add: andThen_def)
  qed
qed

lemma settles_deny: "settles k (j_slot j) (dq_deny w j ctx reason actions)"
  unfolding dq_deny_def using guard_step_deny by (auto split: prod.splits)

lemma settles_access:
  "settles k (j_slot j) (dq_access live w r j)"
  "dq_access live w r j = (Next c, cs) \<Longrightarrow> j_slot (ck_job c) = j_slot j"
  unfolding dq_access_def Let_def
  by (auto simp: dq_deny_def dest: guard_step_deny split: option.splits AccessStageOutcome.splits if_splits prod.splits)

lemma settles_translate: "settles k (j_slot (ck_job c)) (dq_translate w r c)"
  unfolding dq_translate_def Let_def using guard_step_release
  by (auto simp: guard_step_def split: prod.splits sum.splits)

lemma settles_invariant: "settles k (j_slot (ck_job c)) (dq_invariant w r c sql tout)"
  unfolding dq_invariant_def Let_def using settles_deny by auto

lemma settles_interpolate: "settles k s (dq_interpolate w r s sql)"
  unfolding dq_interpolate_def by (auto split: sum.splits)

lemma settles_guards: "settles k (j_slot (ck_job c)) (dq_guards live w r c pipeline tout gw sql)"
  unfolding dq_guards_def using guard_step_release
  by (auto simp: guard_step_def split: prod.splits bool.splits)

lemma guard_step_finalize:
  "finalize_async_terminal_on_submit w s e ctx status err stats = (s', cs) \<Longrightarrow> guard_step k s s' cs"
proof -
  assume f: "finalize_async_terminal_on_submit w s e ctx status err stats = (s', cs)"
  obtain s1 ds where r: "slot_release (dw_release_reply w) s = (s1, ds)" by (cases "slot_release (dw_release_reply w) s")
  then have "s' = s1" "\<exists>a b c. cs = RecordQuery a b # ds @ [DeleteExecuting c]"
    using f by (auto simp: finalize_async_terminal_on_submit_def Let_def)
  then show ?thesis using guard_step_release [OF r, of k] by (auto simp: guard_step_def)
qed

lemma guard_step_disarm: "sg_started s \<Longrightarrow> disarm s = (s', cs) \<Longrightarrow> guard_step k s s' cs"
  by (auto simp: disarm_def guard_defs split: if_splits)

lemma guard_step_silent:
  "slots_owed k ds = 0 \<Longrightarrow> running_owed k ds = 0 \<Longrightarrow> guard_step k s s' cs \<Longrightarrow> guard_step k s s' (ds @ cs)"
  by (simp add: guard_step_def)

lemma guard_step_Cons [simp]:
  "slot_change k c = 0 \<Longrightarrow> running_change k c = 0 \<Longrightarrow> guard_step k s s' (c # cs) \<longleftrightarrow> guard_step k s s' cs"
  by (simp add: guard_step_def)

lemma settles_submit:
  assumes "sg_started (j_slot (ck_job c))"
  shows "settles k (j_slot (ck_job c)) (dq_submit app w r c pipeline tout actions sql params)"
proof (cases "actions_to_json (dw_action_to_json w) actions")
  case (Inl e)
  then show ?thesis by (simp add: dq_submit_def Let_def)
next
  case acts: (Inr vs)
  let ?s = "j_slot (ck_job c)"
  obtain s1 rel where release: "slot_release (dw_release_reply w) ?s = (s1, rel)" "guard_step k ?s s1 rel"
    using guard_step_release by (metis surj_pair)
  obtain s2 off where off: "disarm ?s = (s2, off)" "guard_step k ?s s2 off"
    using guard_step_disarm [OF assms] by (metis surj_pair)
  show ?thesis
  proof (cases "dw_submit w")
    case (Inl e)
    then show ?thesis
      using acts release by (simp add: dq_submit_def Let_def slot_backend_outcome_def)
  next
    case ex: (Inr execution)
    show ?thesis
    proof (cases execution)
      case (Running b t body)
      then show ?thesis
        using acts ex release off
        by (cases "dw_executing_stored w"; cases "dr_already_queued r")
          (simp_all add: dq_submit_def Let_def slot_backend_outcome_def)
    next
      case (Completed b status err stats body)
      then show ?thesis
        using acts ex guard_step_finalize [of w ?s]
        by (cases "dr_already_queued r")
          (simp_all add: dq_submit_def Let_def slot_backend_outcome_def split: prod.splits)
    qed
  qed
qed

lemma submit_returns: "fst (dq_submit app w r c pipeline tout actions sql params) \<noteq> Next x"
  unfolding dq_submit_def Let_def by (auto split: prod.splits sum.splits QueryExecution.splits)

lemma prepare_steps:
  assumes "\<not> sg_released s"
  shows "(case dq_prepare live w r s of
      (Return res (Some s'), cs) \<Rightarrow> guard_step k s s' cs
    | (Return res None, cs) \<Rightarrow> False
    | (Next j, cs) \<Rightarrow> guard_step k s (j_slot j) cs \<and> sg_started (j_slot j))"
proof -
  obtain s1 started where m: "mark_started s = (s1, started)" by (cases "mark_started s")
  have 1: "guard_step k s s1 started" "sg_started s1" using guard_step_started [OF m assms] by auto
  have 2: "slot_release (dw_release_reply w) s1 = (x, y) \<Longrightarrow> guard_step k s x (started @ y)" for x y
    using guard_step_trans [OF 1(1)] guard_step_release by blast
  show ?thesis
    unfolding dq_prepare_def Let_def m
    using 1 by (auto split: prod.splits sum.splits option.splits AdapterKind.splits dest: 2)
qed

lemma queue_calls:
  "\<exists>res cs. dq_queue app live w r = (Return res None, cs) \<and> slots_owed k cs = 0 \<and> running_owed k cs = 0"
  unfolding dq_queue_def persist_queued_query_def Let_def by (auto split: option.splits sum.splits)

lemma admit_steps:
  "(case dq_admit app live w r of
      (Return res None, cs) \<Rightarrow> slots_owed k cs = 0 \<and> running_owed k cs = 0
    | (Return res (Some s), cs) \<Rightarrow> False
    | (Next s, cs) \<Rightarrow> slots_owed k cs = slot_debt k s \<and> running_owed k cs = 0 \<and> \<not> sg_released s \<and> \<not> sg_started s)"
proof -
  obtain res qs where q: "(dq_queue app live w r :: ClusterSlotGuard stage \<times> _) = (Return res None, qs)" "slots_owed k qs = 0" "running_owed k qs = 0"
    using queue_calls by metis
  show ?thesis
    unfolding dq_admit_def Let_def
    using q by (auto dest: capacity_calls_silent simp: slot_new_def release_local_def slot_release_def
        release_calls_def finished_calls_def slot_debt_def split: prod.splits sum.splits option.splits CapacityGrant.splits if_splits)
qed

definition after_prepare ::
  "AppState \<Rightarrow> LiveConfig \<Rightarrow> DispatchWorld \<Rightarrow> DispatchRequest \<Rightarrow> Job \<Rightarrow> unit stage \<times> Call list" where
  "after_prepare app live w r j =
     andThen (dq_access live w r j) (\<lambda>c.
     andThen (dq_translate w r c) (\<lambda>(engine_sql, tout).
     andThen (dq_invariant w r c engine_sql tout) (\<lambda>_.
     let pipeline = pipeline_compute (ck_sql c) engine_sql (ck_rewrote c) in
     andThen (dq_interpolate w r (j_slot (ck_job c)) engine_sql) (\<lambda>(final_sql, params, gw).
     andThen (dq_guards live w r c pipeline tout gw final_sql) (\<lambda>actions.
     dq_submit app w r c pipeline tout actions final_sql params)))))"

lemma dispatch_stages_eq:
  "dispatch_stages app live w r =
     andThen (dq_admit app live w r) (\<lambda>slot. andThen (dq_prepare live w r slot) (after_prepare app live w r))"
  unfolding dispatch_stages_def after_prepare_def ..

lemma andThen_not_Next: "(\<And>x. fst (f x) \<noteq> Next ()) \<Longrightarrow> fst (andThen m f) \<noteq> Next ()"
  unfolding andThen_def by (auto split: prod.splits stage.splits) (metis fst_conv)

lemma after_prepare_settles:
  assumes "sg_started (j_slot j)"
  shows "settles k (j_slot j) (after_prepare app live w r j)"
  unfolding after_prepare_def Let_def
proof (rule settles_andThen [OF settles_access(1)])
  fix c cs
  assume "dq_access live w r j = (Next c, cs)"
  then have slot: "j_slot (ck_job c) = j_slot j" by (rule settles_access(2))
  show "settles k (j_slot j) (andThen (dq_translate w r c) (\<lambda>(engine_sql, tout).
      andThen (dq_invariant w r c engine_sql tout) (\<lambda>_.
      andThen (dq_interpolate w r (j_slot (ck_job c)) engine_sql) (\<lambda>(final_sql, params, gw).
      andThen (dq_guards live w r c (pipeline_compute (ck_sql c) engine_sql (ck_rewrote c)) tout gw final_sql) (\<lambda>actions.
      dq_submit app w r c (pipeline_compute (ck_sql c) engine_sql (ck_rewrote c)) tout actions final_sql params)))))"
    using settles_translate settles_invariant settles_interpolate settles_guards settles_submit [of c] assms
    unfolding slot [symmetric] by (auto intro!: settles_andThen split: prod.splits)
qed

lemma after_prepare_returns: "fst (after_prepare app live w r j) \<noteq> Next ()"
  unfolding after_prepare_def Let_def by (auto intro!: andThen_not_Next simp: submit_returns split: prod.splits)

lemma dispatch_accounts:
  obtains res slot cs where "dispatch_stages app live w r = (Return res slot, cs)"
    and "case slot of
        Some s \<Rightarrow> slots_owed k cs = slot_debt k s \<and> running_owed k cs = running_debt k s
      | None \<Rightarrow> slots_owed k cs = 0 \<and> running_owed k cs = 0"
proof -
  obtain st cs where A: "dq_admit app live w r = (st, cs)" by (cases "dq_admit app live w r")
  note a = admit_steps [of k app live w r, unfolded A]
  show ?thesis
  proof (cases st)
    case (Return res slot)
    then show ?thesis using that [of res slot cs] a A
      by (cases slot) (auto simp: dispatch_stages_eq andThen_def)
  next
    case (Next s)
    then have s: "\<not> sg_released s" "\<not> sg_started s" and c: "slots_owed k cs = slot_debt k s" "running_owed k cs = 0" using a by auto
    obtain st2 ds where P: "dq_prepare live w r s = (st2, ds)" by (cases "dq_prepare live w r s")
    note p = prepare_steps [OF s(1), of k live w r, unfolded P]
    show ?thesis
    proof (cases st2)
      case (Return res slot)
      then obtain s' where "slot = Some s'" "guard_step k s s' ds" using p by (auto split: option.splits)
      then show ?thesis using that [of res slot "cs @ ds"] A P Next Return s c
        by (auto simp: dispatch_stages_eq andThen_def guard_defs)
    next
      case N2: (Next j)
      then have j: "guard_step k s (j_slot j) ds" "sg_started (j_slot j)" using p by auto
      obtain st3 es where Q: "after_prepare app live w r j = (st3, es)" by (cases "after_prepare app live w r j")
      have st3: "settles k (j_slot j) (st3, es)" "st3 \<noteq> Next ()"
        using after_prepare_settles [OF j(2), of k app live w r] after_prepare_returns [of app live w r j] Q by auto
      then obtain res s' where R: "st3 = Return res (Some s')" "guard_step k (j_slot j) s' es"
        by (cases "(k, j_slot j, st3, es)" rule: settles.cases) auto
      then have "guard_step k s s' (ds @ es)" using guard_step_trans [OF j(1)] by blast
      then show ?thesis using that [of res "Some s'" "cs @ ds @ es"] A P Q Next N2 R s c
        by (auto simp: dispatch_stages_eq andThen_def guard_defs)
    qed
  qed
qed

lemma dispatch_pays:
  "\<exists>res calls. dispatch_query app live w r = (Some res, calls) \<and> slots_owed k calls = 0 \<and> running_owed k calls = 0"
proof -
  obtain res slot cs where D: "dispatch_stages app live w r = (Return res slot, cs)"
    and c: "case slot of
        Some s \<Rightarrow> slots_owed k cs = slot_debt k s \<and> running_owed k cs = running_debt k s
      | None \<Rightarrow> slots_owed k cs = 0 \<and> running_owed k cs = 0"
    by (rule dispatch_accounts)
  show ?thesis
    using D c guard_step_drop [of "dw_release_reply w"]
    by (cases slot) (auto simp: dispatch_query_def)
qed

text \<open>
  Claim C2. A dispatched query pays for its slot: whatever the other parts of the system answer, dispatching
  returns, and by then every cluster slot it acquired has been given back, to the same cluster, or
  handed over with the stored executing query, exactly once, and every query it reported as started has been reported as
  finished or handed over; a query that is refused or queued keeps neither.
\<close>
theorem dispatch_balanced:
  "\<exists>res calls. dispatch_query app live w r = (Some res, calls) \<and> (\<forall>k. slots_owed k calls = 0 \<and> running_owed k calls = 0)"
  using dispatch_pays [of app live w r] by (metis prod.inject)

section \<open>What is submitted\<close>

lemma andThen_call:
  "c \<in> set (snd (andThen m f)) \<Longrightarrow> c \<in> set (snd m) \<or> (\<exists>x cs. m = (Next x, cs) \<and> c \<in> set (snd (f x)))"
  by (auto simp: andThen_def split: prod.splits stage.splits)

text \<open>Calls of the last stage only.\<close>

fun is_late :: "Call \<Rightarrow> bool" where
  "is_late (Submit _ _ _ _ _ _) = True"
| "is_late (UpsertExecuting _) = True"
| "is_late (SlotHandedOver _ _) = True"
| "is_late _ = False"

lemma no_submit_slot:
  "\<forall>c \<in> set (snd (slot_release reply s)). \<not> is_late c"
  "\<forall>c \<in> set (snd (release_local s)). \<not> is_late c"
  "\<forall>c \<in> set (slot_drop reply s). \<not> is_late c"
  "\<forall>c \<in> set (snd (mark_started s)). \<not> is_late c"
  by (auto simp: slot_release_def release_local_def slot_drop_def mark_started_def release_calls_def finished_calls_def
      split: sum.splits if_splits)

lemma no_submit_queue: "c \<in> set (snd (dq_queue app live w r)) \<Longrightarrow> \<not> is_late c"
  by (auto simp: dq_queue_def persist_queued_query_def Let_def split: option.splits sum.splits prod.splits)

lemma no_submit_capacity: "acquire_global_capacity app m reply grp cl q = (g, cs) \<Longrightarrow> c \<in> set cs \<Longrightarrow> \<not> is_late c"
  by (auto simp: acquire_global_capacity_def Let_def split: if_splits sum.splits bool.splits)

lemma admit_cases:
  obtains (settled) res where "fst (dq_admit app live w r) = Return res None" "\<forall>c \<in> set (snd (dq_admit app live w r)). \<not> is_late c"
  | (admitted) slot where "fst (dq_admit app live w r) = Next slot" "\<forall>c \<in> set (snd (dq_admit app live w r)). \<not> is_late c"
      "check (dw_fga w) (lv_authorization live) (dr_auth r) (dr_group r)" "sg_group slot = dr_group r"
      "fst (acquire_cluster (dw_interference w) (dw_python w) (dw_mgr_acquire w) (dr_group r)) = Inr (Some (sg_cluster slot))"
proof -
  obtain res qs where q: "(dq_queue app live w r :: ClusterSlotGuard stage \<times> _) = (Return res None, qs)"
    using queue_calls by metis
  have nq: "\<forall>c \<in> set qs. \<not> is_late c"
    using no_submit_queue [where 'a = ClusterSlotGuard, of _ app live w r] q by simp
  show thesis
  proof (cases "fst (dq_admit app live w r)")
    case (Next slot)
    then have c: "check (dw_fga w) (lv_authorization live) (dr_auth r) (dr_group r)"
      "\<not> should_yield_to_older_queued (dw_mgr_gate w) (dr_group r) (dw_older_waiters w)"
      using q by (auto simp: dq_admit_def split: if_splits)
    then obtain cl where acq: "fst (acquire_cluster (dw_interference w) (dw_python w) (dw_mgr_acquire w) (dr_group r)) = Inr (Some cl)"
      using Next q by (auto simp: dq_admit_def split: sum.splits option.splits)
    obtain asked where cap: "acquire_global_capacity app (dw_mgr_limit w) (dw_try_acquire w) (dr_group r) cl (dr_query_id r) = (Granted, asked)"
      using Next q c acq by (auto simp: dq_admit_def Let_def split: prod.splits CapacityGrant.splits)
    have "dq_admit app live w r = (Next (slot_new app (dr_group r) cl (dr_query_id r)), AcquiredSlot (dr_group r) cl # asked)"
      using c acq cap by (simp add: dq_admit_def)
    then show thesis
      using admitted [of slot] c(1) acq Next no_submit_capacity [OF cap] by (auto simp: slot_new_def)
  next
    case (Return res' so)
    then have "so = None" using admit_steps [of undefined app live w r] by (auto split: prod.splits option.splits)
    moreover have "\<forall>c \<in> set (snd (dq_admit app live w r)). \<not> is_late c"
      unfolding dq_admit_def Let_def
      using q nq no_submit_slot
      by (auto dest: no_submit_capacity split: sum.splits option.splits prod.splits CapacityGrant.splits)
    ultimately show thesis using settled Return by blast
  qed
qed

lemma deny_calls: "c \<in> set (snd (dq_deny w j ctx reason actions)) \<Longrightarrow> \<not> is_late c"
  using no_submit_slot(1) [of "dw_release_reply w" "j_slot j"]
  by (auto simp: dq_deny_def deny_and_record_def split: prod.splits)

lemma prepare_calls:
  "c \<in> set (snd (dq_prepare live w r s)) \<Longrightarrow> \<not> is_late c"
  using no_submit_slot(4) [of s] no_submit_slot(1) [of "dw_release_reply w" "fst (mark_started s)"]
  by (auto simp: dq_prepare_def Let_def split: prod.splits sum.splits option.splits AdapterKind.splits)

lemma prepare_Next:
  "dq_prepare live w r s = (Next j, cs) \<Longrightarrow>
   sg_cluster (j_slot j) = sg_cluster s
   \<and> dw_credentials w (Option.bind (map_of (lv_cluster_configs live) (sg_cluster s)) ccfg_query_auth) = Inr (j_credentials j)
   \<and> map_of (lv_adapters live) (sg_cluster s) = Some (AsyncAdapter (j_adapter j))"
  by (auto simp: dq_prepare_def Let_def mark_started_def split: prod.splits sum.splits option.splits AdapterKind.splits if_splits)

definition access_cleared :: "LiveConfig \<Rightarrow> DispatchWorld \<Rightarrow> DispatchRequest \<Rightarrow> string \<Rightarrow> bool \<Rightarrow> bool" where
  "access_cleared live w r sql rewrote \<longleftrightarrow>
     (case lv_access_guard live of
        None \<Rightarrow> sql = dr_sql r \<and> \<not> rewrote
      | Some g \<Rightarrow>
          if enabled_for_group g (dr_group r) then
            (\<exists>ctx. gx_sql ctx = dr_sql r \<and> gx_cluster_group ctx = dr_group r \<and> gx_groups ctx = auth_groups (dr_auth r)
               \<and> gx_roles ctx = auth_roles (dr_auth r)
               \<and> (case opa_access_check (dw_access w) g ctx of
                    G_Deny _ _ \<Rightarrow> False
                  | G_Rewrite s _ \<Rightarrow> sql = s \<and> rewrote
                  | _ \<Rightarrow> sql = dr_sql r \<and> \<not> rewrote))
          else sql = dr_sql r \<and> \<not> rewrote)"

lemma access_Next:
  assumes "dq_access live w r j = (Next c, cs)"
  shows "access_cleared live w r (ck_sql c) (ck_rewrote c) \<and> j_slot (ck_job c) = j_slot j
    \<and> j_credentials (ck_job c) = j_credentials j \<and> j_adapter (ck_job c) = j_adapter j \<and> j_src (ck_job c) = j_src j"
proof (cases "lv_access_guard live")
  case None
  then show ?thesis using assms by (auto simp: dq_access_def access_cleared_def)
next
  case (Some g)
  let ?j = "if applies_to_group g (dr_group r) then j\<lparr>j_session := drop_unchecked_session_sql (j_session j)\<rparr> else j"
  let ?ctx = "stage_context (dr_sql r) (j_src ?j) (adp_engine_type (j_adapter ?j)) (dr_group r) (dr_auth r) (j_session ?j) (j_tags ?j)"
  show ?thesis
  proof (cases "enabled_for_group g (dr_group r)")
    case True
    have "ck_job c = ?j \<and> (case opa_access_check (dw_access w) g ?ctx of
        G_Deny _ _ \<Rightarrow> False | G_Rewrite s _ \<Rightarrow> ck_sql c = s \<and> ck_rewrote c | _ \<Rightarrow> ck_sql c = dr_sql r \<and> \<not> ck_rewrote c)"
      using assms Some True
      by (cases "opa_access_check (dw_access w) g ?ctx")
        (auto simp: dq_access_def Let_def run_access_control_stage_def dq_deny_def split: prod.splits)
    then show ?thesis using Some True unfolding access_cleared_def
      by (auto simp: stage_context_def intro!: exI [of _ ?ctx])
  next
    case False
    then show ?thesis using assms Some by (auto simp: dq_access_def access_cleared_def Let_def)
  qed
qed

lemma access_calls: "c \<in> set (snd (dq_access live w r j)) \<Longrightarrow> \<not> is_late c"
  by (auto simp: dq_access_def Let_def dest: deny_calls split: option.splits AccessStageOutcome.splits if_splits)

lemma translate_calls: "c \<in> set (snd (dq_translate w r ck)) \<Longrightarrow> \<not> is_late c"
  using no_submit_slot(1) [of "dw_release_reply w" "j_slot (ck_job ck)"]
  by (auto simp: dq_translate_def Let_def split: prod.splits sum.splits if_splits)

definition engine_sql_ok :: "DispatchWorld \<Rightarrow> DispatchRequest \<Rightarrow> SqlDialect \<Rightarrow> SqlDialect \<Rightarrow> string \<Rightarrow> string \<Rightarrow> bool" where
  "engine_sql_ok w r src tgt sql engine_sql \<longleftrightarrow>
     engine_sql = sql \<or> fst (dw_translate w sql src tgt) = Inr engine_sql"

lemma translate_Next:
  "dq_translate w r c = (Next (engine_sql, tout), cs) \<Longrightarrow>
   engine_sql_ok w r (j_src (ck_job c)) (adp_dialect (j_adapter (ck_job c))) (ck_sql c) engine_sql"
  by (auto simp: dq_translate_def Let_def engine_sql_ok_def split: prod.splits sum.splits if_splits)

lemma run_chains_proceed:
  "run_chains gw ctx cs actions = (actions', False) \<Longrightarrow> \<forall>chain \<in> set cs. snd (chain_run gw chain ctx L_Plan) = Proceed"
  by (induction gw ctx cs actions rule: run_chains.induct) (auto split: prod.splits GuardChainOutcome.splits)

lemma release_not_submit: "slot_release reply s = (s', cs) \<Longrightarrow> Submit cl sql session cred tags params \<notin> set cs"
  using no_submit_slot(1) [of reply s] by (metis is_late.simps(1) snd_conv)

lemma submit_calls:
  "Submit cl sql session cred tags params \<in> set (snd (dq_submit app w r c pipeline tout actions engine_sql ps)) \<Longrightarrow>
   cl = sg_cluster (j_slot (ck_job c)) \<and> sql = engine_sql \<and> cred = j_credentials (ck_job c) \<and> params = ps"
  by (auto simp: dq_submit_def Let_def slot_backend_outcome_def disarm_def finalize_async_terminal_on_submit_def
      dest: release_not_submit split: prod.splits sum.splits QueryExecution.splits if_splits)

lemma invariant_calls: "c \<in> set (snd (dq_invariant w r ck sql tout)) \<Longrightarrow> \<not> is_late c"
  by (auto simp: dq_invariant_def Let_def dest: deny_calls split: if_splits)

lemma invariant_Next:
  "dq_invariant w r c sql tout = (Next x, cs) \<Longrightarrow>
   ck_rewrote c \<Longrightarrow> is_read_like_sql (w_parse (dw_guards w)) (dr_sql r) (j_src (ck_job c)) \<Longrightarrow>
   is_read_like_sql (w_parse (dw_guards w)) sql (adp_dialect (j_adapter (ck_job c)))"
  by (auto simp: dq_invariant_def Let_def dq_deny_def split: if_splits prod.splits)

lemma interpolate_calls: "snd (dq_interpolate w r s sql) = []"
  by (auto simp: dq_interpolate_def split: sum.splits)

lemma guards_calls: "c \<in> set (snd (dq_guards live w r ck pipeline tout gw sql)) \<Longrightarrow> \<not> is_late c"
  using no_submit_slot(1) [of "dw_release_reply w" "j_slot (ck_job ck)"]
  by (auto simp: dq_guards_def split: prod.splits bool.splits)

lemma guards_Next:
  "dq_guards live w r c pipeline tout gw sql = (Next actions, cs) \<Longrightarrow>
   \<forall>chain \<in> set (live_chains live (dr_group r)). snd (chain_run gw chain (plan_context r (ck_job c) sql) L_Plan) = Proceed"
  by (auto simp: dq_guards_def dest!: run_chains_proceed split: prod.splits bool.splits)

text \<open>What a submitted text went through, in the order of the stages.\<close>

definition dispatch_cleared ::
  "LiveConfig \<Rightarrow> DispatchWorld \<Rightarrow> DispatchRequest \<Rightarrow> ClusterName \<Rightarrow> string \<Rightarrow> QueryCredentials \<Rightarrow> bool" where
  "dispatch_cleared live w r cluster sql cred \<longleftrightarrow>
     check (dw_fga w) (lv_authorization live) (dr_auth r) (dr_group r)
     \<and> fst (acquire_cluster (dw_interference w) (dw_python w) (dw_mgr_acquire w) (dr_group r)) = Inr (Some cluster)
     \<and> dw_credentials w (Option.bind (map_of (lv_cluster_configs live) cluster) ccfg_query_auth) = Inr cred
     \<and> (\<exists>j checked_sql rewrote engine_sql gw params cs.
          map_of (lv_adapters live) cluster = Some (AsyncAdapter (j_adapter j))
          \<and> access_cleared live w r checked_sql rewrote
          \<and> engine_sql_ok w r (j_src j) (adp_dialect (j_adapter j)) checked_sql engine_sql
          \<and> (rewrote \<and> is_read_like_sql (w_parse (dw_guards w)) (dr_sql r) (j_src j)
             \<longrightarrow> is_read_like_sql (w_parse (dw_guards w)) engine_sql (adp_dialect (j_adapter j)))
          \<and> dq_interpolate w r (j_slot j) engine_sql = (Next (sql, params, gw), cs)
          \<and> (\<forall>chain \<in> set (live_chains live (dr_group r)).
               snd (chain_run gw chain (plan_context r j sql) L_Plan) = Proceed))"

lemma after_prepare_cleared:
  assumes "Submit cluster sql session cred tags params \<in> set (snd (after_prepare app live w r j))"
    and "check (dw_fga w) (lv_authorization live) (dr_auth r) (dr_group r)"
    and "fst (acquire_cluster (dw_interference w) (dw_python w) (dw_mgr_acquire w) (dr_group r)) = Inr (Some (sg_cluster (j_slot j)))"
    and "dw_credentials w (Option.bind (map_of (lv_cluster_configs live) (sg_cluster (j_slot j))) ccfg_query_auth) = Inr (j_credentials j)"
    and "map_of (lv_adapters live) (sg_cluster (j_slot j)) = Some (AsyncAdapter (j_adapter j))"
  shows "dispatch_cleared live w r cluster sql cred"
proof -
  let ?sub = "Submit cluster sql session cred tags params"
  have sub: "is_late ?sub" by simp
  from assms(1) obtain c cs1 where 1: "dq_access live w r j = (Next c, cs1)"
    and in1: "?sub \<in> set (snd (andThen (dq_translate w r c) (\<lambda>(engine_sql, tout).
      andThen (dq_invariant w r c engine_sql tout) (\<lambda>_.
      andThen (dq_interpolate w r (j_slot (ck_job c)) engine_sql) (\<lambda>(final_sql, params, gw).
      andThen (dq_guards live w r c (pipeline_compute (ck_sql c) engine_sql (ck_rewrote c)) tout gw final_sql) (\<lambda>actions.
      dq_submit app w r c (pipeline_compute (ck_sql c) engine_sql (ck_rewrote c)) tout actions final_sql params))))))"
    unfolding after_prepare_def Let_def using access_calls sub by (blast dest: andThen_call)
  from in1 obtain engine_sql tout cs2 where 2: "dq_translate w r c = (Next (engine_sql, tout), cs2)"
    and in2: "?sub \<in> set (snd (andThen (dq_invariant w r c engine_sql tout) (\<lambda>_.
      andThen (dq_interpolate w r (j_slot (ck_job c)) engine_sql) (\<lambda>(final_sql, params, gw).
      andThen (dq_guards live w r c (pipeline_compute (ck_sql c) engine_sql (ck_rewrote c)) tout gw final_sql) (\<lambda>actions.
      dq_submit app w r c (pipeline_compute (ck_sql c) engine_sql (ck_rewrote c)) tout actions final_sql params)))))"
    using translate_calls sub by (fastforce dest: andThen_call)
  from in2 obtain x cs3 where 3: "dq_invariant w r c engine_sql tout = (Next x, cs3)"
    and in3: "?sub \<in> set (snd (andThen (dq_interpolate w r (j_slot (ck_job c)) engine_sql) (\<lambda>(final_sql, params, gw).
      andThen (dq_guards live w r c (pipeline_compute (ck_sql c) engine_sql (ck_rewrote c)) tout gw final_sql) (\<lambda>actions.
      dq_submit app w r c (pipeline_compute (ck_sql c) engine_sql (ck_rewrote c)) tout actions final_sql params))))"
    using invariant_calls sub by (blast dest: andThen_call)
  from in3 obtain fsql ps gw cs4 where 4: "dq_interpolate w r (j_slot (ck_job c)) engine_sql = (Next (fsql, ps, gw), cs4)"
    and in4: "?sub \<in> set (snd (andThen (dq_guards live w r c (pipeline_compute (ck_sql c) engine_sql (ck_rewrote c)) tout gw fsql)
      (\<lambda>actions. dq_submit app w r c (pipeline_compute (ck_sql c) engine_sql (ck_rewrote c)) tout actions fsql ps)))"
    using interpolate_calls [of w r "j_slot (ck_job c)" engine_sql] by (fastforce dest: andThen_call)
  from in4 obtain actions cs5 where 5: "dq_guards live w r c (pipeline_compute (ck_sql c) engine_sql (ck_rewrote c)) tout gw fsql = (Next actions, cs5)"
    and in5: "?sub \<in> set (snd (dq_submit app w r c (pipeline_compute (ck_sql c) engine_sql (ck_rewrote c)) tout actions fsql ps))"
    using guards_calls sub by (blast dest: andThen_call)
  have "cluster = sg_cluster (j_slot j)" "sql = fsql" "cred = j_credentials j"
    using submit_calls [OF in5] access_Next [OF 1] by auto
  moreover have "map_of (lv_adapters live) cluster = Some (AsyncAdapter (j_adapter (ck_job c)))"
    using calculation assms(5) access_Next [OF 1] by simp
  ultimately show ?thesis
    unfolding dispatch_cleared_def
    using assms(2,3,4) conjunct1 [OF access_Next [OF 1]] translate_Next [OF 2] invariant_Next [OF 3] 4 guards_Next [OF 5]
    by blast
qed

lemma admit_calls: "c \<in> set (snd (dq_admit app live w r)) \<Longrightarrow> \<not> is_late c"
  by (cases rule: admit_cases [of app live w r]) blast+

lemma admit_Next:
  assumes "dq_admit app live w r = (Next slot, cs)"
  shows "check (dw_fga w) (lv_authorization live) (dr_auth r) (dr_group r)"
    "fst (acquire_cluster (dw_interference w) (dw_python w) (dw_mgr_acquire w) (dr_group r)) = Inr (Some (sg_cluster slot))"
  using admit_cases [of app live w r] assms by (metis fst_conv stage.distinct(1) stage.inject(2))+

lemma dispatch_call:
  "c \<in> set (snd (dispatch_query app live w r)) \<Longrightarrow> is_late c \<Longrightarrow> c \<in> set (snd (dispatch_stages app live w r))"
  using no_submit_slot(3) by (auto simp: dispatch_query_def split: prod.splits stage.splits option.splits)

text \<open>
  Claim C1. No way around the checks: when a text is sent to a backend, the caller was authorized for the
  group, the cluster is the one the manager granted, its credentials are the caller's for that
  cluster, the client's SQL passed access control and the text is what access control left of it
  (translated, then with the parameters in place), a rewritten read is still a read for the engine,
  and every guard chain let exactly the text that is sent proceed.
\<close>
theorem submitted_only_when_cleared:
  assumes "Submit cluster sql session cred tags params \<in> set (snd (dispatch_query app live w r))"
  shows "dispatch_cleared live w r cluster sql cred"
proof -
  have "Submit cluster sql session cred tags params \<in> set (snd (dispatch_stages app live w r))"
    using dispatch_call assms by simp
  then obtain slot cs where A: "dq_admit app live w r = (Next slot, cs)"
    and "Submit cluster sql session cred tags params \<in> set (snd (andThen (dq_prepare live w r slot) (after_prepare app live w r)))"
    unfolding dispatch_stages_eq using admit_calls by (metis andThen_call is_late.simps(1))
  then obtain j ds where P: "dq_prepare live w r slot = (Next j, ds)"
    and S: "Submit cluster sql session cred tags params \<in> set (snd (after_prepare app live w r j))"
    using prepare_calls by (metis andThen_call is_late.simps(1))
  show ?thesis
    using after_prepare_cleared [OF S] admit_Next [OF A] prepare_Next [OF P] by simp
qed

section \<open>What is handed over\<close>

text \<open>The trace of a stage ends with the calls of the submission, if it gets that far.\<close>

definition late_from :: "(Call list \<Rightarrow> bool) \<Rightarrow> 'a stage \<times> Call list \<Rightarrow> bool" where
  "late_from P m \<longleftrightarrow> (\<exists>pre sub. snd m = pre @ sub \<and> (\<forall>c \<in> set pre. \<not> is_late c) \<and> (sub = [] \<or> P sub))"

lemma late_fromI:
  "snd m = pre @ sub \<Longrightarrow> (\<And>c. c \<in> set pre \<Longrightarrow> \<not> is_late c) \<Longrightarrow> sub = [] \<or> P sub \<Longrightarrow> late_from P m"
  unfolding late_from_def by blast

lemma late_from_andThen:
  assumes "\<And>c. c \<in> set (snd m) \<Longrightarrow> \<not> is_late c" and "\<And>x cs. m = (Next x, cs) \<Longrightarrow> late_from P (f x)"
  shows "late_from P (andThen m f)"
proof (cases m)
  case (Pair st cs)
  show ?thesis
  proof (cases st)
    case (Return r s)
    then show ?thesis using assms(1) Pair by (intro late_fromI [of _ cs "[]"]) (auto simp: andThen_def)
  next
    case (Next x)
    then obtain pre sub where "snd (f x) = pre @ sub" "\<forall>c \<in> set pre. \<not> is_late c" "sub = [] \<or> P sub"
      using assms(2) Pair unfolding late_from_def by blast
    then show ?thesis
      using assms(1) Pair Next by (intro late_fromI [of _ "cs @ pre" sub]) (auto simp: andThen_def split: prod.splits)
  qed
qed

definition submission :: "AppState \<Rightarrow> DispatchWorld \<Rightarrow> DispatchRequest \<Rightarrow> Call list \<Rightarrow> bool" where
  "submission app w r sub \<longleftrightarrow>
     (\<exists>c pm t as sql ps. sub = snd (dq_submit app w r c pm t as sql ps) \<and> \<not> sg_released (j_slot (ck_job c))
        \<and> sg_group (j_slot (ck_job c)) = dr_group r)"

lemma submit_late: "\<not> sg_released (j_slot (ck_job c)) \<Longrightarrow> sg_group (j_slot (ck_job c)) = dr_group r \<Longrightarrow>
    late_from (submission app w r) (dq_submit app w r c pm t as sql ps)"
  unfolding late_from_def submission_def by (metis append_Nil empty_iff empty_set)

lemma after_prepare_late:
  assumes "\<not> sg_released (j_slot j)" "sg_group (j_slot j) = dr_group r"
  shows "late_from (submission app w r) (after_prepare app live w r j)"
  unfolding after_prepare_def Let_def
proof (rule late_from_andThen)
  fix c cs
  assume "dq_access live w r j = (Next c, cs)"
  then have slot: "j_slot (ck_job c) = j_slot j" by (rule settles_access(2))
  have submit: "late_from (submission app w r) (dq_submit app w r c pm t as sql ps)" for pm t as sql ps
    using assms slot by (intro submit_late) simp_all
  show "late_from (submission app w r) (andThen (dq_translate w r c) (\<lambda>(engine_sql, tout).
      andThen (dq_invariant w r c engine_sql tout) (\<lambda>_.
      andThen (dq_interpolate w r (j_slot (ck_job c)) engine_sql) (\<lambda>(final_sql, params, gw).
      andThen (dq_guards live w r c (pipeline_compute (ck_sql c) engine_sql (ck_rewrote c)) tout gw final_sql) (\<lambda>actions.
      dq_submit app w r c (pipeline_compute (ck_sql c) engine_sql (ck_rewrote c)) tout actions final_sql params)))))"
  proof (rule late_from_andThen, erule translate_calls, unfold case_prod_beta, rule late_from_andThen, erule invariant_calls,
      rule late_from_andThen, goal_cases)
    case (2 x cs u ds y es)
    show ?case by (rule late_from_andThen, erule guards_calls, rule submit)
  qed (simp add: interpolate_calls)
qed (use access_calls in blast)

lemma prepare_slot:
  "dq_prepare live w r s = (Next j, cs) \<Longrightarrow> sg_released (j_slot j) = sg_released s \<and> sg_group (j_slot j) = sg_group s"
  by (auto simp: dq_prepare_def Let_def mark_started_def split: prod.splits sum.splits option.splits AdapterKind.splits if_splits)

lemma admit_slot: "dq_admit app live w r = (Next s, cs) \<Longrightarrow> \<not> sg_released s \<and> sg_group s = dr_group r"
  using admit_steps [of undefined app live w r] by (cases rule: admit_cases [of app live w r]) simp_all

lemma dispatch_late: "late_from (submission app w r) (dispatch_stages app live w r)"
  unfolding dispatch_stages_eq
  by (rule late_from_andThen, erule admit_calls, rule late_from_andThen, erule prepare_calls, rule after_prepare_late)
    (use prepare_slot admit_slot in metis)+

text \<open>The row a dispatch leaves in the store, given the store's reply.\<close>

fun upserted :: "Call list \<Rightarrow> ExecutingQuery list" where
  "upserted [] = []"
| "upserted (UpsertExecuting row # cs) = row # upserted cs"
| "upserted (c # cs) = upserted cs"

definition row_of :: "unit result \<Rightarrow> Call list \<Rightarrow> ExecutingQuery option" where
  "row_of stored cs =
     (case stored of Inl _ \<Rightarrow> None | Inr _ \<Rightarrow> (case upserted cs of [] \<Rightarrow> None | row # _ \<Rightarrow> Some row))"

fun hand_change :: "cluster_key \<Rightarrow> Call \<Rightarrow> int" where
  "hand_change k (SlotHandedOver g c) = (if at_key k g c then 1 else 0)"
| "hand_change k _ = 0"

definition handed :: "cluster_key \<Rightarrow> Call list \<Rightarrow> int" where
  "handed k cs = sum_list (map (hand_change k) cs)"

lemma handed_simps [simp]:
  "handed k [] = 0" "handed k (c # cs) = hand_change k c + handed k cs" "handed k (cs @ ds) = handed k cs + handed k ds"
  by (simp_all add: handed_def)

lemma upserted_append [simp]: "upserted (cs @ ds) = upserted cs @ upserted ds"
  by (induction cs rule: upserted.induct) auto

lemma not_late_quiet: "\<forall>c \<in> set cs. \<not> is_late c \<Longrightarrow> upserted cs = [] \<and> handed k cs = 0"
  by (induction cs rule: upserted.induct) auto

definition row_at :: "cluster_key \<Rightarrow> ExecutingQuery \<Rightarrow> bool" where
  "row_at k row \<longleftrightarrow> at_key k (ex_cluster_group row) (ex_cluster_name row)"

lemma release_quiet:
  assumes "slot_release reply s = (s', cs)"
  shows "upserted cs = []" "handed k cs = 0"
  using not_late_quiet [of cs k] no_submit_slot(1) [of reply s] assms by auto

lemma submission_hands:
  assumes "submission app w r sub"
  shows "handed k sub = (case row_of (dw_executing_stored w) sub of Some row \<Rightarrow> (if row_at k row then 1 else 0) | None \<Rightarrow> 0)"
proof -
  obtain c pm t as sql ps where sub: "sub = snd (dq_submit app w r c pm t as sql ps)"
    and slot: "\<not> sg_released (j_slot (ck_job c))" "sg_group (j_slot (ck_job c)) = dr_group r"
    using assms unfolding submission_def by blast
  obtain s1 rel where rel: "slot_release (dw_release_reply w) (j_slot (ck_job c)) = (s1, rel)" by (metis surj_pair)
  note quiet = release_quiet(1) [OF rel] release_quiet(2) [OF rel, of k]
  show ?thesis
  proof (cases "actions_to_json (dw_action_to_json w) as")
    case (Inl e)
    then show ?thesis unfolding sub by (simp add: dq_submit_def Let_def row_of_def split: sum.splits)
  next
    case acts: (Inr vs)
    show ?thesis
    proof (cases "dw_submit w")
      case (Inl e)
      then show ?thesis unfolding sub using acts quiet rel
        by (simp add: dq_submit_def Let_def slot_backend_outcome_def row_of_def split: sum.splits)
    next
      case ex: (Inr execution)
      show ?thesis
      proof (cases execution)
        case (Running b token body)
        then show ?thesis unfolding sub using acts ex quiet rel slot
          by (cases "dw_executing_stored w"; cases "dr_already_queued r")
            (simp_all add: dq_submit_def Let_def slot_backend_outcome_def row_of_def disarm_def row_at_def)
      next
        case (Completed b status err stats body)
        then show ?thesis unfolding sub using acts ex quiet rel
          by (cases "dw_executing_stored w"; cases "dr_already_queued r")
            (simp_all add: dq_submit_def Let_def slot_backend_outcome_def row_of_def finalize_async_terminal_on_submit_def
              split: prod.splits)
      qed
    qed
  qed
qed

text \<open>A dispatch hands its slot over exactly when it leaves a row in the store, and the row names the slot.\<close>

lemma dispatch_hands:
  assumes "dispatch_query app live w r = (res, calls)"
  shows "handed k calls = (case row_of (dw_executing_stored w) calls of Some row \<Rightarrow> (if row_at k row then 1 else 0) | None \<Rightarrow> 0)"
proof -
  obtain st cs where D: "dispatch_stages app live w r = (st, cs)" by (metis surj_pair)
  obtain pre sub where cs: "cs = pre @ sub" "\<forall>c \<in> set pre. \<not> is_late c" "sub = [] \<or> submission app w r sub"
    using dispatch_late [of app w r live] D unfolding late_from_def by auto
  obtain post where post: "calls = cs @ post" "\<forall>c \<in> set post. \<not> is_late c"
    using assms D no_submit_slot(3) by (auto simp: dispatch_query_def split: stage.splits option.splits)
  have "row_of stored (pre @ sub @ post) = row_of stored sub" for stored
    using not_late_quiet [OF cs(2), of k] not_late_quiet [OF post(2), of k]
    by (simp add: row_of_def split: sum.splits)
  then show ?thesis
    using not_late_quiet [OF cs(2), of k] not_late_quiet [OF post(2), of k] cs post submission_hands [of app w r sub k]
    by (auto simp: row_of_def split: sum.splits)
qed

section \<open>Examples\<close>

definition example_live :: LiveConfig where
  "example_live = \<lparr>lv_authorization = AllowAllAuthorization OperatorPolicy_default, lv_default_tags = [],
     lv_guard_chain = Some [ReadOnlyGuard], lv_group_guard_chains = [], lv_access_guard = Some example_guard,
     lv_cluster_configs = [], lv_adapters = [(''a'', AsyncAdapter \<lparr>adp_engine_type = E_Trino, adp_dialect = D_Trino,
       adp_base_url = ''http://trino''\<rparr>)], lv_max_queued = []\<rparr>"

definition example_world :: DispatchWorld where
  "example_world = \<lparr>dw_fga = (\<lambda>_. FgaUnreachable ''''), dw_mgr_gate = example_manager, dw_older_waiters = Inr 0,
     dw_mgr_acquire = example_manager, dw_interference = quiet, dw_python = (\<lambda>_ _ _. PyNone),
     dw_mgr_limit = example_manager, dw_try_acquire = Inr True, dw_release_reply = Inr (), dw_queue_depth = Inr 0,
     dw_queue_stored = Inr (), dw_mgr_ids = example_manager, dw_credentials = (\<lambda>_. Inr ServiceAccount),
     dw_access = example_access_world, dw_translate = (\<lambda>sql _ _. (Inr sql, not_needed)),
     dw_interpolate = (\<lambda>sql _. Inr (sql, None)),
     dw_guards = \<lparr>w_parse = (\<lambda>_ _. Some [Select None False None]), w_python = (\<lambda>_ _. PyTimedOut), w_webhook = (\<lambda>_ _ _. WH_Error [])\<rparr>,
     dw_action_to_json = (\<lambda>a. Inr (act_guard a)), dw_actions_from_json = (\<lambda>_. None),
     dw_submit = Inr (Running ''b1'' None None), dw_executing_stored = Inr (), dw_show_error = (\<lambda>_. ''''),
     dw_now_queue = 0, dw_now_started = 0, dw_now_submitted = 0, dw_now_done = 0\<rparr>"

definition example_app :: AppState where
  "example_app = \<lparr>app_external_address = '''', app_instance_id = ''i'', app_has_capacity_store = False\<rparr>"

definition example_request :: DispatchRequest where
  "example_request = \<lparr>dr_query_id = ''q1'', dr_sql = ''SELECT * FROM orders'', dr_params = [],
     dr_session = SessionContext_default\<lparr>sess_user := Some ''ann''\<rparr>, dr_protocol = TrinoHttp, dr_group = ''g'', dr_already_queued = False,
     dr_queued_since = None, dr_sequence = 0, dr_auth = user_ctx ''ann''\<rparr>"

fun submits :: "ClusterName \<Rightarrow> string \<Rightarrow> QueryCredentials \<Rightarrow> Call \<Rightarrow> bool" where
  "submits cl sql cred (Submit cl' sql' _ cred' _ _) \<longleftrightarrow> cl' = cl \<and> sql' = sql \<and> cred' = cred"
| "submits cl sql cred _ \<longleftrightarrow> False"

abbreviation example_slot :: ClusterSlotGuard where
  "example_slot \<equiv> slot_new example_app ''g'' ''a'' ''q1''"

lemma example_admit: "dq_admit example_app example_live example_world example_request = (Next example_slot, [AcquiredSlot ''g'' ''a''])"
proof -
  have "fst (acquire_cluster quiet (\<lambda>_ _ _. PyNone) example_manager ''g'') = Inr (Some ''a'')"
    by (simp add: example_manager_eval)
  moreover have "\<not> should_yield_to_older_queued example_manager ''g'' (Inr 0)"
    by (simp add: should_yield_to_older_queued_def)
  ultimately show ?thesis
    by (simp add: dq_admit_def example_live_def example_world_def example_request_def example_app_def acquire_global_capacity_def)
qed

definition example_job :: Job where
  "example_job =
     \<lparr>j_slot = example_slot\<lparr>sg_started := True\<rparr>, j_queue_ms = 0,
      j_group_config_id = fst (cluster_db_ids example_manager ''g'' ''a''),
      j_cluster_config_id = snd (cluster_db_ids example_manager ''g'' ''a''), j_credentials = ServiceAccount,
      j_session = SessionContext_default\<lparr>sess_user := Some ''ann''\<rparr>, j_wire_auth = None,
      j_adapter = \<lparr>adp_engine_type = E_Trino, adp_dialect = D_Trino, adp_base_url = ''http://trino''\<rparr>,
      j_src = D_Trino, j_tags = [], j_agent = None\<rparr>"

lemmas example_defs = example_live_def example_world_def example_request_def example_app_def

lemma example_prepare:
  "dq_prepare example_live example_world example_request example_slot = (Next example_job, [QueryStarted ''g'' ''a''])"
proof -
  have "resolved_agent_context (SessionContext_default\<lparr>sess_user := Some ''ann''\<rparr>) = None" by code_simp
  then show ?thesis
  by (simp add: dq_prepare_def example_defs example_job_def Let_def mark_started_def slot_new_def
      enrich_session_for_passthrough_def resolve_stored_wire_auth_def resolve_src_dialect_def extra_get_def
      SessionContext_default_def merge_tags_def split: prod.splits)
qed

lemma example_access:
  obtains c cs where "dq_access example_live example_world example_request example_job = (Next c, cs)"
    and "ck_sql c = ''SELECT * FROM orders WHERE region = 1''" "ck_rewrote c" "ck_job c = example_job"
proof -
  have ctx: "stage_context (dr_sql example_request) (j_src example_job) (adp_engine_type (j_adapter example_job))
      (dr_group example_request) (dr_auth example_request) (j_session example_job) (j_tags example_job) = example_context"
    by (simp add: stage_context_def example_request_def example_job_def example_context_def user_ctx_def SessionContext_default_def)
  have drop: "example_job\<lparr>j_session := drop_unchecked_session_sql (j_session example_job)\<rparr> = example_job"
    by (simp add: example_job_def drop_unchecked_session_sql_def SessionContext_default_def)
  have on: "enabled_for_group example_guard (dr_group example_request)" "lv_access_guard example_live = Some example_guard"
      "dw_access example_world = example_access_world"
    by (simp_all add: enabled_for_group_def example_guard_def example_defs)
  obtain md where "opa_access_check example_access_world example_guard example_context = G_Rewrite ''SELECT * FROM orders WHERE region = 1'' md"
    using example_check(2) by (cases "opa_access_check example_access_world example_guard example_context") auto
  then show ?thesis
    using that on ctx drop by (fastforce simp: dq_access_def run_access_control_stage_def Let_def)
qed



lemma example_read: "is_read_like_sql (\<lambda>_ _. Some [Select None False None]) sql d"
  by (simp add: is_read_like_sql_def is_read_like_def parsed_def SqlParseCache_new_def Let_def)

lemma example_guard_pass:
  assumes "w_parse gw = (\<lambda>_ _. Some [Select None False None])"
  shows "\<exists>as. chain_run gw [ReadOnlyGuard] ctx L_Plan = (as, Proceed)"
  using assms by (simp add: chain_run_def read_only_check_def guard_statements_def allow_def Let_def)

lemma andThen_Next: "set (snd (andThen (Next x, cs) f)) = set cs \<union> set (snd (f x))"
  by (simp add: andThen_def split: prod.splits)

lemma stages_call: "c \<in> set (snd (dispatch_stages app live w r)) \<Longrightarrow> c \<in> set (snd (dispatch_query app live w r))"
  by (auto simp: dispatch_query_def split: prod.splits stage.splits)

lemma example_submit_calls:
  obtains c pm t actions where "ck_job c = example_job"
    and "set (snd (dq_submit example_app example_world example_request c pm t actions ''SELECT * FROM orders WHERE region = 1'' []))
      \<subseteq> set (snd (dispatch_query example_app example_live example_world example_request))"
proof -
  let ?sql = "''SELECT * FROM orders WHERE region = 1''"
  obtain c cs where 1: "dq_access example_live example_world example_request example_job = (Next c, cs)"
    and c: "ck_sql c = ''SELECT * FROM orders WHERE region = 1''" "ck_rewrote c" "ck_job c = example_job"
    by (rule example_access)
  have 2: "dq_translate example_world example_request c = (Next (?sql, not_needed), [TranslationCounted not_needed])"
    using c by (simp add: dq_translate_def example_defs should_attempt_translation_def)
  have 3: "dq_invariant example_world example_request c ?sql not_needed = (Next (), [])"
    by (simp add: dq_invariant_def example_world_def example_read)
  have 4: "dq_interpolate example_world example_request s ?sql = (Next (?sql, [], dw_guards example_world), [])" for s
    by (simp add: dq_interpolate_def example_request_def)
  obtain as where "chain_run (dw_guards example_world) [ReadOnlyGuard] (plan_context example_request (ck_job c) ?sql) L_Plan = (as, Proceed)"
    using example_guard_pass [of "dw_guards example_world"] by (auto simp: example_world_def)
  then have 5: "dq_guards example_live example_world example_request c pm t (dw_guards example_world) ?sql
      = (Next (ck_actions c @ as), [])" for pm t
    by (simp add: dq_guards_def live_chains_def example_live_def)
  let ?pm = "pipeline_compute (ck_sql c) ?sql (ck_rewrote c)"
  have "set (snd (dq_submit example_app example_world example_request c ?pm not_needed (ck_actions c @ as) ?sql []))
      \<subseteq> set (snd (dispatch_stages example_app example_live example_world example_request))"
    using c by (auto simp add: dispatch_stages_def example_admit example_prepare 1 2 3 4 5 andThen_Next Let_def)
  then show ?thesis using that [OF c(3)] stages_call by (meson subset_iff)
qed

lemma example_actions: "actions_to_json (\<lambda>a. Inr (act_guard a)) xs = Inr (map act_guard xs)"
  by (induction xs) auto

lemma example_submits:
  obtains session tags params where "Submit ''a'' ''SELECT * FROM orders WHERE region = 1'' session ServiceAccount tags params
     \<in> set (snd (dispatch_query example_app example_live example_world example_request))"
  by (rule example_submit_calls)
    (auto simp: dq_submit_def example_world_def Let_def example_job_def slot_new_def disarm_def example_actions)

lemma example_hands: "SlotHandedOver ''g'' ''a'' \<in> set (snd (dispatch_query example_app example_live example_world example_request))"
  by (rule example_submit_calls)
    (auto simp: dq_submit_def example_world_def example_request_def Let_def example_job_def slot_new_def disarm_def example_actions
      slot_backend_outcome_def)

theorem submitted_only_when_cleared_witness:
  "dispatch_cleared example_live example_world example_request ''a'' ''SELECT * FROM orders WHERE region = 1'' ServiceAccount"
proof -
  obtain session tags params where "Submit ''a'' ''SELECT * FROM orders WHERE region = 1'' session ServiceAccount tags params
     \<in> set (snd (dispatch_query example_app example_live example_world example_request))"
    by (rule example_submits)
  then show ?thesis by (rule submitted_only_when_cleared)
qed


end
