(* ===== verification/Query_End.thy ===== *)
theory Query_End
  imports Dispatch
begin

text \<open>
  How a query ends after \<open>dispatch_query\<close> has handed its slot over or put it in the queue: the history
  rows of \<open>crates/queryflux-frontend/src/state.rs\<close>, cancelling through the admin API (\<open>admin.rs\<close>) and the
  MCP server (\<open>mcp/tools.rs\<close>), and the sweeps of \<open>crates/queryflux/src/startup/tasks.rs\<close>. The replies of
  the store and of the engines are arguments. Of the polls and cancels of the frontends only the
  calls they make here are modelled.
\<close>

section \<open>History rows\<close>

text \<open>\<open>serde_json::from_value\<close> of the stored guard actions; a failure gives no actions.\<close>

type_synonym actions_reader = "json list \<Rightarrow> GuardAction list option"

definition stored_actions :: "actions_reader \<Rightarrow> ExecutingQuery \<Rightarrow> GuardAction list" where
  "stored_actions rd e = (case rd (ex_submitted_guard_actions e) of Some as \<Rightarrow> as | None \<Rightarrow> [])"

definition executing_context ::
  "ExecutingQuery \<Rightarrow> SessionContext \<Rightarrow> FrontendProtocol \<Rightarrow> EngineType \<Rightarrow> SqlDialect \<Rightarrow> SqlDialect \<Rightarrow> QueryContext" where
  "executing_context e session protocol engine src tgt =
     (let (original, meta) = pipeline_from_executing e in
      apply_pipeline
        \<lparr>qc_query_id = ex_id e, qc_sql = original, qc_session = session, qc_protocol = protocol,
         qc_group = ex_cluster_group e, qc_cluster = ex_cluster_name e,
         qc_cluster_group_config_id = ex_cluster_group_config_id e, qc_cluster_config_id = ex_cluster_config_id e,
         qc_engine_type = engine, qc_src_dialect = src, qc_tgt_dialect = tgt, qc_pipeline = no_pipeline,
         qc_translation = ex_translation e, qc_query_tags = ex_query_tags e, qc_query_params = [],
         qc_agent_context = ex_agent_context e\<rparr> meta)"

definition record_executing_cancelled ::
  "actions_reader \<Rightarrow> time \<Rightarrow> ExecutingQuery \<Rightarrow> FrontendProtocol \<Rightarrow> EngineType \<Rightarrow> SqlDialect \<Rightarrow> string \<Rightarrow> Call" where
  "record_executing_cancelled rd now e protocol engine tgt reason =
     RecordQuery
       (executing_context e
          (SessionContext_default\<lparr>sess_user := (if ex_submitted_by e = [] then None else Some (ex_submitted_by e))\<rparr>)
          protocol engine (default_dialect protocol) tgt)
       ((query_outcome S_Cancelled (Some reason) (stored_actions rd e))
          \<lparr>qo_backend_query_id := Some (ex_backend_query_id e),
           qo_execution_ms := ms_between (ex_creation_time e) now,
           qo_was_guard_blocked := ex_was_guard_blocked e,
           qo_queue_duration_ms := ex_queue_duration_ms e\<rparr>)"

text \<open>The id of the row is a new one.\<close>

definition record_routing_deny ::
  "ProxyQueryId \<Rightarrow> string \<Rightarrow> SessionContext \<Rightarrow> FrontendProtocol \<Rightarrow> string \<Rightarrow> RoutingTrace option \<Rightarrow> Call" where
  "record_routing_deny new_id sql session protocol message trace =
     RecordQuery
       \<lparr>qc_query_id = new_id, qc_sql = sql, qc_session = session, qc_protocol = protocol, qc_group = [],
        qc_cluster = [], qc_cluster_group_config_id = None, qc_cluster_config_id = None,
        qc_engine_type = E_Undispatched, qc_src_dialect = default_dialect protocol,
        qc_tgt_dialect = default_dialect protocol, qc_pipeline = no_pipeline, qc_translation = None,
        qc_query_tags = sess_tags session, qc_query_params = [],
        qc_agent_context = resolved_agent_context session\<rparr>
       ((query_outcome S_Denied (Some message) [])\<lparr>qo_routing_trace := trace\<rparr>)"

definition record_queued_terminal :: "time \<Rightarrow> QueuedQuery \<Rightarrow> QueryStatus \<Rightarrow> string \<Rightarrow> Call" where
  "record_queued_terminal now q status reason =
     (let session = (if sess_user (qq_session q) = None \<and> qq_submitted_by q \<noteq> []
            then (qq_session q)\<lparr>sess_user := Some (qq_submitted_by q)\<rparr> else qq_session q) in
      RecordQuery
        \<lparr>qc_query_id = qq_id q, qc_sql = qq_sql q, qc_session = session, qc_protocol = qq_frontend_protocol q,
         qc_group = qq_cluster_group q, qc_cluster = ''(not-dispatched)'', qc_cluster_group_config_id = None,
         qc_cluster_config_id = None, qc_engine_type = E_Undispatched,
         qc_src_dialect = default_dialect (qq_frontend_protocol q), qc_tgt_dialect = D_Generic,
         qc_pipeline = no_pipeline, qc_translation = None, qc_query_tags = sess_tags session,
         qc_query_params = [], qc_agent_context = resolved_agent_context session\<rparr>
        ((query_outcome status (Some reason) [])\<lparr>qo_queue_duration_ms := ms_between (qq_creation_time q) now\<rparr>))"

section \<open>Cancelling\<close>

text \<open>The replies to \<open>get\<close> and \<open>list_all\<close>.\<close>

definition find_executing_query ::
  "ExecutingQuery option result \<Rightarrow> ExecutingQuery list result \<Rightarrow> string \<Rightarrow> ExecutingQuery option result" where
  "find_executing_query got all qid =
     (case got of
        Inl e \<Rightarrow> Inl e
      | Inr (Some q) \<Rightarrow> Inr (Some q)
      | Inr None \<Rightarrow>
          (case all of Inl e \<Rightarrow> Inl e | Inr qs \<Rightarrow> Inr (find (\<lambda>q. ex_id q = qid) qs)))"

text \<open>What ends an executing query finds: its adapter, the engine's reply to the cancel, the stores' replies.\<close>

record EndWorld =
  ew_adapter :: "(EngineType \<times> SqlDialect) option"
  ew_cancel :: "unit result"
  ew_removed :: "bool result"
  ew_release_reply :: "unit result"
  ew_reader :: actions_reader
  ew_now :: time

definition cancel_executing_query ::
  "AppState \<Rightarrow> EndWorld \<Rightarrow> FrontendProtocol \<Rightarrow> ExecutingQuery \<Rightarrow> string \<Rightarrow> (string + unit) \<times> Call list" where
  "cancel_executing_query app w protocol e reason =
     (case ew_adapter w of
        None \<Rightarrow> (Inl ''failed to cancel query on backend'', [])
      | Some (engine, dialect) \<Rightarrow>
          let asked = CancelBackend (ex_backend_query_id e) (ex_wire_auth e) in
          (case ew_cancel w of
             Inl _ \<Rightarrow> (Inl ''failed to cancel query on backend'', [asked])
           | Inr _ \<Rightarrow>
               (case end_executing_query app (ew_release_reply w) (ew_removed w) e of
                  (ended, cs) \<Rightarrow>
                    (Inr (), asked # cs
                       @ (if ended then [record_executing_cancelled (ew_reader w) (ew_now w) e protocol engine dialect reason]
                          else [])))))"

record CancelWorld =
  cw_got :: "ExecutingQuery option result"
  cw_all :: "ExecutingQuery list result"
  cw_taken :: "QueuedQuery option result"
  cw_got_again :: "ExecutingQuery option result"
  cw_all_again :: "ExecutingQuery list result"
  cw_end :: EndWorld
  cw_coordinator :: bool

datatype CancelReply = CR_Cancelled | CR_Not_Found | CR_Failed string | CR_Refused string

text \<open>\<open>DELETE /admin/queries/{id}\<close>: the admin credentials are the privilege.\<close>

definition cancel_executing :: "AppState \<Rightarrow> EndWorld \<Rightarrow> ExecutingQuery \<Rightarrow> CancelReply \<times> Call list" where
  "cancel_executing app w e =
     (case cancel_executing_query app w TrinoHttp e ''admin cancelled'' of
        (Inr _, cs) \<Rightarrow> (CR_Cancelled, cs)
      | (Inl msg, cs) \<Rightarrow> (CR_Failed msg, cs))"

definition cancel_query_handler ::
  "(QueryFluxError \<Rightarrow> string) \<Rightarrow> AppState \<Rightarrow> CancelWorld \<Rightarrow> string \<Rightarrow> CancelReply \<times> Call list" where
  "cancel_query_handler show_error app w qid =
     (case find_executing_query (cw_got w) (cw_all w) qid of
        Inl e \<Rightarrow> (CR_Failed (show_error e), [])
      | Inr (Some e) \<Rightarrow> cancel_executing app (cw_end w) e
      | Inr None \<Rightarrow>
          (case cw_taken w of
             Inl e \<Rightarrow> (CR_Failed (show_error e), [TakeQueued qid])
           | Inr (Some q) \<Rightarrow>
               let before = [TakeQueued qid, record_queued_terminal (ew_now (cw_end w)) q S_Cancelled ''admin cancelled''] in
               (case find_executing_query (cw_got_again w) (cw_all_again w) qid of
                  Inl e \<Rightarrow> (CR_Failed (show_error e), before)
                | Inr (Some e) \<Rightarrow> (case cancel_executing app (cw_end w) e of (r, cs) \<Rightarrow> (r, before @ cs))
                | Inr None \<Rightarrow> (CR_Cancelled, before @ (if cw_coordinator w then [ReleaseClaim qid] else [])))
           | Inr None \<Rightarrow>
               (case find_executing_query (cw_got_again w) (cw_all_again w) qid of
                  Inl e \<Rightarrow> (CR_Failed (show_error e), [TakeQueued qid])
                | Inr (Some e) \<Rightarrow> (case cancel_executing app (cw_end w) e of (r, cs) \<Rightarrow> (r, TakeQueued qid # cs))
                | Inr None \<Rightarrow> (CR_Not_Found, [TakeQueued qid]))))"

text \<open>The MCP tool \<open>cancel_query\<close>: the caller is a regular user, who must own the query.\<close>

definition mcp_cancel_executing ::
  "(QueryFluxError \<Rightarrow> string) \<Rightarrow> AppState \<Rightarrow> EndWorld \<Rightarrow> AuthContext \<Rightarrow> ExecutingQuery \<Rightarrow> CancelReply \<times> Call list" where
  "mcp_cancel_executing show_error app w auth e =
     (case require_query_owner auth (ex_submitted_by e) of
        Inl err \<Rightarrow> (CR_Refused (show_error err), [])
      | Inr _ \<Rightarrow>
          (case cancel_executing_query app w Mcp e ''mcp cancelled'' of
             (Inr _, cs) \<Rightarrow> (CR_Cancelled, cs)
           | (Inl msg, cs) \<Rightarrow> (CR_Failed msg, cs)))"

definition mcp_cancel_query ::
  "(QueryFluxError \<Rightarrow> string) \<Rightarrow> AppState \<Rightarrow> CancelWorld \<Rightarrow> AuthContext \<Rightarrow> string \<Rightarrow> CancelReply \<times> Call list" where
  "mcp_cancel_query show_error app w auth qid =
     (case find_executing_query (cw_got w) (cw_all w) qid of
        Inl e \<Rightarrow> (CR_Failed (show_error e), [])
      | Inr (Some e) \<Rightarrow> mcp_cancel_executing show_error app (cw_end w) auth e
      | Inr None \<Rightarrow>
          (case cw_taken w of
             Inl e \<Rightarrow> (CR_Failed (show_error e), [TakeQueued qid])
           | Inr (Some q) \<Rightarrow>
               (case require_query_owner auth (qq_submitted_by q) of
                  Inl err \<Rightarrow> (CR_Refused (show_error err), [TakeQueued qid])
                | Inr _ \<Rightarrow>
                    let before = [TakeQueued qid, record_queued_terminal (ew_now (cw_end w)) q S_Cancelled ''mcp cancelled''] in
                    (case find_executing_query (cw_got_again w) (cw_all_again w) qid of
                       Inl e \<Rightarrow> (CR_Failed (show_error e), before)
                     | Inr (Some e) \<Rightarrow>
                         (case mcp_cancel_executing show_error app (cw_end w) auth e of (r, cs) \<Rightarrow> (r, before @ cs))
                     | Inr None \<Rightarrow> (CR_Cancelled, before)))
           | Inr None \<Rightarrow> (CR_Not_Found, [TakeQueued qid])))"

section \<open>Sweeps\<close>

definition CLIENT_TIMEOUT_SECS :: int where
  "CLIENT_TIMEOUT_SECS = 300"

definition ZOMBIE_REASON :: string where
  "ZOMBIE_REASON = ''zombie_evicted: not polled for >5 min''"

text \<open>
  One executing query of the sweep; \<open>known\<close> is the engine of a cluster without an adapter. The
  cancel of the backend is a task of its own.
\<close>

definition evict_zombie ::
  "AppState \<Rightarrow> EndWorld \<Rightarrow> EngineType \<times> SqlDialect \<Rightarrow> time \<Rightarrow> ExecutingQuery \<Rightarrow> Call list" where
  "evict_zombie app w known cutoff q =
     (if ex_last_accessed q < cutoff then
        (case end_executing_query app (ew_release_reply w) (ew_removed w) q of
           (False, cs) \<Rightarrow> cs
         | (True, cs) \<Rightarrow>
             let (engine, dialect) = (case ew_adapter w of Some a \<Rightarrow> a | None \<Rightarrow> known) in
             cs @ [record_executing_cancelled (ew_reader w) (ew_now w) q TrinoHttp engine dialect ZOMBIE_REASON]
             @ (if ew_adapter w \<noteq> None then [CancelBackend (ex_backend_query_id q) (ex_wire_auth q)] else []))
      else [])"

text \<open>One queued query of the other sweep; \<open>taken\<close> is the reply to \<open>take_queued\<close>.\<close>

definition sweep_queued :: "time \<Rightarrow> QueuedQuery option result \<Rightarrow> time \<Rightarrow> QueuedQuery \<Rightarrow> Call list" where
  "sweep_queued now taken cutoff q =
     (if qq_last_accessed q < cutoff then
        TakeQueued (qq_id q)
        # (case taken of
             Inr (Some t) \<Rightarrow>
               [record_queued_terminal now t S_Failed ''stale_queued_evicted: client disconnected before dispatch'']
           | _ \<Rightarrow> [])
      else [])"

section \<open>Slots of executing queries\<close>

text \<open>
  The life of all executing queries of a deployment. Dispatches run and leave rows in the store,
  each under an id its engine has not used before. A poll, a cancel or a sweep first loads a row, and
  may then end it, long after, while others do the same: what counts is whether the row is still
  there when the store is asked to delete it. Polls also renew a row. The store may also fail to answer the
  deletion, whether or not it took effect: the slot is then released all the same, and a release whose
  deletion did not take effect is a slip.
\<close>

fun use_change :: "cluster_key \<Rightarrow> Call \<Rightarrow> int" where
  "use_change k (AcquiredSlot g c) = (if at_key k g c then 1 else 0)"
| "use_change k (ReleaseCluster g c) = (if at_key k g c then -1 else 0)"
| "use_change k _ = 0"

fun active_change :: "cluster_key \<Rightarrow> Call \<Rightarrow> int" where
  "active_change k (QueryStarted g c) = (if at_key k g c then 1 else 0)"
| "active_change k (QueryFinished g c) = (if at_key k g c then -1 else 0)"
| "active_change k _ = 0"

definition in_use :: "cluster_key \<Rightarrow> Call list \<Rightarrow> int" where
  "in_use k cs = sum_list (map (use_change k) cs)"

definition active :: "cluster_key \<Rightarrow> Call list \<Rightarrow> int" where
  "active k cs = sum_list (map (active_change k) cs)"

lemma in_use_simps [simp]:
  "in_use k [] = 0" "in_use k (c # cs) = use_change k c + in_use k cs" "in_use k (cs @ ds) = in_use k cs + in_use k ds"
  by (simp_all add: in_use_def)

lemma active_simps [simp]:
  "active k [] = 0" "active k (c # cs) = active_change k c + active k cs" "active k (cs @ ds) = active k cs + active k ds"
  by (simp_all add: active_def)

lemma change_split: "slot_change k c = use_change k c - hand_change k c" "running_change k c = active_change k c - hand_change k c"
  by (cases c; simp)+

lemma owed_split: "slots_owed k cs = in_use k cs - handed k cs" "running_owed k cs = active k cs - handed k cs"
  by (induction cs) (simp_all add: change_split)

fun neutral :: "Call \<Rightarrow> bool" where
  "neutral (AcquiredSlot _ _) = False"
| "neutral (ReleaseCluster _ _) = False"
| "neutral (QueryStarted _ _) = False"
| "neutral (QueryFinished _ _) = False"
| "neutral _ = True"

lemma neutral_quiet: "list_all neutral cs \<Longrightarrow> in_use k cs = 0 \<and> active k cs = 0"
proof (induction cs)
  case (Cons c cs)
  then show ?case by (cases c) auto
qed simp

text \<open>What a request that holds \<open>row\<close> does when it ends it, \<open>removed\<close> being the store's reply to the deletion.\<close>

definition ends :: "AppState \<Rightarrow> ExecutingQuery \<Rightarrow> bool result \<Rightarrow> Call list \<Rightarrow> bool" where
  "ends app row removed cs \<longleftrightarrow>
     (\<exists>pre post reply. cs = pre @ snd (end_executing_query app reply removed row) @ post
        \<and> list_all neutral pre \<and> list_all neutral post)"

record Life =
  lf_rows :: "(BackendQueryId \<times> ExecutingQuery) list"
  lf_ids :: "BackendQueryId set"
  lf_held :: "ExecutingQuery set"
  lf_slips :: "ExecutingQuery list"
  lf_log :: "Call list"

inductive life :: "AppState \<Rightarrow> Life \<Rightarrow> bool" for app where
  start: "life app \<lparr>lf_rows = [], lf_ids = {}, lf_held = {}, lf_slips = [], lf_log = []\<rparr>"
| dispatched: "life app s \<Longrightarrow> dispatch_query app live w r = (Some res, calls) \<Longrightarrow>
    row_of (dw_executing_stored w) calls = Some row \<Longrightarrow> ex_backend_query_id row \<notin> lf_ids s \<Longrightarrow>
    life app (s\<lparr>lf_rows := (ex_backend_query_id row, row) # lf_rows s, lf_ids := insert (ex_backend_query_id row) (lf_ids s),
      lf_log := lf_log s @ calls\<rparr>)"
| refused: "life app s \<Longrightarrow> dispatch_query app live w r = (Some res, calls) \<Longrightarrow>
    row_of (dw_executing_stored w) calls = None \<Longrightarrow> life app (s\<lparr>lf_log := lf_log s @ calls\<rparr>)"
| loaded: "life app s \<Longrightarrow> map_of (lf_rows s) b = Some row \<Longrightarrow> life app (s\<lparr>lf_held := insert row (lf_held s)\<rparr>)"
| renewed: "life app s \<Longrightarrow> map_of (lf_rows s) b = Some row \<Longrightarrow>
    life app (s\<lparr>lf_rows := AList.update b (row\<lparr>ex_last_accessed := t\<rparr>) (lf_rows s)\<rparr>)"
| ended: "life app s \<Longrightarrow> row \<in> lf_held s \<Longrightarrow>
    ends app row (Inr (map_of (lf_rows s) (ex_backend_query_id row) \<noteq> None)) cs \<Longrightarrow>
    life app (s\<lparr>lf_rows := AList.delete (ex_backend_query_id row) (lf_rows s), lf_log := lf_log s @ cs\<rparr>)"
| unanswered: "life app s \<Longrightarrow> row \<in> lf_held s \<Longrightarrow> map_of (lf_rows s) (ex_backend_query_id row) \<noteq> None \<Longrightarrow> ends app row (Inl e) cs \<Longrightarrow>
    life app (s\<lparr>lf_rows := AList.delete (ex_backend_query_id row) (lf_rows s), lf_log := lf_log s @ cs\<rparr>)"
| slipped: "life app s \<Longrightarrow> row \<in> lf_held s \<Longrightarrow> ends app row (Inl e) cs \<Longrightarrow>
    life app (s\<lparr>lf_slips := row # lf_slips s, lf_log := lf_log s @ cs\<rparr>)"
| idle: "life app s \<Longrightarrow> list_all neutral cs \<Longrightarrow> life app (s\<lparr>lf_log := lf_log s @ cs\<rparr>)"

definition life_ok :: "Life \<Rightarrow> bool" where
  "life_ok s \<longleftrightarrow>
     distinct (map fst (lf_rows s)) \<and> dom (map_of (lf_rows s)) \<subseteq> lf_ids s \<and> ex_backend_query_id ` lf_held s \<subseteq> lf_ids s
     \<and> (\<forall>b row. map_of (lf_rows s) b = Some row \<longrightarrow> ex_backend_query_id row = b)
     \<and> (\<forall>h \<in> lf_held s. \<forall>row. map_of (lf_rows s) (ex_backend_query_id h) = Some row \<longrightarrow>
          ex_cluster_group row = ex_cluster_group h \<and> ex_cluster_name row = ex_cluster_name h)"

definition rows_at :: "cluster_key \<Rightarrow> (BackendQueryId \<times> ExecutingQuery) list \<Rightarrow> int" where
  "rows_at k rows = int (length (filter (\<lambda>(_, row). row_at k row) rows))"

definition slips_at :: "cluster_key \<Rightarrow> ExecutingQuery list \<Rightarrow> int" where
  "slips_at k slips = int (length (filter (row_at k) slips))"

lemma slips_at_simps [simp]: "slips_at k [] = 0" "slips_at k (row # slips) = (if row_at k row then 1 else 0) + slips_at k slips"
  by (simp_all add: slips_at_def)

lemma rows_at_Cons [simp]: "rows_at k ((b, row) # rows) = (if row_at k row then 1 else 0) + rows_at k rows"
  by (simp add: rows_at_def)

lemma rows_at_update:
  "map_of rows b = Some old \<Longrightarrow> row_at k row = row_at k old \<Longrightarrow> rows_at k (AList.update b row rows) = rows_at k rows"
  by (induction rows) (auto split: if_splits)

lemma rows_at_delete:
  "distinct (map fst rows) \<Longrightarrow>
   rows_at k (AList.delete b rows) = rows_at k rows - (case map_of rows b of Some row \<Rightarrow> if row_at k row then 1 else 0 | None \<Rightarrow> 0)"
proof (induction rows)
  case (Cons p rows)
  obtain c row where p: "p = (c, row)" by (cases p)
  have "map_of rows b = None" if "c = b" using Cons.prems p that by (simp add: map_of_eq_None_iff)
  then show ?case using Cons p by (cases "c = b") (auto simp: delete_id split: option.splits)
qed (simp add: rows_at_def)

lemma life_okI:
  assumes "distinct (map fst (lf_rows s))" "dom (map_of (lf_rows s)) \<subseteq> lf_ids s" "\<And>h. h \<in> lf_held s \<Longrightarrow> ex_backend_query_id h \<in> lf_ids s"
    and "\<And>b row. map_of (lf_rows s) b = Some row \<Longrightarrow> ex_backend_query_id row = b"
    and "\<And>h row. h \<in> lf_held s \<Longrightarrow> map_of (lf_rows s) (ex_backend_query_id h) = Some row \<Longrightarrow>
      ex_cluster_group row = ex_cluster_group h \<and> ex_cluster_name row = ex_cluster_name h"
  shows "life_ok s"
  using assms unfolding life_ok_def by blast

lemma life_okD:
  assumes "life_ok s"
  shows "distinct (map fst (lf_rows s))" "dom (map_of (lf_rows s)) \<subseteq> lf_ids s" "h \<in> lf_held s \<Longrightarrow> ex_backend_query_id h \<in> lf_ids s"
    and "map_of (lf_rows s) b = Some row \<Longrightarrow> ex_backend_query_id row = b"
    and "h \<in> lf_held s \<Longrightarrow> map_of (lf_rows s) (ex_backend_query_id h) = Some row \<Longrightarrow>
      ex_cluster_group row = ex_cluster_group h \<and> ex_cluster_name row = ex_cluster_name h"
  using assms unfolding life_ok_def by blast+

lemma life_ok: "life app s \<Longrightarrow> life_ok s"
proof (induction rule: life.induct)
  case start
  show ?case by (simp add: life_ok_def)
next
  case (dispatched s live w r res calls row)
  note D = life_okD [OF dispatched.IH]
  have new: "ex_backend_query_id row \<notin> dom (map_of (lf_rows s))" using D(2) dispatched(4) by blast
  have held: "h \<in> lf_held s \<Longrightarrow> ex_backend_query_id h \<noteq> ex_backend_query_id row" for h
    using D(3) [of h] dispatched(4) by auto
  show ?case
  proof (rule life_okI)
    show "distinct (map fst (lf_rows (s\<lparr>lf_rows := (ex_backend_query_id row, row) # lf_rows s,
        lf_ids := insert (ex_backend_query_id row) (lf_ids s), lf_log := lf_log s @ calls\<rparr>)))"
      using new D(1) by (simp add: dom_map_of_conv_image_fst)
  qed (use D held in \<open>auto split: if_splits\<close>)
next
  case (refused s live w r res calls)
  then show ?case by (simp add: life_ok_def)
next
  case (loaded s b row)
  note D = life_okD [OF loaded.IH]
  have b: "ex_backend_query_id row = b" "b \<in> lf_ids s" using D(2,4) loaded(2) by auto
  show ?case by (rule life_okI) (use D b loaded(2) in \<open>auto simp del: map_of_eq_Some_iff\<close>)
next
  case (renewed s b row t)
  note D = life_okD [OF renewed.IH]
  have b: "ex_backend_query_id row = b" "b \<in> lf_ids s" using D(2,4) renewed(2) by auto
  show ?case
    by (rule life_okI) (use D b renewed(2) in \<open>auto simp: update_conv' distinct_update split: if_splits\<close>)
next
  case (ended s row cs)
  note D = life_okD [OF ended.IH]
  show ?case
    by (rule life_okI) (use D in \<open>auto simp: delete_conv' distinct_delete split: if_splits\<close>)
next
  case (unanswered s row e cs)
  note D = life_okD [OF unanswered.IH]
  show ?case
    by (rule life_okI) (use D in \<open>auto simp: delete_conv' distinct_delete split: if_splits\<close>)
next
  case (slipped s row e cs)
  then show ?case by (simp add: life_ok_def)
next
  case (idle s cs)
  then show ?case by (simp add: life_ok_def)
qed

lemma end_calls:
  "in_use k (snd (end_executing_query app reply removed row)) = (if removed \<noteq> Inr False \<and> row_at k row then -1 else 0)"
  "active k (snd (end_executing_query app reply removed row)) = (if removed \<noteq> Inr False \<and> row_at k row then -1 else 0)"
  by (auto simp: end_executing_query_def release_query_slot_def Let_def row_at_def split: bool.splits sum.splits)

lemma ends_calls:
  assumes "ends app row removed cs"
  shows "in_use k cs = (if removed \<noteq> Inr False \<and> row_at k row then -1 else 0)
    \<and> active k cs = (if removed \<noteq> Inr False \<and> row_at k row then -1 else 0)"
  using assms neutral_quiet [of _ k] end_calls [of k app _ removed row] unfolding ends_def by fastforce

lemma dispatch_use:
  assumes "dispatch_query app live w r = (Some res, calls)"
  shows "in_use k calls = handed k calls \<and> active k calls = handed k calls"
  using dispatch_pays [of app live w r k] assms owed_split [of k calls] by auto

text \<open>
  Claim C3. The slots of a deployment are accounted for: whatever dispatches, polls, cancels and sweeps run and
  however they race, the slots in use on a cluster of a group, and its running queries, are exactly the
  executing queries stored for it, less one for every request to end a query whose deletion failed and did not take
  effect. So while the store answers its deletions no slot is lost and none is given back twice.
\<close>
theorem executing_slots_exact:
  assumes "life app s"
  shows "in_use k (lf_log s) = rows_at k (lf_rows s) - slips_at k (lf_slips s)
    \<and> active k (lf_log s) = rows_at k (lf_rows s) - slips_at k (lf_slips s)"
  using assms
proof (induction rule: life.induct)
  case (dispatched s live w r res calls row)
  then show ?case using dispatch_use [OF dispatched(2), of k] dispatch_hands [OF dispatched(2), of k] by simp
next
  case (refused s live w r res calls)
  then show ?case using dispatch_use [OF refused(2), of k] dispatch_hands [OF refused(2), of k] by simp
next
  case (renewed s b row t)
  then show ?case using rows_at_update [OF renewed(2), of k "row\<lparr>ex_last_accessed := t\<rparr>"] by (simp add: row_at_def)
next
  case (ended s row cs)
  then show ?case
    using life_ok [OF ended(1)] ends_calls [OF ended(3), of k] rows_at_delete [of "lf_rows s" k "ex_backend_query_id row"]
    by (auto simp: life_ok_def row_at_def split: option.splits)
next
  case (unanswered s row e cs)
  then show ?case
    using life_ok [OF unanswered(1)] ends_calls [OF unanswered(4), of k] rows_at_delete [of "lf_rows s" k "ex_backend_query_id row"]
    by (auto simp: life_ok_def row_at_def split: option.splits)
next
  case (slipped s row e cs)
  then show ?case using ends_calls [OF slipped(3), of k] by auto
next
  case (idle s cs)
  then show ?case using neutral_quiet [of cs k] by simp
qed (auto simp: rows_at_def)

text \<open>Cancels and sweeps are such requests.\<close>

lemma endsI:
  "list_all neutral pre \<Longrightarrow> list_all neutral post \<Longrightarrow> ends app row removed (pre @ snd (end_executing_query app reply removed row) @ post)"
  unfolding ends_def by blast

lemma record_neutral [simp]:
  "neutral (record_executing_cancelled rd now e protocol engine tgt reason)"
  "neutral (record_queued_terminal now q status reason)"
  "neutral (record_routing_deny new_id sql session protocol message trace)"
  by (simp_all add: record_executing_cancelled_def record_queued_terminal_def record_routing_deny_def Let_def)

lemma cancel_ends:
  assumes "cancel_executing_query app w protocol e reason = (res, cs)"
  shows "ends app e (ew_removed w) cs \<or> list_all neutral cs"
proof (cases "ew_adapter w")
  case (Some a)
  obtain engine dialect where a: "a = (engine, dialect)" by (cases a)
  show ?thesis
  proof (cases "ew_cancel w")
    case (Inr u)
    let ?e = "end_executing_query app (ew_release_reply w) (ew_removed w) e"
    have "cs = [CancelBackend (ex_backend_query_id e) (ex_wire_auth e)] @ snd ?e
        @ (if fst ?e then [record_executing_cancelled (ew_reader w) (ew_now w) e protocol engine dialect reason] else [])"
      using assms Some a Inr by (auto simp: cancel_executing_query_def Let_def split: prod.splits)
    then show ?thesis
      using endsI [of "[CancelBackend (ex_backend_query_id e) (ex_wire_auth e)]"
          "if fst ?e then [record_executing_cancelled (ew_reader w) (ew_now w) e protocol engine dialect reason] else []"
          app e "ew_removed w" "ew_release_reply w"] by auto
  qed (use assms Some a in \<open>auto simp: cancel_executing_query_def Let_def\<close>)
qed (use assms in \<open>auto simp: cancel_executing_query_def\<close>)

lemma zombie_ends:
  "ends app q (ew_removed w) (evict_zombie app w known cutoff q) \<or> evict_zombie app w known cutoff q = []"
proof (cases "ex_last_accessed q < cutoff")
  case True
  let ?e = "end_executing_query app (ew_release_reply w) (ew_removed w) q"
  have "\<exists>post. evict_zombie app w known cutoff q = snd ?e @ post \<and> list_all neutral post"
    using True by (cases ?e) (auto simp: evict_zombie_def Let_def split: prod.splits bool.splits)
  then show ?thesis using endsI [of "[]" _ app q "ew_removed w" "ew_release_reply w"] by auto
qed (simp add: evict_zombie_def)

text \<open>Who may cancel through MCP, and that a refusal there may already have removed a queued query.\<close>

lemma mcp_cancel_executing_owned:
  "CancelBackend b wire \<in> set (snd (mcp_cancel_executing sh app w auth e)) \<Longrightarrow>
   is_query_owner auth (ex_submitted_by e) \<and> b = ex_backend_query_id e"
  by (auto simp: mcp_cancel_executing_def cancel_executing_query_def require_query_owner_def Let_def
      end_executing_query_def release_query_slot_def record_executing_cancelled_def
      split: sum.splits option.splits if_splits prod.splits bool.splits)

lemma mcp_cancel_owned:
  assumes "CancelBackend b wire \<in> set (snd (mcp_cancel_query sh app w auth qid))"
  shows "\<exists>e. is_query_owner auth (ex_submitted_by e) \<and> b = ex_backend_query_id e
    \<and> (find_executing_query (cw_got w) (cw_all w) qid = Inr (Some e)
       \<or> find_executing_query (cw_got_again w) (cw_all_again w) qid = Inr (Some e))"
proof -
  have pair: "mcp_cancel_executing sh app (cw_end w) auth e = (res, cs) \<Longrightarrow> CancelBackend b wire \<in> set cs \<Longrightarrow>
      is_query_owner auth (ex_submitted_by e) \<and> b = ex_backend_query_id e" for e res cs
    using mcp_cancel_executing_owned [of b wire sh app "cw_end w" auth e] by simp
  show ?thesis
    using assms
    by (auto simp: mcp_cancel_query_def Let_def record_queued_terminal_def dest: mcp_cancel_executing_owned pair
        split: sum.splits option.splits prod.splits)
qed

lemma mcp_refused_cancel_removes:
  assumes "find_executing_query (cw_got w) (cw_all w) qid = Inr None" "cw_taken w = Inr (Some q)"
    and "\<not> is_query_owner auth (qq_submitted_by q)"
  shows "\<exists>msg. mcp_cancel_query sh app w auth qid = (CR_Refused msg, [TakeQueued qid])"
  using assms by (simp add: mcp_cancel_query_def require_query_owner_def)

section \<open>Example\<close>

text \<open>The example query of \<open>Dispatch\<close> runs: one row is stored, and one slot is in use.\<close>

lemma handed_pos: "SlotHandedOver g c \<in> set calls \<Longrightarrow> handed (Slots_Of g c) calls > 0"
proof -
  have nonneg: "handed k cs \<ge> 0" for k cs
    unfolding handed_def
  proof (rule sum_list_nonneg)
    fix x
    assume "x \<in> set (map (hand_change k) cs)"
    then obtain d where "x = hand_change k d" by auto
    then show "0 \<le> x" by (cases d) auto
  qed
  assume "SlotHandedOver g c \<in> set calls"
  then obtain pre post where "calls = pre @ SlotHandedOver g c # post" by (metis split_list)
  then show ?thesis using nonneg [of "Slots_Of g c" pre] nonneg [of "Slots_Of g c" post] by (simp add: at_key_def)
qed

theorem executing_slots_exact_witness:
  "\<exists>s. life example_app s \<and> length (lf_rows s) = 1 \<and> in_use (Slots_Of ''g'' ''a'') (lf_log s) = 1
     \<and> active (Slots_Of ''g'' ''a'') (lf_log s) = 1"
proof -
  let ?k = "Slots_Of ''g'' ''a''"
  obtain res calls where D: "dispatch_query example_app example_live example_world example_request = (Some res, calls)"
    using dispatch_pays by metis
  have "handed ?k calls > 0" using handed_pos example_hands D by (metis snd_conv)
  then obtain row where row: "row_of (dw_executing_stored example_world) calls = Some row" "row_at ?k row"
    using dispatch_hands [OF D, of ?k] by (auto split: option.splits if_splits)
  let ?s = "\<lparr>lf_rows = [(ex_backend_query_id row, row)], lf_ids = {ex_backend_query_id row}, lf_held = {}, lf_slips = [], lf_log = calls\<rparr>"
  have "life example_app ?s" using life.dispatched [OF life.start D row(1)] by simp
  moreover have "rows_at ?k (lf_rows ?s) = 1" using row(2) by (simp add: rows_at_def)
  ultimately show ?thesis using executing_slots_exact [of example_app ?s ?k] by (intro exI [of _ ?s]) simp
qed

end
