(* ===== verification/Result_Cache.thy ===== *)
theory Result_Cache
  imports Dispatch_Slot
begin

text \<open>
  The query result cache of \<open>crates/queryflux-cache\<close> and the sink that fills it
  (\<open>crates/queryflux-frontend/src/tee_sink.rs\<close>): the key of a result, the hints that ask for
  caching, the writer and the replay of an entry kept as an Arrow stream in object storage with its
  metadata in the persistence layer. The hash function, the Arrow format and the object store are
  other people's code: the hash and the format are arguments, and what the object store answers is
  an argument of each operation.
\<close>

section \<open>Bytes\<close>

text \<open>UTF-8 of the characters of the model, and the little-endian bytes of a length.\<close>

definition utf8_char :: "char \<Rightarrow> u8 list" where
  "utf8_char c =
     (let n = of_char c :: nat in
      if n < 0x80 then [of_nat n] else [of_nat (0xC0 + n div 64), of_nat (0x80 + n mod 64)])"

definition as_bytes :: "string \<Rightarrow> u8 list" where
  "as_bytes s = concat (map utf8_char s)"

definition to_le_bytes :: "u64 \<Rightarrow> u8 list" where
  "to_le_bytes w = map (\<lambda>i. ucast (drop_bit (8 * i) w)) [0..<8]"

definition byte_tag :: "char \<Rightarrow> u8" where
  "byte_tag c = of_char c"

section \<open>Keys\<close>

text \<open>The hasher is fed piece by piece; \<open>hash_bytes\<close> and the rest give the bytes they feed.\<close>

definition hash_bytes :: "u8 list \<Rightarrow> u8 list" where
  "hash_bytes v = to_le_bytes (of_nat (length v)) @ v"

definition hash_field :: "char \<Rightarrow> u8 list \<Rightarrow> u8 list" where
  "hash_field tag v = byte_tag tag # hash_bytes v"

definition hash_optional :: "char \<Rightarrow> string option \<Rightarrow> u8 list" where
  "hash_optional tag v =
     [byte_tag tag, if v \<noteq> None then 1 else 0] @ (case v of Some s \<Rightarrow> hash_bytes (as_bytes s) | None \<Rightarrow> [])"

fun hash_param :: "QueryParam \<Rightarrow> u8 list" where
  "hash_param (P_Text v) = hash_field CHR ''t'' (as_bytes v)"
| "hash_param (P_Numeric v) = hash_field CHR ''n'' (as_bytes v)"
| "hash_param (P_Boolean v) = hash_field CHR ''b'' [if v then 1 else 0]"
| "hash_param (P_Date v) = hash_field CHR ''d'' (as_bytes v)"
| "hash_param (P_Timestamp v) = hash_field CHR ''s'' (as_bytes v)"
| "hash_param (P_Time v) = hash_field CHR ''m'' (as_bytes v)"
| "hash_param P_Null = hash_field CHR ''0'' []"

definition hash_scope :: "u8 list \<Rightarrow> u8 list" where
  "hash_scope scope = (if scope \<noteq> [] then hash_field CHR ''N'' scope else [])"

definition key_input ::
  "string \<Rightarrow> string \<Rightarrow> u8 list \<Rightarrow> SessionContext \<Rightarrow> string \<Rightarrow> QueryParams \<Rightarrow> u8 list" where
  "key_input sql grp scope session user params =
     as_bytes ''queryflux:result-cache:v1'' @ [0]
     @ hash_field CHR ''S'' (as_bytes sql)
     @ hash_field CHR ''G'' (as_bytes grp)
     @ hash_field CHR ''U'' (as_bytes user)
     @ hash_optional CHR ''C'' (sess_catalog session)
     @ hash_optional CHR ''D'' (sess_database session)
     @ [byte_tag CHR ''P''] @ to_le_bytes (of_nat (length params))
     @ concat (map hash_param params)
     @ hash_scope scope"

record CacheKey =
  key_hex :: string
  key_group :: string

text \<open>\<open>format!("{:016x}", w)\<close>.\<close>

definition hex16 :: "u64 \<Rightarrow> string" where
  "hex16 w = map (\<lambda>i. ''0123456789abcdef'' ! unat (take_bit 4 (drop_bit (4 * i) w))) (rev [0..<16])"

definition new_scoped ::
  "(u8 list \<Rightarrow> u64) \<Rightarrow> string \<Rightarrow> string \<Rightarrow> u8 list \<Rightarrow> SessionContext \<Rightarrow> string \<Rightarrow> QueryParams \<Rightarrow> CacheKey" where
  "new_scoped xxh64 sql grp scope session user params =
     \<lparr>key_hex = hex16 (xxh64 (key_input sql grp scope session user params)), key_group = grp\<rparr>"

definition cache_key_new ::
  "(u8 list \<Rightarrow> u64) \<Rightarrow> string \<Rightarrow> string \<Rightarrow> SessionContext \<Rightarrow> string \<Rightarrow> QueryParams \<Rightarrow> CacheKey" where
  "cache_key_new xxh64 sql grp session user params = new_scoped xxh64 sql grp [] session user params"

definition key_storage_path :: "CacheKey \<Rightarrow> string" where
  "key_storage_path k = key_group k @ ''/'' @ key_hex k @ ''.arrow''"

definition show_cache_key :: "CacheKey \<Rightarrow> string" where
  "show_cache_key k = key_group k @ '':'' @ key_hex k"

section \<open>Injectivity of the key\<close>

lemma byte_eq_iff: "x < 256 \<Longrightarrow> y < 256 \<Longrightarrow> (of_nat x :: u8) = of_nat y \<longleftrightarrow> x = y"
  by (simp add: word_of_nat_eq_iff take_bit_eq_mod)

lemma utf8_char_prefix: "utf8_char c @ r = utf8_char d @ s \<Longrightarrow> c = d \<and> r = s"
proof -
  assume eq: "utf8_char c @ r = utf8_char d @ s"
  define m n where mn: "m = (of_char c :: nat)" "n = (of_char d :: nat)"
  have b: "m < 256" "n < 256" by (simp_all add: mn)
  have "m = n \<and> r = s"
  proof (cases "m < 0x80")
    case True
    then show ?thesis
      using eq b by (cases "n < 0x80") (auto simp: utf8_char_def Let_def byte_eq_iff simp del: of_nat_add simp flip: mn)
  next
    case False
    then have n: "\<not> n < 0x80"
      using eq b by (auto simp: utf8_char_def Let_def byte_eq_iff simp del: of_nat_add simp flip: mn)
    have "m div 64 < 4" "n div 64 < 4" "m mod 64 < 64" "n mod 64 < 64" using b by auto
    then have "m div 64 = n div 64" "m mod 64 = n mod 64" "r = s"
      using False n eq byte_eq_iff [of "0xC0 + m div 64" "0xC0 + n div 64"] byte_eq_iff [of "0x80 + m mod 64" "0x80 + n mod 64"]
      by (simp_all add: utf8_char_def Let_def del: of_nat_add flip: mn)
    then show ?thesis by (metis div_mult_mod_eq)
  qed
  then show ?thesis by (simp add: mn)
qed

lemma utf8_char_not_Nil [simp]: "utf8_char c \<noteq> []"
  by (simp add: utf8_char_def Let_def)

lemma as_bytes_eq_iff [simp]: "as_bytes a = as_bytes b \<longleftrightarrow> a = b"
proof
  assume "as_bytes a = as_bytes b"
  then show "a = b"
  proof (induction a arbitrary: b)
    case Nil
    then show ?case by (cases b) (auto simp: as_bytes_def)
  next
    case (Cons c a)
    then obtain d b' where b: "b = d # b'" by (cases b) (auto simp: as_bytes_def)
    then have "c = d" "as_bytes a = as_bytes b'"
      using Cons.prems utf8_char_prefix [of c "as_bytes a" d "as_bytes b'"] by (simp_all add: as_bytes_def)
    then show ?case using Cons.IH b by simp
  qed
qed simp

lemma length_to_le_bytes [simp]: "length (to_le_bytes w) = 8"
  by (simp add: to_le_bytes_def)

lemma chunk_bits:
  assumes "0 < k" and "\<And>i. i < n \<Longrightarrow> take_bit k (drop_bit (k * i) v) = take_bit k (drop_bit (k * i) (w :: u64))" and "k * n = 64"
  shows "v = w"
proof (rule bit_word_eqI)
  fix j assume "j < LENGTH(64)"
  then have "j div k < n" using assms(1,3) by (simp add: less_mult_imp_div_less mult.commute)
  then have "bit (take_bit k (drop_bit (k * (j div k)) v)) (j mod k) = bit (take_bit k (drop_bit (k * (j div k)) w)) (j mod k)"
    using assms(2) by simp
  then show "bit v j = bit w j" using assms(1) by (simp add: bit_take_bit_iff bit_drop_bit_eq)
qed

lemma to_le_bytes_inject [simp]: "to_le_bytes v = to_le_bytes w \<longleftrightarrow> v = w"
proof
  assume eq: "to_le_bytes v = to_le_bytes w"
  show "v = w"
  proof (rule chunk_bits [of 8 8])
    fix i :: nat assume "i < 8"
    then have "to_le_bytes v ! i = (ucast (drop_bit (8 * i) v) :: u8)" "to_le_bytes w ! i = (ucast (drop_bit (8 * i) w) :: u8)"
      by (simp_all add: to_le_bytes_def)
    then have "(ucast (drop_bit (8 * i) v) :: u8) = ucast (drop_bit (8 * i) w)" using eq by simp
    then have "(ucast (ucast (drop_bit (8 * i) v) :: u8) :: u64) = ucast (ucast (drop_bit (8 * i) w) :: u8)" by simp
    then show "take_bit 8 (drop_bit (8 * i) v) = take_bit 8 (drop_bit (8 * i) w)"
      by (simp only: unsigned_ucast_eq) simp
  qed simp_all
qed simp

text \<open>A length fits a machine word, as that of every vector and string does.\<close>

definition addressable :: "'a list \<Rightarrow> bool" where
  "addressable xs \<longleftrightarrow> length xs < 2 ^ 64"

lemma length_word_inject: "addressable a \<Longrightarrow> addressable b \<Longrightarrow> (of_nat (length a) :: u64) = of_nat (length b) \<longleftrightarrow> length a = length b"
  by (simp add: addressable_def word_of_nat_eq_iff take_bit_eq_mod)

lemma hash_bytes_prefix:
  "addressable a \<Longrightarrow> addressable b \<Longrightarrow> hash_bytes a @ r = hash_bytes b @ s \<longleftrightarrow> a = b \<and> r = s"
  by (auto simp: hash_bytes_def length_word_inject)

lemma hash_field_prefix:
  "addressable a \<Longrightarrow> addressable b \<Longrightarrow> hash_field t a @ r = hash_field u b @ s \<longleftrightarrow> byte_tag t = byte_tag u \<and> a = b \<and> r = s"
  by (simp add: hash_field_def hash_bytes_prefix)

lemma hash_optional_prefix:
  assumes "\<And>x. a = Some x \<Longrightarrow> addressable (as_bytes x)" "\<And>x. b = Some x \<Longrightarrow> addressable (as_bytes x)"
  shows "hash_optional t a @ r = hash_optional t b @ s \<longleftrightarrow> a = b \<and> r = s"
  using assms by (cases a; cases b) (simp_all add: hash_optional_def hash_bytes_prefix)

fun param_fits :: "QueryParam \<Rightarrow> bool" where
  "param_fits (P_Text v) = addressable (as_bytes v)"
| "param_fits (P_Numeric v) = addressable (as_bytes v)"
| "param_fits (P_Date v) = addressable (as_bytes v)"
| "param_fits (P_Timestamp v) = addressable (as_bytes v)"
| "param_fits (P_Time v) = addressable (as_bytes v)"
| "param_fits _ = True"

lemma addressable_small [simp]: "addressable []" "addressable [x]"
  by (simp_all add: addressable_def)

lemma hash_param_prefix:
  "param_fits p \<Longrightarrow> param_fits q \<Longrightarrow> hash_param p @ r = hash_param q @ s \<longleftrightarrow> p = q \<and> r = s"
  by (cases p; cases q) (auto simp: hash_field_prefix byte_tag_def)

lemma hash_params_prefix:
  "list_all param_fits ps \<Longrightarrow> list_all param_fits qs \<Longrightarrow> length ps = length qs \<Longrightarrow>
   concat (map hash_param ps) @ r = concat (map hash_param qs) @ s \<longleftrightarrow> ps = qs \<and> r = s"
proof (induction ps arbitrary: qs)
  case (Cons p ps)
  then obtain q qs' where "qs = q # qs'" by (cases qs) auto
  then show ?case using Cons by (auto simp: hash_param_prefix)
qed simp

text \<open>Every part of a request that a key is made of has a length that fits a machine word.\<close>

definition key_fits :: "string \<Rightarrow> string \<Rightarrow> u8 list \<Rightarrow> SessionContext \<Rightarrow> string \<Rightarrow> QueryParams \<Rightarrow> bool" where
  "key_fits sql grp scope session user params \<longleftrightarrow>
     addressable (as_bytes sql) \<and> addressable (as_bytes grp) \<and> addressable scope \<and> addressable (as_bytes user)
     \<and> (case sess_catalog session of Some c \<Rightarrow> addressable (as_bytes c) | None \<Rightarrow> True)
     \<and> (case sess_database session of Some d \<Rightarrow> addressable (as_bytes d) | None \<Rightarrow> True)
     \<and> addressable params \<and> list_all param_fits params"

lemma key_input_eq_iff:
  assumes "key_fits sql g sc s u ps" "key_fits sql' g' sc' s' u' ps'"
  shows "key_input sql g sc s u ps = key_input sql' g' sc' s' u' ps' \<longleftrightarrow>
    sql = sql' \<and> g = g' \<and> u = u' \<and> sess_catalog s = sess_catalog s' \<and> sess_database s = sess_database s' \<and> ps = ps' \<and> sc = sc'"
proof -
  have opt: "hash_optional t (sess_catalog s) @ r = hash_optional t (sess_catalog s') @ q \<longleftrightarrow> sess_catalog s = sess_catalog s' \<and> r = q"
      "hash_optional t (sess_database s) @ r = hash_optional t (sess_database s') @ q \<longleftrightarrow> sess_database s = sess_database s' \<and> r = q" for t r q
    using assms by (auto intro!: hash_optional_prefix simp: key_fits_def)
  have len: "(of_nat (length ps) :: u64) = of_nat (length ps') \<longleftrightarrow> length ps = length ps'"
    using assms by (simp add: key_fits_def length_word_inject)
  have par: "concat (map hash_param ps) @ r = concat (map hash_param ps') @ q \<longleftrightarrow> ps = ps' \<and> r = q" if "length ps = length ps'" for r q
    using assms that by (simp add: key_fits_def hash_params_prefix)
  have sco: "hash_scope sc = hash_scope sc' \<longleftrightarrow> sc = sc'"
    using assms hash_field_prefix [of sc sc' "CHR ''N''" "[]" "CHR ''N''" "[]"]
    by (auto simp: key_fits_def hash_scope_def hash_field_def)
  have fld: "hash_field t (as_bytes sql) @ r = hash_field t (as_bytes sql') @ q \<longleftrightarrow> sql = sql' \<and> r = q"
      "hash_field t (as_bytes g) @ r = hash_field t (as_bytes g') @ q \<longleftrightarrow> g = g' \<and> r = q"
      "hash_field t (as_bytes u) @ r = hash_field t (as_bytes u') @ q \<longleftrightarrow> u = u' \<and> r = q" for t r q
    using assms by (simp_all add: key_fits_def hash_field_prefix)
  show ?thesis
    using len par by (auto simp: key_input_def fld opt sco)
qed

lemma hex_digit_inject: "i < 16 \<Longrightarrow> j < 16 \<Longrightarrow> ''0123456789abcdef'' ! i = ''0123456789abcdef'' ! j \<longleftrightarrow> i = j"
  by (intro nth_eq_iff_index_eq) simp_all

lemma hex16_inject [simp]: "hex16 v = hex16 w \<longleftrightarrow> v = w"
proof
  assume eq: "hex16 v = hex16 w"
  show "v = w"
  proof (rule chunk_bits [of 4 16])
    fix i :: nat assume i: "i < 16"
    have d: "unat (take_bit 4 (drop_bit (4 * i) x)) < 16" for x :: u64
      using take_bit_nat_less_exp [of 4 "unat (drop_bit (4 * i) x)"] by (simp add: unsigned_take_bit_eq)
    have "hex16 x ! (15 - i) = ''0123456789abcdef'' ! unat (take_bit 4 (drop_bit (4 * i) x))" for x
      using i rev_nth [of "15 - i" "[0..<16]"] less_imp_diff_less [of 15 16 i] by (simp add: hex16_def)
    then show "take_bit 4 (drop_bit (4 * i) v) = take_bit 4 (drop_bit (4 * i) w)"
      using eq hex_digit_inject [OF d [of v] d [of w]] by (metis word_unat_eq_iff)
  qed simp_all
qed simp

lemma length_hex16 [simp]: "length (hex16 w) = 16"
  by (simp add: hex16_def)

lemma key_storage_path_inject:
  "length (key_hex j) = length (key_hex k) \<Longrightarrow> key_storage_path j = key_storage_path k \<longleftrightarrow> j = k"
  by (auto simp: key_storage_path_def simp flip: append_assoc append_Cons)

text \<open>
  Claim C23. Two requests share a cached result exactly when they are the same question: the same SQL, group,
  user, catalog, database, parameters in order and configuration of the group. A value cannot run into
  its neighbour, an absent value differs from an empty one, and a parameter's type counts. The hash of
  the two requests is assumed not to collide.
\<close>
theorem result_key_exact:
  assumes "key_fits sql g sc s u ps" "key_fits sql' g' sc' s' u' ps'"
    and "xxh64 (key_input sql g sc s u ps) = xxh64 (key_input sql' g' sc' s' u' ps') \<Longrightarrow>
      key_input sql g sc s u ps = key_input sql' g' sc' s' u' ps'"
  shows "key_storage_path (new_scoped xxh64 sql g sc s u ps) = key_storage_path (new_scoped xxh64 sql' g' sc' s' u' ps') \<longleftrightarrow>
    sql = sql' \<and> g = g' \<and> u = u' \<and> sess_catalog s = sess_catalog s' \<and> sess_database s = sess_database s' \<and> ps = ps' \<and> sc = sc'"
proof -
  have "xxh64 (key_input sql g sc s u ps) = xxh64 (key_input sql' g' sc' s' u' ps') \<longleftrightarrow>
      key_input sql g sc s u ps = key_input sql' g' sc' s' u' ps'"
    using assms(3) by auto
  then show ?thesis
    by (subst key_storage_path_inject) (auto simp: new_scoped_def key_input_eq_iff [OF assms(1,2)])
qed

theorem result_key_exact_witness:
  "key_storage_path (new_scoped (\<lambda>bs. if bs = key_input ''q'' ''g'' [] SessionContext_default ''ann'' [P_Text ''1''] then 1 else 0)
      ''q'' ''g'' [] SessionContext_default ''ann'' [P_Text ''1''])
   \<noteq> key_storage_path (new_scoped (\<lambda>bs. if bs = key_input ''q'' ''g'' [] SessionContext_default ''ann'' [P_Text ''1''] then 1 else 0)
      ''q'' ''g'' [] SessionContext_default ''ann'' [P_Numeric ''1''])"
proof -
  have a: "addressable (as_bytes s)" if "length s < 100" for s
  proof -
    have "length (as_bytes s) \<le> 2 * length s"
      by (induction s) (auto simp: as_bytes_def utf8_char_def Let_def)
    then show ?thesis using that by (simp add: addressable_def)
  qed
  have fits: "key_fits ''q'' ''g'' [] SessionContext_default ''ann'' [p]" if "param_fits p" for p
    using that by (simp add: key_fits_def SessionContext_default_def a)
  have p: "param_fits (P_Text ''1'')" "param_fits (P_Numeric ''1'')" by (simp_all add: a)
  let ?h = "\<lambda>bs. if bs = key_input ''q'' ''g'' [] SessionContext_default ''ann'' [P_Text ''1''] then (1 :: u64) else 0"
  have "?h (key_input ''q'' ''g'' [] SessionContext_default ''ann'' [P_Text ''1''])
      = ?h (key_input ''q'' ''g'' [] SessionContext_default ''ann'' [P_Numeric ''1'']) \<Longrightarrow>
      key_input ''q'' ''g'' [] SessionContext_default ''ann'' [P_Text ''1'']
      = key_input ''q'' ''g'' [] SessionContext_default ''ann'' [P_Numeric ''1'']"
    by (simp split: if_splits)
  from result_key_exact [OF fits [OF p(1)] fits [OF p(2)], of ?h, OF this] show ?thesis by blast
qed

section \<open>Hints\<close>

record CacheHint =
  ch_ttl_secs :: "u64 option"

record GroupCacheConfig =
  gcc_enabled :: bool
  gcc_ttl_secs :: u64
  gcc_max_entry_size_mb :: "u64 option"

definition to_group_config :: "CacheHint \<Rightarrow> GroupCacheConfig" where
  "to_group_config h =
     \<lparr>gcc_enabled = True, gcc_ttl_secs = (case ch_ttl_secs h of Some t \<Rightarrow> t | None \<Rightarrow> 300), gcc_max_entry_size_mb = None\<rparr>"

text \<open>The longest prefix of at most \<open>n\<close> bytes, cut at \<open>floor_char_boundary\<close>.\<close>

fun floor_prefix :: "nat \<Rightarrow> string \<Rightarrow> string" where
  "floor_prefix n [] = []"
| "floor_prefix n (c # cs) = (if len_utf8 c \<le> n then c # floor_prefix (n - len_utf8 c) cs else [])"

text \<open>
  \<open>/\*\s*queryflux:cache(?::ttl=(\d+))?\s*\*/\<close> at one position: the digits of the lifetime, if the
  comment has one. The search takes the leftmost position.
\<close>

definition closes_comment :: "string \<Rightarrow> bool" where
  "closes_comment s \<longleftrightarrow> starts_with ''*/'' (dropWhile is_whitespace s)"

definition cache_comment_at :: "string \<Rightarrow> string option option" where
  "cache_comment_at s =
     (case strip_prefix ''/*'' s of
        None \<Rightarrow> None
      | Some r \<Rightarrow>
          (case strip_prefix ''queryflux:cache'' (dropWhile is_whitespace r) of
             None \<Rightarrow> None
           | Some rest \<Rightarrow>
               (case strip_prefix '':ttl='' rest of
                  Some t \<Rightarrow>
                    let ds = takeWhile is_digit t in
                    if ds \<noteq> [] \<and> closes_comment (dropWhile is_digit t) then Some (Some ds) else None
                | None \<Rightarrow> if closes_comment rest then Some None else None)))"

fun cache_comment :: "string \<Rightarrow> string option option" where
  "cache_comment [] = None"
| "cache_comment (c # cs) =
     (case cache_comment_at (c # cs) of Some r \<Rightarrow> Some r | None \<Rightarrow> cache_comment cs)"

definition hint_of_tag_or_comment :: "(string option \<Rightarrow> u64 option) \<Rightarrow> string \<Rightarrow> SessionContext \<Rightarrow> CacheHint option" where
  "hint_of_tag_or_comment ttl_of sql session =
     (case map_of (sess_tags session) ''queryflux:cache'' of
        Some tag_val \<Rightarrow> Some \<lparr>ch_ttl_secs = ttl_of (Option.bind tag_val (strip_prefix ''ttl=''))\<rparr>
      | None \<Rightarrow>
          (case cache_comment (floor_prefix 200 sql) of
             Some ttl \<Rightarrow> Some \<lparr>ch_ttl_secs = ttl_of ttl\<rparr>
           | None \<Rightarrow> None))"

definition extract_cache_hint :: "string \<Rightarrow> SessionContext \<Rightarrow> CacheHint option" where
  "extract_cache_hint sql session =
     (let ttl_of = (\<lambda>v. map_option of_nat (Option.bind v parse_u64)) in
      case extra_get session ''x-queryflux-cache'' of
        Some val \<Rightarrow>
          if eq_ignore_ascii_case val ''true'' \<or> val = ''1'' then
            Some \<lparr>ch_ttl_secs = ttl_of (extra_get session ''x-queryflux-cache-ttl'')\<rparr>
          else hint_of_tag_or_comment ttl_of sql session
      | None \<Rightarrow> hint_of_tag_or_comment ttl_of sql session)"

section \<open>Sinks\<close>

text \<open>
  A sink takes the events of a result one at a time, answers each, and makes calls of its own. The
  client is a sink: it has seen some events and answers depending on them.
\<close>

type_synonym 's sink = "'s \<Rightarrow> SinkEvent \<Rightarrow> unit result \<times> 's \<times> Call list"

definition client_sink :: "(SinkEvent list \<Rightarrow> unit result) \<Rightarrow> SinkEvent list sink" where
  "client_sink reply seen ev = (reply (seen @ [ev]), seen @ [ev], [Sink ev])"

fun run_sink :: "'s sink \<Rightarrow> 's \<Rightarrow> SinkEvent list \<Rightarrow> unit result list \<times> 's" where
  "run_sink snk s [] = ([], s)"
| "run_sink snk s (ev # evs) =
     (case snk s ev of (r, s', _) \<Rightarrow> (case run_sink snk s' evs of (rs, s'') \<Rightarrow> (r # rs, s'')))"

fun is_translated_event :: "SinkEvent \<Rightarrow> bool" where
  "is_translated_event (On_Translated_Sql _) = True"
| "is_translated_event _ = False"

fun is_sink_call :: "Call \<Rightarrow> bool" where
  "is_sink_call (Sink _) = True"
| "is_sink_call (CacheSchema _) = True"
| "is_sink_call (CacheBatch _) = True"
| "is_sink_call (CacheFinish _) = True"
| "is_sink_call _ = False"

fun sink_events :: "Call list \<Rightarrow> SinkEvent list" where
  "sink_events [] = []"
| "sink_events (Sink ev # cs) = ev # sink_events cs"
| "sink_events (c # cs) = sink_events cs"

lemma sink_events_append [simp]: "sink_events (cs @ ds) = sink_events cs @ sink_events ds"
  by (induction cs rule: sink_events.induct) auto

text \<open>
  What the dispatcher relies on: a sink shows its client each event at most once, in order, and only
  the announcement of the translated SQL may be swallowed; it calls nothing but the client and the cache.
\<close>

locale result_sink =
  fixes step :: "'s sink"
  assumes step_shows: "step s ev = (r, s', cs) \<Longrightarrow> sink_events cs = [ev] \<or> is_translated_event ev \<and> sink_events cs = []"
    and step_calls: "step s ev = (r, s', cs) \<Longrightarrow> c \<in> set cs \<Longrightarrow> is_sink_call c"
begin

lemma step_quiet: "step s ev = (r, s', cs) \<Longrightarrow> slots_owed k cs = 0 \<and> running_owed k cs = 0"
proof -
  have "\<forall>c \<in> set cs. is_sink_call c \<Longrightarrow> slots_owed k cs = 0 \<and> running_owed k cs = 0" for cs
  proof (induction cs)
    case (Cons c cs)
    then show ?case by (cases c) auto
  qed simp
  then show "step s ev = (r, s', cs) \<Longrightarrow> slots_owed k cs = 0 \<and> running_owed k cs = 0" using step_calls by blast
qed

end

interpretation client: result_sink "client_sink reply"
  by unfold_locales (auto simp: client_sink_def)

section \<open>The writer of an entry\<close>

text \<open>The Arrow stream format: what it refuses, how long the text of a stream is, and both directions.\<close>

record ipc =
  ipc_opens :: "string \<Rightarrow> bool"
  ipc_accepts :: "string \<Rightarrow> RecordBatch list \<Rightarrow> RecordBatch \<Rightarrow> bool"
  ipc_size :: "string \<Rightarrow> RecordBatch list \<Rightarrow> u64"
  ipc_encode :: "string \<Rightarrow> RecordBatch list \<Rightarrow> u8 list option"
  ipc_decode :: "u8 list \<Rightarrow> (string \<times> (string + RecordBatch) list) option"

record CacheState =
  rc_files :: "(string \<times> u8 list) list"
  rc_store :: InMemory

record CacheWriter =
  cw_key :: CacheKey
  cw_ttl_secs :: u64
  cw_ipc :: "(string \<times> RecordBatch list) option"
  cw_row_count :: u64

text \<open>
  What the stores answer to \<open>finalize\<close>: to the write (after a timeout the file may be there or not), to
  the metadata, to the clean-up; and \<open>now + Duration::seconds(n)\<close>, which panics (\<open>None\<close>) out of range.
\<close>

datatype WriteReply = W_Ok | W_Failed string | W_Timed_Out bool

record WriteWorld =
  ww_write :: WriteReply
  ww_upsert :: "string + unit"
  ww_deleted :: bool
  ww_now :: time
  ww_plus_secs :: "int \<Rightarrow> time option"

definition cache_writer :: "CacheKey \<Rightarrow> u64 \<Rightarrow> CacheWriter" where
  "cache_writer k ttl = \<lparr>cw_key = k, cw_ttl_secs = ttl, cw_ipc = None, cw_row_count = 0\<rparr>"

definition write_schema :: "ipc \<Rightarrow> CacheWriter \<Rightarrow> string \<Rightarrow> bool \<times> CacheWriter" where
  "write_schema f w schema =
     (if ipc_opens f schema then (True, w\<lparr>cw_ipc := Some (schema, [])\<rparr>) else (False, w))"

definition write_batch :: "ipc \<Rightarrow> CacheWriter \<Rightarrow> RecordBatch \<Rightarrow> bool \<times> CacheWriter" where
  "write_batch f w b =
     (case cw_ipc w of
        None \<Rightarrow> (True, w)
      | Some (schema, bs) \<Rightarrow>
          let w' = w\<lparr>cw_row_count := cw_row_count w + rb_rows b\<rparr> in
          if ipc_accepts f schema bs b then (True, w'\<lparr>cw_ipc := Some (schema, bs @ [b])\<rparr>) else (False, w'))"

definition bytes_written :: "ipc \<Rightarrow> CacheWriter \<Rightarrow> u64" where
  "bytes_written f w = (case cw_ipc w of Some (schema, bs) \<Rightarrow> ipc_size f schema bs | None \<Rightarrow> 0)"

definition delete_file :: "bool \<Rightarrow> string \<Rightarrow> CacheState \<Rightarrow> CacheState" where
  "delete_file ok path st = (if ok then st\<lparr>rc_files := AList.delete path (rc_files st)\<rparr> else st)"

definition cache_finalize ::
  "ipc \<Rightarrow> WriteWorld \<Rightarrow> CacheState \<Rightarrow> CacheWriter \<Rightarrow> bool \<Rightarrow> ((string + unit) \<times> CacheState \<times> CacheWriter) option" where
  "cache_finalize f ww st w success =
     (let w' = w\<lparr>cw_ipc := None\<rparr>; path = key_storage_path (cw_key w) in
      if \<not> success then Some (Inr (), st, w')
      else
        (case cw_ipc w of
           None \<Rightarrow> Some (Inr (), st, w')
         | Some (schema, bs) \<Rightarrow>
             (case ipc_encode f schema bs of
                None \<Rightarrow> Some (Inl ''ipc'', st, w')
              | Some buffer \<Rightarrow>
                  let written = st\<lparr>rc_files := AList.update path buffer (rc_files st)\<rparr> in
                  (case ww_write ww of
                     W_Failed e \<Rightarrow> Some (Inl (''cache write to '' @ path @ '': '' @ e), st, w')
                   | W_Timed_Out landed \<Rightarrow> Some (Inr (), if landed then written else st, w')
                   | W_Ok \<Rightarrow>
                       (case ww_plus_secs ww (sint (cw_ttl_secs w)) of
                          None \<Rightarrow> None
                        | Some expires \<Rightarrow>
                            let entry = \<lparr>ce_cache_key = key_hex (cw_key w), ce_group_name = key_group (cw_key w),
                                  ce_created_at = ww_now ww, ce_expires_at = expires,
                                  ce_row_count = Some (sint (cw_row_count w)), ce_size_bytes = Some (int (length buffer))\<rparr>
                            in
                            (case ww_upsert ww of
                               Inl e \<Rightarrow> Some (Inl (''cache metadata upsert failed: '' @ e), delete_file (ww_deleted ww) path written, w')
                             | Inr _ \<Rightarrow> Some (Inr (), written\<lparr>rc_store := cache_upsert (rc_store written) entry\<rparr>, w')))))))"

section \<open>Replaying and invalidating\<close>

record CacheHitStats =
  chs_row_count :: u64
  chs_size_bytes :: u64

record ReadWorld =
  rw_lookup_ok :: bool
  rw_read_ok :: bool
  rw_now :: time

fun replay ::
  "(QueryFluxError \<Rightarrow> string) \<Rightarrow> 's sink \<Rightarrow> string \<Rightarrow> (string + RecordBatch) list \<Rightarrow> bool \<Rightarrow> u64 \<Rightarrow> 's
   \<Rightarrow> (string + u64 option) \<times> 's \<times> Call list" where
  "replay msg_of snk schema [] started rows s =
     (if started then (Inr (Some rows), s, [])
      else
        (case snk s (On_Schema schema) of
           (Inl e, s', cs) \<Rightarrow> (Inl (msg_of e), s', cs)
         | (Inr _, s', cs) \<Rightarrow> (Inr (Some rows), s', cs)))"
| "replay msg_of snk schema (Inl e # rest) started rows s =
     (if started then (Inl (''cache IPC batch read error after partial replay: '' @ e), s, []) else (Inr None, s, []))"
| "replay msg_of snk schema (Inr b # rest) started rows s =
     (case (if started then (Inr (), s, []) else snk s (On_Schema schema)) of
        (Inl e, s1, cs1) \<Rightarrow> (Inl (msg_of e), s1, cs1)
      | (Inr _, s1, cs1) \<Rightarrow>
          (case snk s1 (On_Batch b) of
             (Inl e, s2, cs2) \<Rightarrow> (Inl (msg_of e), s2, cs1 @ cs2)
           | (Inr _, s2, cs2) \<Rightarrow>
               (case replay msg_of snk schema rest True (rows + rb_rows b) s2 of
                  (res, s3, cs3) \<Rightarrow> (res, s3, cs1 @ cs2 @ cs3))))"

definition try_stream_cached ::
  "ipc \<Rightarrow> (QueryFluxError \<Rightarrow> string) \<Rightarrow> ReadWorld \<Rightarrow> CacheState \<Rightarrow> CacheKey \<Rightarrow> 's sink \<Rightarrow> 's
   \<Rightarrow> (string + CacheHitStats option) \<times> 's \<times> Call list" where
  "try_stream_cached f msg_of rw st k snk s =
     (case (if rw_lookup_ok rw then cache_get_valid (rc_store st) (rw_now rw) (key_hex k) else None) of
        None \<Rightarrow> (Inr None, s, [])
      | Some entry \<Rightarrow>
          (case (if rw_read_ok rw then map_of (rc_files st) (key_storage_path k) else None) of
             None \<Rightarrow> (Inr None, s, [])
           | Some data \<Rightarrow>
               (case ipc_decode f data of
                  None \<Rightarrow> (Inr None, s, [])
                | Some (schema, batches) \<Rightarrow>
                    (case replay msg_of snk schema batches False 0 s of
                       (Inl e, s', cs) \<Rightarrow> (Inl e, s', cs)
                     | (Inr None, s', cs) \<Rightarrow> (Inr None, s', cs)
                     | (Inr (Some rows), s', cs) \<Rightarrow>
                         (Inr (Some \<lparr>chs_row_count = rows,
                            chs_size_bytes = of_int (case ce_size_bytes entry of Some n \<Rightarrow> n | None \<Rightarrow> int (length data))\<rparr>),
                          s', cs)))))"

definition drop_files :: "(string \<Rightarrow> bool) \<Rightarrow> CacheEntryRef list \<Rightarrow> CacheState \<Rightarrow> CacheState" where
  "drop_files deleted refs st = foldl (\<lambda>st r. delete_file (deleted (storage_path r)) (storage_path r) st) st refs"

definition invalidated ::
  "(string \<Rightarrow> bool) \<Rightarrow> (InMemory \<Rightarrow> CacheEntryRef list \<times> InMemory) \<Rightarrow> bool \<Rightarrow> CacheState \<Rightarrow> u64 option \<times> CacheState" where
  "invalidated deleted del ok st =
     (if ok then
        (case del (rc_store st) of
           (refs, store) \<Rightarrow> (Some (of_nat (length refs)), drop_files deleted refs (st\<lparr>rc_store := store\<rparr>)))
      else (None, st))"

definition invalidate_group :: "(string \<Rightarrow> bool) \<Rightarrow> bool \<Rightarrow> CacheState \<Rightarrow> string \<Rightarrow> u64 option \<times> CacheState" where
  "invalidate_group deleted ok st grp = invalidated deleted (\<lambda>m. cache_delete_by_group m grp) ok st"

definition invalidate_all :: "(string \<Rightarrow> bool) \<Rightarrow> bool \<Rightarrow> CacheState \<Rightarrow> u64 option \<times> CacheState" where
  "invalidate_all deleted ok st = invalidated deleted cache_delete_all ok st"

definition cleanup_expired :: "(string \<Rightarrow> bool) \<Rightarrow> bool \<Rightarrow> time \<Rightarrow> CacheState \<Rightarrow> u64 option \<times> CacheState" where
  "cleanup_expired deleted ok now st = invalidated deleted (\<lambda>m. cache_delete_expired m now) ok st"

section \<open>The tee\<close>

record 's TeeResultSink =
  tee_inner :: 's
  tee_writer :: CacheWriter
  tee_max_bytes :: "u64 option"
  tee_active :: bool
  tee_committed :: bool
  tee_finalized :: bool

definition tee_new :: "'s \<Rightarrow> CacheWriter \<Rightarrow> u64 option \<Rightarrow> 's TeeResultSink" where
  "tee_new s w mx =
     \<lparr>tee_inner = s, tee_writer = w, tee_max_bytes = mx, tee_active = True, tee_committed = False, tee_finalized = False\<rparr>"

definition check_size :: "ipc \<Rightarrow> 's TeeResultSink \<Rightarrow> bool" where
  "check_size f t = (case tee_max_bytes t of Some mx \<Rightarrow> mx < bytes_written f (tee_writer t) | None \<Rightarrow> False)"

definition abandon_cache :: "'s TeeResultSink \<Rightarrow> 's TeeResultSink \<times> Call list" where
  "abandon_cache t =
     (if tee_finalized t then (t\<lparr>tee_active := False\<rparr>, [])
      else (t\<lparr>tee_active := False, tee_finalized := True, tee_writer := (tee_writer t)\<lparr>cw_ipc := None\<rparr>\<rparr>, [CacheFinish False]))"

text \<open>What the tee does with an event before it passes it on; \<open>on_translated_sql\<close> is not passed on.\<close>

fun tee_before :: "ipc \<Rightarrow> 's TeeResultSink \<Rightarrow> SinkEvent \<Rightarrow> 's TeeResultSink \<times> Call list" where
  "tee_before f t (On_Schema schema) =
     (if tee_active t then
        (case write_schema f (tee_writer t) schema of
           (ok, w) \<Rightarrow>
             (if ok then (t\<lparr>tee_writer := w\<rparr>, [CacheSchema schema])
              else (case abandon_cache (t\<lparr>tee_writer := w\<rparr>) of (t', cs) \<Rightarrow> (t', CacheSchema schema # cs))))
      else (t, []))"
| "tee_before f t (On_Batch b) =
     (if tee_active t then
        (case write_batch f (tee_writer t) b of
           (ok, w) \<Rightarrow>
             (if ok \<and> \<not> check_size f (t\<lparr>tee_writer := w\<rparr>) then (t\<lparr>tee_writer := w\<rparr>, [CacheBatch b])
              else (case abandon_cache (t\<lparr>tee_writer := w\<rparr>) of (t', cs) \<Rightarrow> (t', CacheBatch b # cs))))
      else (t, []))"
| "tee_before f t (On_Complete stats) = (t, [])"
| "tee_before f t (On_Error m) = abandon_cache t"
| "tee_before f t (On_Native_Chunk c) = abandon_cache t"
| "tee_before f t (On_Translated_Sql sql) = (t, [])"

definition tee_sink :: "ipc \<Rightarrow> 's sink \<Rightarrow> 's TeeResultSink sink" where
  "tee_sink f down t ev =
     (if is_translated_event ev then (Inr (), t, [])
      else
        (case tee_before f t ev of
           (t1, cs1) \<Rightarrow> (case down (tee_inner t1) ev of (r, s', cs2) \<Rightarrow> (r, t1\<lparr>tee_inner := s'\<rparr>, cs1 @ cs2))))"

definition finalize_cache ::
  "ipc \<Rightarrow> WriteWorld \<Rightarrow> CacheState \<Rightarrow> 's TeeResultSink \<Rightarrow> bool \<Rightarrow> ('s TeeResultSink \<times> CacheState \<times> Call list) option" where
  "finalize_cache f ww st t success =
     (if tee_finalized t then Some (t, st, [])
      else
        (let keep = tee_active t \<and> success in
         case cache_finalize f ww st (tee_writer t) keep of
           None \<Rightarrow> None
         | Some (res, st', w) \<Rightarrow>
             Some (t\<lparr>tee_finalized := True, tee_writer := w,
                      tee_committed := tee_committed t \<or> (keep \<and> res = Inr ())\<rparr>,
                   st', [CacheFinish keep])))"

lemma abandon_quiet: "sink_events (snd (abandon_cache t)) = []" "c \<in> set (snd (abandon_cache t)) \<Longrightarrow> is_sink_call c"
    "tee_inner (fst (abandon_cache t)) = tee_inner t"
  by (auto simp: abandon_cache_def split: if_splits)

lemma tee_before_quiet:
  "sink_events (snd (tee_before f t ev)) = []" "c \<in> set (snd (tee_before f t ev)) \<Longrightarrow> is_sink_call c"
  "tee_inner (fst (tee_before f t ev)) = tee_inner t"
  by (cases ev; auto simp: abandon_cache_def split: prod.splits if_splits)+

text \<open>The tee is a sink whatever sink it wraps.\<close>

context result_sink
begin

lemma tee_is_sink: "result_sink (tee_sink f step)"
proof
  fix t ev r t' cs
  assume T: "tee_sink f step t ev = (r, t', cs)"
  obtain t1 cs1 where B: "tee_before f t ev = (t1, cs1)" by (cases "tee_before f t ev")
  obtain r2 s2 cs2 where D: "step (tee_inner t1) ev = (r2, s2, cs2)" by (metis prod_cases3)
  have quiet: "sink_events cs1 = []" "\<forall>c \<in> set cs1. is_sink_call c" using tee_before_quiet(1) [of f t ev] tee_before_quiet(2) [of _ f t ev] B by auto
  show "sink_events cs = [ev] \<or> is_translated_event ev \<and> sink_events cs = []"
    using T B D step_shows [OF D] quiet by (auto simp: tee_sink_def split: if_splits)
  show "is_sink_call c" if "c \<in> set cs" for c
    using T B D step_calls [OF D] quiet that by (auto simp: tee_sink_def split: if_splits)
qed

end

interpretation tee: result_sink "tee_sink f (client_sink reply)"
  by (rule client.tee_is_sink)

text \<open>The client of a cached query sees what it would see without the cache, and its answers count the same.\<close>

lemma tee_step_inner:
  "\<not> is_translated_event ev \<Longrightarrow> tee_sink f down t ev = (r, t', cs) \<Longrightarrow>
   \<exists>ds. down (tee_inner t) ev = (r, tee_inner t', ds)"
  using tee_before_quiet(3) [of f t ev] by (auto simp: tee_sink_def split: prod.splits)

lemma tee_run_inner:
  "run_sink (tee_sink f down) t evs = (rs, t') \<Longrightarrow>
   run_sink down (tee_inner t) (filter (\<lambda>ev. \<not> is_translated_event ev) evs)
     = (map fst (filter (\<lambda>(_, ev). \<not> is_translated_event ev) (zip rs evs)), tee_inner t')
   \<and> length rs = length evs \<and> (\<forall>(r, ev) \<in> set (zip rs evs). is_translated_event ev \<longrightarrow> r = Inr ())"
proof (induction evs arbitrary: t rs)
  case (Cons ev evs)
  obtain r t1 cs where st: "tee_sink f down t ev = (r, t1, cs)" by (metis prod_cases3)
  obtain rs' where rs': "run_sink (tee_sink f down) t1 evs = (rs', t')" "rs = r # rs'"
    using Cons.prems st by (auto split: prod.splits)
  show ?case
  proof (cases "is_translated_event ev")
    case True
    then have "t1 = t" "r = Inr ()" using st by (auto simp: tee_sink_def)
    then show ?thesis using Cons.IH [OF rs'(1)] rs'(2) True by simp
  next
    case False
    then obtain ds where ds: "down (tee_inner t) ev = (r, tee_inner t1, ds)" using tee_step_inner [OF _ st] by auto
    show ?thesis using Cons.IH [OF rs'(1)] rs' ds False by simp
  qed
qed simp
text \<open>The stream a list of events amounts to: a schema and the batches after it.\<close>

fun stream_step :: "(string \<times> RecordBatch list) option \<Rightarrow> SinkEvent \<Rightarrow> (string \<times> RecordBatch list) option" where
  "stream_step str (On_Schema schema) = Some (schema, [])"
| "stream_step str (On_Batch b) = map_option (\<lambda>(schema, bs). (schema, bs @ [b])) str"
| "stream_step str ev = str"

definition stream_of :: "SinkEvent list \<Rightarrow> (string \<times> RecordBatch list) option" where
  "stream_of evs = foldl stream_step None evs"

fun spoils_cache :: "SinkEvent \<Rightarrow> bool" where
  "spoils_cache (On_Error _) = True"
| "spoils_cache (On_Native_Chunk _) = True"
| "spoils_cache _ = False"

definition tee_ok :: "SinkEvent list \<Rightarrow> 's TeeResultSink \<Rightarrow> bool" where
  "tee_ok evs t \<longleftrightarrow>
     (tee_active t \<longrightarrow> cw_ipc (tee_writer t) = stream_of evs \<and> (\<forall>ev \<in> set evs. \<not> spoils_cache ev))
     \<and> (tee_finalized t \<longleftrightarrow> \<not> tee_active t) \<and> \<not> tee_committed t"

lemma stream_of_snoc: "stream_of (evs @ [ev]) = stream_step (stream_of evs) ev"
  by (simp add: stream_of_def)

lemma tee_ok_step: "tee_ok evs t \<Longrightarrow> tee_sink f down t ev = (r, t', cs) \<Longrightarrow> tee_ok (evs @ [ev]) t'"
  by (cases ev)
    (auto simp: tee_ok_def tee_sink_def stream_of_snoc abandon_cache_def write_schema_def write_batch_def Let_def
      split: if_splits prod.splits option.splits)

lemma tee_ok_run: "tee_ok pre t \<Longrightarrow> run_sink (tee_sink f down) t evs = (rs, t') \<Longrightarrow> tee_ok (pre @ evs) t'"
proof (induction evs arbitrary: pre t rs)
  case (Cons ev evs)
  obtain r t1 cs where st: "tee_sink f down t ev = (r, t1, cs)" by (metis prod_cases3)
  then show ?case using Cons.IH [OF tee_ok_step [OF Cons.prems(1) st]] Cons.prems(2) by (auto split: prod.splits)
qed simp

section \<open>What is served\<close>

context result_sink
begin

lemma step_shows_data:
  "step s (On_Schema schema) = (r, s', cs) \<Longrightarrow> sink_events cs = [On_Schema schema]"
  "step s (On_Batch b) = (r, s', cs) \<Longrightarrow> sink_events cs = [On_Batch b]"
  using step_shows by fastforce+

lemma replay_shows:
  "replay msg_of step schema (map Inr bs) started rows s = (Inr (Some n), s', cs) \<Longrightarrow>
   sink_events cs = (if started then [] else [On_Schema schema]) @ map On_Batch bs \<and> n = rows + sum_list (map rb_rows bs)"
proof (induction bs arbitrary: started rows s cs)
  case Nil
  then show ?case by (auto dest: step_shows_data split: if_splits sum.splits prod.splits)
next
  case (Cons b bs)
  obtain r1 s1 cs1 where 1: "(if started then (Inr (), s, []) else step s (On_Schema schema)) = (r1, s1, cs1)" by (metis prod_cases3)
  obtain r2 s2 cs2 where 2: "step s1 (On_Batch b) = (r2, s2, cs2)" by (metis prod_cases3)
  obtain cs3 where 3: "replay msg_of step schema (map Inr bs) True (rows + rb_rows b) s2 = (Inr (Some n), s', cs3)" "cs = cs1 @ cs2 @ cs3"
    using Cons.prems 1 2 by (auto split: sum.splits prod.splits)
  have "sink_events cs1 = (if started then [] else [On_Schema schema])" using 1 step_shows_data(1) by (auto split: if_splits)
  then show ?case using Cons.IH [OF 3(1)] 3(2) step_shows_data(2) [OF 2] by (simp add: ac_simps)
qed

lemma replay_calls: "replay msg_of step schema bs started rows s = (res, s', cs) \<Longrightarrow> \<forall>c \<in> set cs. is_sink_call c"
proof (induction bs arbitrary: started rows s res s' cs)
  case Nil
  then show ?case by (auto dest: step_calls split: if_splits sum.splits prod.splits)
next
  case (Cons b bs)
  show ?case
  proof (cases b)
    case (Inl e)
    then show ?thesis using Cons.prems by (auto split: if_splits)
  next
    case (Inr batch)
    obtain r1 s1 cs1 where 1: "(if started then (Inr (), s, []) else step s (On_Schema schema)) = (r1, s1, cs1)" by (metis prod_cases3)
    obtain r2 s2 cs2 where 2: "step s1 (On_Batch batch) = (r2, s2, cs2)" by (metis prod_cases3)
    obtain r3 s3 cs3 where 3: "replay msg_of step schema bs True (rows + rb_rows batch) s2 = (r3, s3, cs3)" by (metis prod_cases3)
    have c1: "\<forall>c \<in> set cs1. is_sink_call c" using 1 step_calls by (auto split: if_splits)
    have c2: "\<forall>c \<in> set cs2. is_sink_call c" using 2 step_calls by blast
    show ?thesis
      using Cons.prems Inr 1 2 3 c1 c2 Cons.IH [OF 3] by (auto split: sum.splits)
  qed
qed

end

text \<open>
  The cache of a deployment: writers end, entries are invalidated, and the metadata may change by
  itself. The log has the streams that writers were ended with.
\<close>

inductive cache_reach :: "ipc \<Rightarrow> CacheState \<Rightarrow> (CacheKey \<times> string \<times> RecordBatch list) set \<Rightarrow> bool" for f where
  empty_cache: "cache_reach f \<lparr>rc_files = [], rc_store = m\<rparr> {}"
| written: "cache_reach f st log \<Longrightarrow> cw_ipc w = Some (schema, bs) \<Longrightarrow> length (key_hex (cw_key w)) = 16 \<Longrightarrow>
    cache_finalize f ww st w True = Some (res, st', w') \<Longrightarrow> cache_reach f st' (insert (cw_key w, schema, bs) log)"
| group_invalidated: "cache_reach f st log \<Longrightarrow> cache_reach f (snd (invalidate_group deleted ok st grp)) log"
| all_invalidated: "cache_reach f st log \<Longrightarrow> cache_reach f (snd (invalidate_all deleted ok st)) log"
| cleaned_up: "cache_reach f st log \<Longrightarrow> cache_reach f (snd (cleanup_expired deleted ok now st)) log"
| metadata: "cache_reach f st log \<Longrightarrow> cache_reach f (st\<lparr>rc_store := m\<rparr>) log"

definition files_ok :: "ipc \<Rightarrow> CacheState \<Rightarrow> (CacheKey \<times> string \<times> RecordBatch list) set \<Rightarrow> bool" where
  "files_ok f st log \<longleftrightarrow>
     (\<forall>path data. map_of (rc_files st) path = Some data \<longrightarrow>
        (\<exists>k schema bs. (k, schema, bs) \<in> log \<and> path = key_storage_path k \<and> ipc_encode f schema bs = Some data
           \<and> length (key_hex k) = 16))"

lemma files_ok_delete: "files_ok f st log \<Longrightarrow> files_ok f (delete_file ok path st) log"
  by (auto simp: files_ok_def delete_file_def delete_conv' split: if_splits)

lemma files_ok_store [simp]: "files_ok f (st\<lparr>rc_store := m\<rparr>) log \<longleftrightarrow> files_ok f st log"
  by (simp add: files_ok_def)

lemma files_ok_drop: "files_ok f st log \<Longrightarrow> files_ok f (drop_files deleted refs st) log"
  unfolding drop_files_def by (induction refs arbitrary: st) (auto intro: files_ok_delete)

lemma files_ok_invalidated: "files_ok f st log \<Longrightarrow> files_ok f (snd (invalidated deleted del ok st)) log"
  by (auto simp: invalidated_def intro!: files_ok_drop split: prod.splits)

lemma files_ok_mono: "files_ok f st log \<Longrightarrow> files_ok f st (insert x log)"
  unfolding files_ok_def by (meson insertI2)

lemma files_ok_written:
  assumes "files_ok f st log" "cw_ipc w = Some (schema, bs)" "length (key_hex (cw_key w)) = 16"
    and "cache_finalize f ww st w True = Some (res, st', w')"
  shows "files_ok f st' (insert (cw_key w, schema, bs) log)"
proof (cases "ipc_encode f schema bs")
  case (Some buffer)
  let ?log = "insert (cw_key w, schema, bs) log"
  let ?written = "st\<lparr>rc_files := AList.update (key_storage_path (cw_key w)) buffer (rc_files st)\<rparr>"
  have old: "files_ok f st ?log" using assms(1) by (rule files_ok_mono)
  then have "files_ok f ?written ?log"
    using assms(3) Some by (auto simp: files_ok_def update_conv')
  with old show ?thesis
    using assms(2,4) Some files_ok_delete
    by (auto simp: cache_finalize_def Let_def split: WriteReply.splits option.splits sum.splits if_splits)
qed (use assms in \<open>auto simp: cache_finalize_def Let_def intro: files_ok_mono\<close>)

lemma cache_reach_files: "cache_reach f st log \<Longrightarrow> files_ok f st log"
proof (induction rule: cache_reach.induct)
  case (empty_cache m)
  then show ?case by (simp add: files_ok_def)
qed (auto simp: invalidate_group_def invalidate_all_def cleanup_expired_def intro: files_ok_invalidated files_ok_written)

lemma hit_replays:
  assumes "try_stream_cached f msg_of rw st k snk s = (Inr (Some stats), s', cs)"
  obtains entry data schema batches where "cache_get_valid (rc_store st) (rw_now rw) (key_hex k) = Some entry"
    "map_of (rc_files st) (key_storage_path k) = Some data" "ipc_decode f data = Some (schema, batches)"
    "replay msg_of snk schema batches False 0 s = (Inr (Some (chs_row_count stats)), s', cs)"
  using assms
  by (auto simp: try_stream_cached_def split: option.splits if_splits prod.splits sum.splits)

text \<open>
  Claim C9. A result served from the cache is a result that was cached for the same key: whatever writers,
  failures, timeouts and invalidations the cache went through, a hit is backed by unexpired metadata and
  sends the client exactly the schema and the batches, in order, that some writer of the same key was
  ended with, and reports their number of rows. The Arrow format is assumed to read back what it writes.
\<close>
theorem cache_hit_committed:
  assumes "cache_reach f st log" and "length (key_hex k) = 16"
    and "\<And>schema bs data. ipc_encode f schema bs = Some data \<Longrightarrow> ipc_decode f data = Some (schema, map Inr bs)"
    and "try_stream_cached f msg_of rw st k (client_sink reply) [] = (Inr (Some stats), seen, cs)"
  shows "\<exists>schema bs entry. (k, schema, bs) \<in> log \<and> cache_get_valid (rc_store st) (rw_now rw) (key_hex k) = Some entry
    \<and> sink_events cs = On_Schema schema # map On_Batch bs \<and> chs_row_count stats = sum_list (map rb_rows bs)"
proof -
  from assms(4) obtain entry data schema batches where hit: "cache_get_valid (rc_store st) (rw_now rw) (key_hex k) = Some entry"
    "map_of (rc_files st) (key_storage_path k) = Some data" "ipc_decode f data = Some (schema, batches)"
    "replay msg_of (client_sink reply) schema batches False 0 [] = (Inr (Some (chs_row_count stats)), seen, cs)"
    by (rule hit_replays)
  obtain k' schema' bs where k': "(k', schema', bs) \<in> log" "key_storage_path k = key_storage_path k'"
    "ipc_encode f schema' bs = Some data" "length (key_hex k') = 16"
    using cache_reach_files [OF assms(1)] hit(2) unfolding files_ok_def by blast
  have "schema' = schema" "batches = map Inr bs" using assms(3) [OF k'(3)] hit(3) by simp_all
  moreover have "k' = k" using k'(2,4) assms(2) key_storage_path_inject [of k k'] by simp
  ultimately show ?thesis using k'(1) hit(1,4) client.replay_shows [of msg_of reply schema bs False 0 "[]"] by auto
qed

section \<open>A cached result comes back\<close>

lemma tee_key_step:
  "tee_sink f down t ev = (r, t', cs) \<Longrightarrow> cw_key (tee_writer t') = cw_key (tee_writer t) \<and> cw_ttl_secs (tee_writer t') = cw_ttl_secs (tee_writer t)"
  by (cases ev)
    (auto simp: tee_sink_def abandon_cache_def write_schema_def write_batch_def Let_def split: if_splits prod.splits option.splits)

lemma tee_key_run:
  "run_sink (tee_sink f down) t evs = (rs, t') \<Longrightarrow> cw_key (tee_writer t') = cw_key (tee_writer t) \<and> cw_ttl_secs (tee_writer t') = cw_ttl_secs (tee_writer t)"
proof (induction evs arbitrary: t rs)
  case (Cons ev evs)
  obtain r t1 cs where st: "tee_sink f down t ev = (r, t1, cs)" by (metis prod_cases3)
  then show ?case using Cons.IH [of t1] Cons.prems tee_key_step [OF st] by (auto split: prod.splits)
qed simp

lemma tee_ok_new: "tee_ok [] (tee_new s (cache_writer k ttl) mx)"
  by (simp add: tee_ok_def tee_new_def cache_writer_def stream_of_def)

lemma replay_accepted:
  "replay msg_of (client_sink (\<lambda>_. Inr ())) schema (map Inr bs) started rows seen =
     (Inr (Some (rows + sum_list (map rb_rows bs))),
      seen @ (if started then [] else [On_Schema schema]) @ map On_Batch bs,
      map Sink ((if started then [] else [On_Schema schema]) @ map On_Batch bs))"
  by (induction bs arbitrary: started rows seen) (auto simp: client_sink_def ac_simps)

lemma committed_entry:
  assumes "tee_ok evs t" "finalize_cache f ww st t True = Some (t', st', cs)" "tee_committed t'"
    and "stream_of evs = Some (schema, bs)" "ww_write ww = W_Ok"
  obtains data expires entry where "ipc_encode f schema bs = Some data"
    "ww_plus_secs ww (sint (cw_ttl_secs (tee_writer t))) = Some expires"
    "map_of (rc_files st') (key_storage_path (cw_key (tee_writer t))) = Some data"
    "map_of (cache_entries (rc_store st')) (key_hex (cw_key (tee_writer t))) = Some entry" "ce_expires_at entry = expires"
proof -
  have t: "tee_active t" "\<not> tee_finalized t" "cw_ipc (tee_writer t) = Some (schema, bs)"
    using assms by (auto simp: tee_ok_def finalize_cache_def Let_def split: if_splits option.splits prod.splits)
  then obtain w' where "cache_finalize f ww st (tee_writer t) True = Some (Inr (), st', w')"
    using assms(1-3) by (auto simp: tee_ok_def finalize_cache_def Let_def split: option.splits prod.splits)
  then show ?thesis
    using that t(3) assms(5)
    by (auto simp: cache_finalize_def Let_def cache_upsert_def update_conv' split: option.splits sum.splits)
qed

text \<open>
  Claim C24. A cached result comes back as it was: when the events of a result went through the tee and the cache
  took the entry, the next request with the same key within its lifetime gets the same schema, the same
  batches in the same order and the number of their rows, without an engine.
\<close>
theorem cached_result_replayed:
  assumes "run_sink (tee_sink f (client_sink reply)) (tee_new [] (cache_writer k ttl) mx) evs = (rs, t)"
    and "finalize_cache f ww st t True = Some (t', st', cs)" "tee_committed t'" "ww_write ww = W_Ok"
    and "stream_of evs = Some (schema, bs)"
    and "ww_plus_secs ww (sint ttl) = Some expires" "rw_now rw < expires" "rw_lookup_ok rw" "rw_read_ok rw"
    and "\<And>data. ipc_encode f schema bs = Some data \<Longrightarrow> ipc_decode f data = Some (schema, map Inr bs)"
  shows "\<exists>stats. try_stream_cached f msg_of rw st' k (client_sink (\<lambda>_. Inr ())) [] =
      (Inr (Some stats), On_Schema schema # map On_Batch bs, map Sink (On_Schema schema # map On_Batch bs))
    \<and> chs_row_count stats = sum_list (map rb_rows bs)"
proof -
  have key: "cw_key (tee_writer t) = k" "cw_ttl_secs (tee_writer t) = ttl"
    using tee_key_run [OF assms(1)] by (simp_all add: tee_new_def cache_writer_def)
  have ok: "tee_ok evs t" using tee_ok_run [OF tee_ok_new assms(1)] by simp
  obtain data entry where e: "ipc_encode f schema bs = Some data" "map_of (rc_files st') (key_storage_path k) = Some data"
      "map_of (cache_entries (rc_store st')) (key_hex k) = Some entry" "ce_expires_at entry = expires"
    using committed_entry [OF ok assms(2,3,5,4)] key assms(6) by (metis option.inject)
  then show ?thesis
    using assms(7-9) assms(10) [OF e(1)] by (simp add: try_stream_cached_def cache_get_valid_def replay_accepted)
qed

text \<open>
  Claim C25. The cache changes one thing for the client whose result fills it: the notice of the
  translated SQL, which the tee answers itself and does not pass on. Every other event reaches the client in order,
  and the query sees the client's own answers, as without the tee, whatever the cache does; and the cache
  keeps a result only if no error and no native chunk was sent.
\<close>
theorem tee_transparent:
  assumes "run_sink (tee_sink f (client_sink reply)) (tee_new [] (cache_writer k ttl) mx) evs = (rs, t)"
  shows "run_sink (client_sink reply) [] (filter (\<lambda>ev. \<not> is_translated_event ev) evs)
      = (map fst (filter (\<lambda>(_, ev). \<not> is_translated_event ev) (zip rs evs)), tee_inner t)
    \<and> length rs = length evs \<and> (\<forall>(r, ev) \<in> set (zip rs evs). is_translated_event ev \<longrightarrow> r = Inr ())
    \<and> (\<forall>ww st t' st' cs. finalize_cache f ww st t True = Some (t', st', cs) \<and> tee_committed t' \<longrightarrow> (\<forall>ev \<in> set evs. \<not> spoils_cache ev))"
proof -
  have "\<forall>ww st t' st' cs. finalize_cache f ww st t True = Some (t', st', cs) \<and> tee_committed t' \<longrightarrow> (\<forall>ev \<in> set evs. \<not> spoils_cache ev)"
    using tee_ok_run [OF tee_ok_new assms] by (auto simp: tee_ok_def finalize_cache_def split: if_splits)
  then show ?thesis using tee_run_inner [OF assms] by (simp add: tee_new_def)
qed
section \<open>Examples\<close>

definition example_batch_of :: "string \<Rightarrow> u64 \<Rightarrow> RecordBatch" where
  "example_batch_of d n = \<lparr>rb_schema = ''x:int'', rb_rows = n, rb_data = d\<rparr>"

definition example_events :: "SinkEvent list" where
  "example_events = [On_Schema ''x:int'', On_Batch (example_batch_of ''12'' 2), On_Batch (example_batch_of ''3'' 1)]"

definition example_ipc :: ipc where
  "example_ipc =
     \<lparr>ipc_opens = (\<lambda>_. True), ipc_accepts = (\<lambda>_ _ _. True), ipc_size = (\<lambda>_ _. 10),
      ipc_encode = (\<lambda>sch bs. if Some (sch, bs) = stream_of example_events then Some [1] else None),
      ipc_decode = (\<lambda>d. if d = [1] then map_option (\<lambda>(sch, bs). (sch, map Inr bs)) (stream_of example_events) else None)\<rparr>"

definition example_write_world :: WriteWorld where
  "example_write_world =
     \<lparr>ww_write = W_Ok, ww_upsert = Inr (), ww_deleted = True, ww_now = 0, ww_plus_secs = (\<lambda>n. Some (1000 * n))\<rparr>"

definition example_key :: CacheKey where
  "example_key = \<lparr>key_hex = ''00000000000000ff'', key_group = ''g''\<rparr>"

definition empty_cache_state :: CacheState where
  "empty_cache_state = \<lparr>rc_files = [], rc_store = InMemory_default\<rparr>"

lemma example_stream: "stream_of example_events = Some (''x:int'', [example_batch_of ''12'' 2, example_batch_of ''3'' 1])"
  by (simp add: stream_of_def example_events_def)

lemma example_ipc_roundtrip: "ipc_encode example_ipc schema bs = Some data \<Longrightarrow> ipc_decode example_ipc data = Some (schema, map Inr bs)"
  by (auto simp: example_ipc_def example_stream split: if_splits)

lemma example_run:
  obtains rs t t' st' cs where
    "run_sink (tee_sink example_ipc (client_sink (\<lambda>_. Inr ()))) (tee_new [] (cache_writer example_key 60) (Some 100)) example_events = (rs, t)"
    "finalize_cache example_ipc example_write_world empty_cache_state t True = Some (t', st', cs)" "tee_committed t'"
proof -
  obtain rs t where run: "run_sink (tee_sink example_ipc (client_sink (\<lambda>_. Inr ()))) (tee_new [] (cache_writer example_key 60) (Some 100))
      example_events = (rs, t)" by (metis surj_pair)
  moreover have t: "cw_ipc (tee_writer t) = stream_of example_events" "tee_active t" "\<not> tee_finalized t"
    using run
    by (auto simp: example_events_def example_ipc_def example_batch_of_def tee_sink_def tee_new_def cache_writer_def client_sink_def
        write_schema_def write_batch_def check_size_def bytes_written_def stream_of_def)
  moreover have "\<exists>t' st' cs. finalize_cache example_ipc example_write_world empty_cache_state t True = Some (t', st', cs) \<and> tee_committed t'"
    using t by (simp add: finalize_cache_def cache_finalize_def example_write_world_def example_stream example_ipc_def Let_def)
  ultimately show ?thesis using that by blast
qed

definition example_read_world :: ReadWorld where
  "example_read_world = \<lparr>rw_lookup_ok = True, rw_read_ok = True, rw_now = 59000\<rparr>"

theorem cached_result_replayed_witness:
  "\<exists>st' stats. try_stream_cached example_ipc (\<lambda>_. '''') example_read_world st' example_key (client_sink (\<lambda>_. Inr ())) [] =
      (Inr (Some stats), example_events, map Sink example_events) \<and> chs_row_count stats = 3"
proof -
  obtain rs t t' st' cs where r:
    "run_sink (tee_sink example_ipc (client_sink (\<lambda>_. Inr ()))) (tee_new [] (cache_writer example_key 60) (Some 100)) example_events = (rs, t)"
    "finalize_cache example_ipc example_write_world empty_cache_state t True = Some (t', st', cs)" "tee_committed t'"
    by (rule example_run)
  have w: "ww_write example_write_world = W_Ok" "ww_plus_secs example_write_world (sint (60 :: u64)) = Some 60000"
      "rw_now example_read_world < 60000" "rw_lookup_ok example_read_world" "rw_read_ok example_read_world"
    by (simp_all add: example_write_world_def example_read_world_def)
  have "sum_list (map rb_rows [example_batch_of ''12'' 2, example_batch_of ''3'' 1]) = 3" by (simp add: example_batch_of_def)
  then show ?thesis
    using cached_result_replayed [OF r w(1) example_stream w(2-5) example_ipc_roundtrip, of "\<lambda>_. ''''"]
    by (auto simp: example_events_def)
qed

theorem tee_transparent_witness:
  "\<exists>rs t. run_sink (tee_sink example_ipc (client_sink (\<lambda>seen. if list_ex is_translated_event seen then Inl (Engine ''gone'') else Inr ())))
       (tee_new [] (cache_writer example_key 60) (Some 100)) (On_Translated_Sql ''SELECT x'' # example_events) = (rs, t)
     \<and> tee_inner t = example_events \<and> rs = [Inr (), Inr (), Inr (), Inr ()]"
proof -
  let ?reply = "\<lambda>seen. if list_ex is_translated_event seen then Inl (Engine ''gone'') else Inr ()"
  obtain rs t where run: "run_sink (tee_sink example_ipc (client_sink ?reply)) (tee_new [] (cache_writer example_key 60) (Some 100))
      (On_Translated_Sql ''SELECT x'' # example_events) = (rs, t)" by (metis surj_pair)
  note T = tee_transparent [OF run]
  obtain a b c d where rs: "rs = [a, b, c, d]"
    using T by (auto simp: example_events_def length_Suc_conv)
  have "run_sink (client_sink ?reply) [] example_events = ([b, c, d], tee_inner t)" "a = Inr ()"
    using T by (auto simp: example_events_def rs)
  moreover have "run_sink (client_sink ?reply) [] example_events = ([Inr (), Inr (), Inr ()], example_events)"
    by (simp add: example_events_def client_sink_def)
  ultimately show ?thesis using run rs by auto
qed
theorem cache_hit_committed_witness:
  "\<exists>st log stats seen cs. cache_reach example_ipc st log
    \<and> try_stream_cached example_ipc (\<lambda>_. '''') example_read_world st example_key (client_sink (\<lambda>_. Inr ())) [] = (Inr (Some stats), seen, cs)
    \<and> chs_row_count stats = 3 \<and> sink_events cs = example_events"
proof -
  let ?bs = "[example_batch_of ''12'' 2, example_batch_of ''3'' 1]"
  let ?w = "(cache_writer example_key 60)\<lparr>cw_ipc := Some (''x:int'', ?bs)\<rparr>"
  obtain st' w' where fin: "cache_finalize example_ipc example_write_world empty_cache_state ?w True = Some (Inr (), st', w')"
    by (simp add: cache_finalize_def cache_writer_def example_write_world_def example_ipc_def example_stream Let_def)
  have key: "length (key_hex example_key) = 16" by (simp add: example_key_def)
  have reach: "cache_reach example_ipc st' {(example_key, ''x:int'', ?bs)}"
    using cache_reach.written [OF cache_reach.empty_cache _ _ fin [unfolded empty_cache_state_def]] key by (simp add: cache_writer_def)
  have enc: "ipc_encode example_ipc ''x:int'' ?bs = Some [1]" by (simp add: example_ipc_def example_stream)
  have e: "map_of (rc_files st') (key_storage_path example_key) = Some [1]"
      "\<exists>entry. map_of (cache_entries (rc_store st')) (key_hex example_key) = Some entry \<and> ce_expires_at entry = 60000"
    using fin by (auto simp: cache_finalize_def cache_writer_def example_write_world_def enc cache_upsert_def update_conv' Let_def)
  then obtain stats seen cs where hit: "try_stream_cached example_ipc (\<lambda>_. '''') example_read_world st' example_key (client_sink (\<lambda>_. Inr ())) []
      = (Inr (Some stats), seen, cs)"
    using example_ipc_roundtrip [OF enc]
    by (auto simp: try_stream_cached_def cache_get_valid_def example_read_world_def replay_accepted simp del: list.map)
  have n: "sum_list (map rb_rows ?bs) = 3" by (simp add: example_batch_of_def)
  have "chs_row_count stats = 3 \<and> sink_events cs = example_events"
    using cache_hit_committed [OF reach key example_ipc_roundtrip hit] n by (auto simp: example_events_def)
  with reach hit show ?thesis by blast
qed


end
