(* ===== verification/Sync_Dispatch.thy ===== *)
theory Sync_Dispatch
  imports Dispatch Result_Cache
begin

text \<open>
  The streaming way of running a query, \<open>execute_to_sink\<close> of
  \<open>crates/queryflux-frontend/src/dispatch.rs\<close>: the result cache is asked first, then the query waits for a
  slot, goes through access control, translation, identity and guardrails, and its result is sent to the
  client's sink batch by batch. What other parts of the system answer is a field of \<open>SyncWorld\<close>; each
  attempt to get a slot is a \<open>SyncRound\<close>. Which statements may be cached (\<open>eligibility.rs\<close>) is an argument.
\<close>

section \<open>Arguments\<close>

datatype ConnectionFormat = CF_Arrow | CF_MysqlWire | CF_PostgresWire | CF_TrinoHttp | CF_ClickHouseHttp

fun matches_frontend :: "ConnectionFormat \<Rightarrow> FrontendProtocol \<Rightarrow> bool" where
  "matches_frontend CF_MysqlWire MySqlWire = True"
| "matches_frontend CF_PostgresWire PostgresWire = True"
| "matches_frontend CF_TrinoHttp TrinoHttp = True"
| "matches_frontend CF_ClickHouseHttp ClickHouseHttp = True"
| "matches_frontend _ _ = False"

record SyncLive =
  sl_live :: LiveConfig
  sl_wait_timeouts :: "(string \<times> u64) list"
  sl_cache_settings :: "(string \<times> GroupCacheConfig) list"
  sl_scripts :: "(string \<times> string list) list"
  sl_fingerprint :: "string \<Rightarrow> u8 list"

record SyncRequest =
  sq_sql :: string
  sq_params :: QueryParams
  sq_session :: SessionContext
  sq_protocol :: FrontendProtocol
  sq_group :: ClusterGroupName
  sq_auth :: AuthContext

record SyncRound =
  sr_now :: time
  sr_mgr_gate :: Manager
  sr_older_waiters :: "u64 result"
  sr_mgr_acquire :: Manager
  sr_interference :: interference
  sr_python :: python
  sr_mgr_limit :: Manager
  sr_try_acquire :: "bool result"
  sr_release_reply :: "unit result"
  sr_wait_from :: time
  sr_waits :: "(time \<times> bool result) list"

record SyncExecution =
  sx_stream :: "RecordBatch result list"
  sx_stats :: "json option"
  sx_affected_rows :: "u64 option"

record SyncWorld =
  sw_fga :: "TupleKey \<Rightarrow> FgaReply"
  sw_query_id :: ProxyQueryId
  sw_cache_query_id :: ProxyQueryId
  sw_wait_start :: time
  sw_rounds :: "SyncRound list"
  sw_now_acquired :: time
  sw_mgr_ids :: Manager
  sw_release_reply :: "unit result"
  sw_access :: access_world
  sw_cache_access :: access_world
  sw_translate :: "string \<Rightarrow> SqlDialect \<Rightarrow> SqlDialect \<Rightarrow> string result \<times> TranslationOutcome"
  sw_global_fixups :: bool
  sw_credentials :: "QueryAuthConfig option \<Rightarrow> QueryCredentials result"
  sw_native_params :: "ClusterName \<Rightarrow> bool"
  sw_format :: "ClusterName \<Rightarrow> ConnectionFormat"
  sw_interpolate :: "string \<Rightarrow> QueryParams \<Rightarrow> (string \<times> Expression list option) result"
  sw_guards :: world
  sw_cache_guards :: world
  sw_execute :: "SyncExecution result"
  sw_backend_id :: "string option"
  sw_elapsed :: u64
  sw_show_error :: "QueryFluxError \<Rightarrow> string"
  sw_cacheable :: bool
  sw_xxh64 :: "u8 list \<Rightarrow> u64"
  sw_ipc :: ipc
  sw_cache :: CacheState
  sw_cache_read :: ReadWorld
  sw_cache_writer_ok :: bool
  sw_cache_write :: WriteWorld

section \<open>Waiting for a slot\<close>

datatype 'a sstage = SFail QueryFluxError "ClusterSlotGuard option" | SWaiting | SGo 'a

definition sbind :: "'a sstage \<times> Call list \<Rightarrow> ('a \<Rightarrow> 'b sstage \<times> Call list) \<Rightarrow> 'b sstage \<times> Call list" where
  "sbind m f =
     (case m of
        (SFail e s, cs) \<Rightarrow> (SFail e s, cs)
      | (SWaiting, cs) \<Rightarrow> (SWaiting, cs)
      | (SGo x, cs) \<Rightarrow> (case f x of (y, ds) \<Rightarrow> (y, cs @ ds)))"

definition DEFAULT_CAPACITY_WAIT_TIMEOUT_SECS :: u64 where
  "DEFAULT_CAPACITY_WAIT_TIMEOUT_SECS = 300"

definition RENEW_WAITS_FOR :: time where
  "RENEW_WAITS_FOR = 5 * 1000"

definition MAX_SINGLE_WAIT :: duration where
  "MAX_SINGLE_WAIT = 2 * 10 ^ 9"

definition wait_timeout_secs :: "SyncLive \<Rightarrow> ClusterGroupName \<Rightarrow> u64" where
  "wait_timeout_secs live grp =
     (case map_of (sl_wait_timeouts live) grp of Some t \<Rightarrow> t | None \<Rightarrow> DEFAULT_CAPACITY_WAIT_TIMEOUT_SECS)"

text \<open>For timeouts up to \<open>i64::MAX / 1000\<close> seconds; beyond, \<open>chrono::Duration::seconds\<close> panics.\<close>

definition wait_deadline :: "SyncLive \<Rightarrow> SyncWorld \<Rightarrow> SyncRequest \<Rightarrow> time" where
  "wait_deadline live w r = sw_wait_start w + 1000 * sint (wait_timeout_secs live (sq_group r))"

text \<open>The place in line of a cluster at its limit: the clock and the store's reply of each wait; \<open>False\<close> while it goes on.\<close>

fun wait_in_line :: "time \<Rightarrow> ClusterName \<Rightarrow> string \<Rightarrow> u64 \<Rightarrow> (time \<times> bool result) list \<Rightarrow> bool \<times> Call list" where
  "wait_in_line retry_until cluster q seq [] = (False, [])"
| "wait_in_line retry_until cluster q seq ((now, reply) # rest) =
     (let left = min (nat (retry_until - now) * 10 ^ 6) MAX_SINGLE_WAIT;
          asked = CapWaitForGrant cluster q left
      in
      if left = 0 then (True, [])
      else
        (case reply of
           Inr True \<Rightarrow> (True, [asked])
         | Inr False \<Rightarrow> (case wait_in_line retry_until cluster q seq rest of (d, cs) \<Rightarrow> (d, asked # cs))
         | Inl _ \<Rightarrow> (True, [asked, Backoff (queued_backoff seq)])))"

text \<open>One pass of the loop ends it or goes round again, with the cluster last waited for.\<close>

type_synonym admitted = "ClusterSlotGuard \<times> AdapterKind \<times> u64"

datatype round_end = Ends "admitted sstage" | Again "ClusterName option"

definition sync_round ::
  "AppState \<Rightarrow> SyncLive \<Rightarrow> SyncWorld \<Rightarrow> SyncRequest \<Rightarrow> u64 \<Rightarrow> ClusterName option \<Rightarrow> SyncRound \<Rightarrow> round_end \<times> Call list" where
  "sync_round app live w r seq waited_on rd =
     (let deadline = wait_deadline live w r; grp = sq_group r; q = sw_query_id w; backoff = Backoff (queued_backoff seq) in
      if deadline \<le> sr_now rd then
        (Ends (SFail (CapacityWaitTimeout grp (wait_timeout_secs live grp)) None),
         case waited_on of
           Some c \<Rightarrow> if app_has_capacity_store app then [CapRelease c q] else []
         | None \<Rightarrow> [])
      else if should_yield_to_older_queued (sr_mgr_gate rd) grp (sr_older_waiters rd) then
        (Again waited_on, [backoff])
      else
        (case fst (acquire_cluster (sr_interference rd) (sr_python rd) (sr_mgr_acquire rd) grp) of
           Inl e \<Rightarrow> (Ends (SFail e None), [])
         | Inr None \<Rightarrow> (Again waited_on, [backoff])
         | Inr (Some c) \<Rightarrow>
             let slot = slot_new app grp c q in
             (case acquire_global_capacity app (sr_mgr_limit rd) (sr_try_acquire rd) grp c q of
                (Denied_Grant, asked) \<Rightarrow>
                  let before = AcquiredSlot grp c # asked @ snd (release_local slot) in
                  if app_has_capacity_store app then
                    (case wait_in_line (min (sr_wait_from rd + RENEW_WAITS_FOR) deadline) c q seq (sr_waits rd) of
                       (True, waits) \<Rightarrow> (Again (Some c), before @ waits)
                     | (False, waits) \<Rightarrow> (Ends SWaiting, before @ waits))
                  else (Again (Some c), before @ [backoff])
              | (Unavailable, asked) \<Rightarrow>
                  (Again waited_on, AcquiredSlot grp c # asked @ snd (slot_release (sr_release_reply rd) slot) @ [backoff])
              | (Granted, asked) \<Rightarrow>
                  (case map_of (lv_adapters (sl_live live)) c of
                     Some a \<Rightarrow> (Ends (SGo (slot, a, seq)), AcquiredSlot grp c # asked)
                   | None \<Rightarrow>
                       (case slot_release (sr_release_reply rd) slot of
                          (slot', released) \<Rightarrow>
                            (Ends (SFail (Engine (''No adapter for '' @ grp @ ''/'' @ c)) (Some slot')),
                             AcquiredSlot grp c # asked @ released))))))"

fun sync_admit ::
  "AppState \<Rightarrow> SyncLive \<Rightarrow> SyncWorld \<Rightarrow> SyncRequest \<Rightarrow> u64 \<Rightarrow> ClusterName option \<Rightarrow> SyncRound list \<Rightarrow> admitted sstage \<times> Call list" where
  "sync_admit app live w r seq waited_on [] = (SWaiting, [])"
| "sync_admit app live w r seq waited_on (rd # rds) =
     (case sync_round app live w r seq waited_on rd of
        (Ends st, cs) \<Rightarrow> (st, cs)
      | (Again waited', cs) \<Rightarrow> (case sync_admit app live w r (seq + 1) waited' rds of (st, ds) \<Rightarrow> (st, cs @ ds)))"
section \<open>Preparing the query\<close>

record SyncJob =
  sj_slot :: ClusterSlotGuard
  sj_async :: bool
  sj_adapter :: Adapter
  sj_queue_ms :: u64
  sj_group_config_id :: "int option"
  sj_cluster_config_id :: "int option"
  sj_session :: SessionContext
  sj_src :: SqlDialect
  sj_tags :: QueryTags

fun adapter_of :: "AdapterKind \<Rightarrow> Adapter" where
  "adapter_of (SyncAdapter a) = a"
| "adapter_of (AsyncAdapter a) = a"

fun is_async_adapter :: "AdapterKind \<Rightarrow> bool" where
  "is_async_adapter (AsyncAdapter a) = True"
| "is_async_adapter (SyncAdapter a) = False"

definition sync_tags :: "SyncLive \<Rightarrow> SyncRequest \<Rightarrow> QueryTags" where
  "sync_tags live r =
     merge_tags (case map_of (lv_default_tags (sl_live live)) (sq_group r) of Some t \<Rightarrow> t | None \<Rightarrow> []) (sess_tags (sq_session r))"

definition sync_prepare :: "SyncLive \<Rightarrow> SyncWorld \<Rightarrow> SyncRequest \<Rightarrow> admitted \<Rightarrow> SyncJob sstage \<times> Call list" where
  "sync_prepare live w r got =
     (case got of (slot0, kind, seq) \<Rightarrow>
        let (gid, cid) = cluster_db_ids (sw_mgr_ids w) (sq_group r) (sg_cluster slot0);
            (slot, started) = mark_started slot0
        in
        (SGo \<lparr>sj_slot = slot, sj_async = is_async_adapter kind, sj_adapter = adapter_of kind,
           sj_queue_ms = (if 0 < seq then ms_between (sw_wait_start w) (sw_now_acquired w) else 0),
           sj_group_config_id = gid, sj_cluster_config_id = cid, sj_session = sq_session r,
           sj_src = resolve_src_dialect (sq_session r) (sq_protocol r), sj_tags = sync_tags live r\<rparr>,
         started))"

definition sync_context ::
  "SyncWorld \<Rightarrow> SyncRequest \<Rightarrow> SyncJob \<Rightarrow> SqlPipelineMeta \<Rightarrow> TranslationOutcome option \<Rightarrow> QueryParams \<Rightarrow> QueryContext" where
  "sync_context w r j pipeline translation params =
     \<lparr>qc_query_id = sw_query_id w, qc_sql = sq_sql r, qc_session = sj_session j, qc_protocol = sq_protocol r,
      qc_group = sq_group r, qc_cluster = sg_cluster (sj_slot j), qc_cluster_group_config_id = sj_group_config_id j,
      qc_cluster_config_id = sj_cluster_config_id j, qc_engine_type = adp_engine_type (sj_adapter j),
      qc_src_dialect = sj_src j, qc_tgt_dialect = adp_dialect (sj_adapter j), qc_pipeline = pipeline,
      qc_translation = translation, qc_query_tags = sj_tags j, qc_query_params = params,
      qc_agent_context = resolved_agent_context (sj_session j)\<rparr>"

definition sync_deny :: "SyncWorld \<Rightarrow> SyncJob \<Rightarrow> QueryContext \<Rightarrow> string \<Rightarrow> GuardAction list \<Rightarrow> 'a sstage \<times> Call list" where
  "sync_deny w j ctx reason actions =
     (case deny_and_record (sw_release_reply w) (sj_slot j) ctx reason (sw_elapsed w) actions of
        (e, slot', cs) \<Rightarrow> (SFail e (Some slot'), cs))"

record SyncChecked =
  sk_job :: SyncJob
  sk_sql :: string
  sk_rewrote :: bool
  sk_actions :: "GuardAction list"

definition sync_access :: "SyncLive \<Rightarrow> SyncWorld \<Rightarrow> SyncRequest \<Rightarrow> SyncJob \<Rightarrow> SyncChecked sstage \<times> Call list" where
  "sync_access live w r j0 =
     (case lv_access_guard (sl_live live) of
        None \<Rightarrow> (SGo \<lparr>sk_job = j0, sk_sql = sq_sql r, sk_rewrote = False, sk_actions = []\<rparr>, [])
      | Some g \<Rightarrow>
          let j = (if applies_to_group g (sq_group r) then j0\<lparr>sj_session := drop_unchecked_session_sql (sj_session j0)\<rparr> else j0) in
          if enabled_for_group g (sq_group r) then
            (case run_access_control_stage (sw_access w) g
                    (stage_context (sq_sql r) (sj_src j) (adp_engine_type (sj_adapter j)) (sq_group r) (sq_auth r)
                      (sj_session j) (sj_tags j)) of
               StageAllowed action \<Rightarrow> (SGo \<lparr>sk_job = j, sk_sql = sq_sql r, sk_rewrote = False, sk_actions = [action]\<rparr>, [])
             | StageRewritten sql action \<Rightarrow> (SGo \<lparr>sk_job = j, sk_sql = sql, sk_rewrote = True, sk_actions = [action]\<rparr>, [])
             | StageDenied reason code action \<Rightarrow>
                 sync_deny w j (sync_context w r j no_pipeline None (sq_params r)) reason [action])
          else (SGo \<lparr>sk_job = j, sk_sql = sq_sql r, sk_rewrote = False, sk_actions = []\<rparr>, []))"

definition sync_translate :: "SyncWorld \<Rightarrow> SyncRequest \<Rightarrow> SyncChecked \<Rightarrow> (string \<times> TranslationOutcome) sstage \<times> Call list" where
  "sync_translate w r c =
     (let j = sk_job c in
      if should_attempt_translation (sq_session r) (sq_protocol r) then
        (case sw_translate w (sk_sql c) (sj_src j) (adp_dialect (sj_adapter j)) of
           (Inr t, tout) \<Rightarrow> (SGo (t, tout), [TranslationCounted tout])
         | (Inl e, tout) \<Rightarrow>
             (case slot_release (sw_release_reply w) (sj_slot j) of
                (slot', released) \<Rightarrow>
                  (SFail e (Some slot'),
                   [TranslationCounted tout,
                    RecordQuery
                      (sync_context w r j (no_pipeline\<lparr>pm_was_rewritten := sk_rewrote c,
                           pm_rewritten_sql := (if sk_rewrote c then Some (sk_sql c) else None)\<rparr>) (Some tout) (sq_params r))
                      ((query_outcome S_Failed (Some (sw_show_error w e)) (sk_actions c))\<lparr>qo_execution_ms := sw_elapsed w\<rparr>)]
                   @ released)))
      else (SGo (sk_sql c, not_needed), [TranslationCounted not_needed]))"

definition sync_invariant :: "SyncWorld \<Rightarrow> SyncRequest \<Rightarrow> SyncChecked \<Rightarrow> string \<Rightarrow> TranslationOutcome \<Rightarrow> unit sstage \<times> Call list" where
  "sync_invariant w r c engine_sql tout =
     (let j = sk_job c in
      if sk_rewrote c \<and> is_read_like_sql (w_parse (sw_guards w)) (sq_sql r) (sj_src j)
         \<and> \<not> is_read_like_sql (w_parse (sw_guards w)) engine_sql (adp_dialect (sj_adapter j)) then
        sync_deny w j
          (sync_context w r j (pipeline_compute (sk_sql c) engine_sql (sk_rewrote c)) (Some tout) (sq_params r))
          KIND_CHANGED (sk_actions c)
      else (SGo (), []))"

definition sync_identity ::
  "SyncLive \<Rightarrow> SyncWorld \<Rightarrow> SyncRequest \<Rightarrow> SyncJob \<Rightarrow> (QueryCredentials \<times> SessionContext \<times> StoredWireAuth option) sstage \<times> Call list" where
  "sync_identity live w r j =
     (let cfg = map_of (lv_cluster_configs (sl_live live)) (sg_cluster (sj_slot j)) in
      case sw_credentials w (Option.bind cfg ccfg_query_auth) of
        Inl e \<Rightarrow> (case slot_release (sw_release_reply w) (sj_slot j) of (slot', released) \<Rightarrow> (SFail e (Some slot'), released))
      | Inr credentials \<Rightarrow>
          let session = enrich_session_for_passthrough (sj_session j) credentials (sq_auth r);
              sets = (case cfg of Some c \<Rightarrow> ccfg_sets_http_authorization c | None \<Rightarrow> False)
          in (SGo (credentials, session, resolve_stored_wire_auth credentials session sets), []))"

definition sync_interpolate ::
  "SyncWorld \<Rightarrow> SyncRequest \<Rightarrow> ClusterSlotGuard \<Rightarrow> string \<Rightarrow> (string \<times> QueryParams \<times> world) sstage \<times> Call list" where
  "sync_interpolate w r slot engine_sql =
     (if sq_params r \<noteq> [] \<and> \<not> sw_native_params w (sg_cluster slot) then
        (case sw_interpolate w engine_sql (sq_params r) of
           Inl e \<Rightarrow> (SFail e (Some slot), [])
         | Inr (sql, stmts) \<Rightarrow>
             (SGo (sql, [], case stmts of Some ss \<Rightarrow> (sw_guards w)\<lparr>w_parse := \<lambda>_ _. Some ss\<rparr> | None \<Rightarrow> sw_guards w), []))
      else (SGo (engine_sql, sq_params r, sw_guards w), []))"

record SyncQuerySetup =
  su_async :: bool
  su_translated :: string
  su_slot :: ClusterSlotGuard
  su_ctx :: QueryContext
  su_credentials :: QueryCredentials
  su_params :: QueryParams
  su_guard_actions :: "GuardAction list"
  su_parse :: world
  su_wire_auth :: "StoredWireAuth option"
  su_queue_duration_ms :: u64

definition setup_sync_query :: "AppState \<Rightarrow> SyncLive \<Rightarrow> SyncWorld \<Rightarrow> SyncRequest \<Rightarrow> SyncQuerySetup sstage \<times> Call list" where
  "setup_sync_query app live w r =
     sbind (sync_admit app live w r 0 None (sw_rounds w)) (\<lambda>got.
     sbind (sync_prepare live w r got) (\<lambda>j0.
     sbind (sync_access live w r j0) (\<lambda>c.
     sbind (sync_translate w r c) (\<lambda>(engine_sql, tout).
     sbind (sync_invariant w r c engine_sql tout) (\<lambda>_.
     sbind (sync_identity live w r (sk_job c)) (\<lambda>(credentials, session, wire).
     sbind (sync_interpolate w r (sj_slot (sk_job c)) engine_sql) (\<lambda>(final_sql, params, gw).
     let j = (sk_job c)\<lparr>sj_session := session\<rparr> in
     (SGo \<lparr>su_async = sj_async j, su_translated = final_sql, su_slot = sj_slot j,
        su_ctx = sync_context w r j (pipeline_compute (sk_sql c) engine_sql (sk_rewrote c)) (Some tout) params,
        su_credentials = credentials, su_params = params, su_guard_actions = sk_actions c, su_parse = gw,
        su_wire_auth = wire, su_queue_duration_ms = sj_queue_ms j\<rparr>, []))))))))"


section \<open>Running it\<close>

record SyncOutcome =
  so_status :: QueryStatus
  so_rows :: "u64 option"
  so_error :: "string option"
  so_elapsed_ms :: u64
  so_engine_stats :: "json option"

definition outcome_failed :: "SyncWorld \<Rightarrow> u64 option \<Rightarrow> string \<Rightarrow> SyncOutcome" where
  "outcome_failed w rows m =
     \<lparr>so_status = S_Failed, so_rows = rows, so_error = Some m, so_elapsed_ms = sw_elapsed w, so_engine_stats = None\<rparr>"

definition outcome_success :: "SyncWorld \<Rightarrow> u64 \<Rightarrow> json option \<Rightarrow> SyncOutcome" where
  "outcome_success w rows stats =
     \<lparr>so_status = S_Success, so_rows = Some rows, so_error = None, so_elapsed_ms = sw_elapsed w, so_engine_stats = stats\<rparr>"

definition query_outcome_of :: "SyncOutcome \<Rightarrow> QueryOutcome" where
  "query_outcome_of oc =
     (query_outcome (so_status oc) (so_error oc) [])
       \<lparr>qo_execution_ms := so_elapsed_ms oc, qo_rows := so_rows oc, qo_engine_stats := so_engine_stats oc\<rparr>"

text \<open>An engine error, before or inside the stream: reported, then sent to the client.\<close>

definition engine_failed ::
  "SyncWorld \<Rightarrow> 's sink \<Rightarrow> SyncQuerySetup \<Rightarrow> QueryFluxError \<Rightarrow> 's \<Rightarrow> SyncOutcome \<times> unit result \<times> 's \<times> Call list" where
  "engine_failed w snk su e s =
     (case snk s (On_Error (sw_show_error w e)) of
        (r, s', cs) \<Rightarrow>
          (outcome_failed w None (sw_show_error w e), r, s', slot_backend_outcome (su_slot su) (backend_error_outcome e) @ cs))"

definition completed_stats :: "SyncWorld \<Rightarrow> u64 \<Rightarrow> u64 option \<Rightarrow> QueryStats" where
  "completed_stats w rows affected =
     \<lparr>qs_queue_duration_ms = 0, qs_execution_duration_ms = sw_elapsed w, qs_rows_returned = rows,
      qs_bytes_returned = None, qs_affected_rows = affected\<rparr>"

definition stream_done ::
  "SyncWorld \<Rightarrow> 's sink \<Rightarrow> SyncQuerySetup \<Rightarrow> u64 \<Rightarrow> json option \<Rightarrow> u64 option \<Rightarrow> 's \<Rightarrow> SyncOutcome \<times> unit result \<times> 's \<times> Call list" where
  "stream_done w snk su rows stats affected s =
     (case snk s (On_Complete (completed_stats w rows affected)) of
        (r, s', cs) \<Rightarrow> (outcome_success w rows stats, r, s', slot_backend_outcome (su_slot su) BO_Success @ cs))"

fun stream_loop ::
  "SyncWorld \<Rightarrow> 's sink \<Rightarrow> SyncQuerySetup \<Rightarrow> SyncExecution \<Rightarrow> bool \<Rightarrow> u64 \<Rightarrow> RecordBatch result list \<Rightarrow> 's
   \<Rightarrow> SyncOutcome \<times> unit result \<times> 's \<times> Call list" where
  "stream_loop w snk su x sent rows [] s = stream_done w snk su rows (sx_stats x) (sx_affected_rows x) s"
| "stream_loop w snk su x sent rows (Inl e # rest) s = engine_failed w snk su e s"
| "stream_loop w snk su x sent rows (Inr b # rest) s =
     (case (if sent then (Inr (), s, []) else snk s (On_Schema (rb_schema b))) of
        (Inl e, s1, cs1) \<Rightarrow> (outcome_failed w None ''client disconnected during schema send'', Inl e, s1, cs1)
      | (Inr _, s1, cs1) \<Rightarrow>
          (case snk s1 (On_Batch b) of
             (Inl e, s2, cs2) \<Rightarrow>
               (case snk s2 (On_Error (sw_show_error w e)) of
                  (_, s3, cs3) \<Rightarrow>
                    (outcome_failed w (Some (rows + rb_rows b)) (sw_show_error w e), Inl e, s3, cs1 @ cs2 @ cs3))
           | (Inr _, s2, cs2) \<Rightarrow>
               (case stream_loop w snk su x True (rows + rb_rows b) rest s2 of
                  (oc, r, s3, cs3) \<Rightarrow> (oc, r, s3, cs1 @ cs2 @ cs3))))"

definition execute_call :: "SyncQuerySetup \<Rightarrow> bool \<Rightarrow> Call" where
  "execute_call su native =
     Execute (qc_cluster (su_ctx su)) native (su_translated su) (qc_session (su_ctx su)) (su_credentials su)
       (qc_query_tags (su_ctx su)) (su_params su)"

definition execute_stream ::
  "SyncWorld \<Rightarrow> 's sink \<Rightarrow> SyncQuerySetup \<Rightarrow> 's \<Rightarrow> SyncOutcome \<times> unit result \<times> 's \<times> Call list" where
  "execute_stream w snk su s =
     (case (case sw_execute w of
              Inl e \<Rightarrow> engine_failed w snk su e s
            | Inr x \<Rightarrow> stream_loop w snk su x False 0 (sx_stream x) s) of
        (oc, r, s', cs) \<Rightarrow> (oc, r, s', execute_call su False # cs))"

fun native_loop ::
  "SyncWorld \<Rightarrow> 's sink \<Rightarrow> SyncQuerySetup \<Rightarrow> SyncExecution \<Rightarrow> u64 \<Rightarrow> RecordBatch result list \<Rightarrow> 's
   \<Rightarrow> SyncOutcome \<times> unit result \<times> 's \<times> Call list" where
  "native_loop w snk su x rows [] s = stream_done w snk su rows (sx_stats x) None s"
| "native_loop w snk su x rows (Inl e # rest) s = engine_failed w snk su e s"
| "native_loop w snk su x rows (Inr b # rest) s =
     (case snk s (On_Native_Chunk b) of
        (Inl e, s1, cs1) \<Rightarrow> (outcome_failed w (Some (rows + rb_rows b)) (sw_show_error w e), Inl e, s1, cs1)
      | (Inr _, s1, cs1) \<Rightarrow>
          (case native_loop w snk su x (rows + rb_rows b) rest s1 of (oc, r, s2, cs2) \<Rightarrow> (oc, r, s2, cs1 @ cs2)))"

definition NATIVE_ON_ASYNC :: string where
  "NATIVE_ON_ASYNC = ''execute_native_to_sink called for an async adapter - this is a bug''"

definition execute_native_to_sink ::
  "SyncWorld \<Rightarrow> 's sink \<Rightarrow> SyncQuerySetup \<Rightarrow> 's \<Rightarrow> SyncOutcome \<times> unit result \<times> 's \<times> Call list" where
  "execute_native_to_sink w snk su s =
     (if su_async su then
        (case snk s (On_Error NATIVE_ON_ASYNC) of (r, s', cs) \<Rightarrow> (outcome_failed w None NATIVE_ON_ASYNC, r, s', cs))
      else
        (case (case sw_execute w of
                 Inl e \<Rightarrow> engine_failed w snk su e s
               | Inr x \<Rightarrow> native_loop w snk su x 0 (sx_stream x) s) of
           (oc, r, s', cs) \<Rightarrow> (oc, r, s', execute_call su True # cs)))"

section \<open>The whole function\<close>

text \<open>
  \<open>SyncCancelGuard\<close>: when the client is gone the engine's query is cancelled, with the identity it was
  submitted under where the adapter takes one.
\<close>

definition spawn_sync_cancel :: "SyncWorld \<Rightarrow> SyncQuerySetup \<Rightarrow> Call list" where
  "spawn_sync_cancel w su =
     (case sw_backend_id w of
        Some b \<Rightarrow> [CancelBackend b (if su_async su then su_wire_auth su else None)]
      | None \<Rightarrow> [])"

definition sink_failed_outcome :: "SyncOutcome \<Rightarrow> SyncOutcome" where
  "sink_failed_outcome oc =
     oc\<lparr>so_status := (if so_status oc = S_Success then S_Cancelled else so_status oc),
        so_error := (if so_error oc = None then Some ''client disconnected'' else so_error oc)\<rparr>"

definition sync_guard_context :: "SyncRequest \<Rightarrow> SyncQuerySetup \<Rightarrow> GuardContext" where
  "sync_guard_context r su =
     (let ctx = su_ctx su in
      \<lparr>gx_sql = (case pm_translated_sql (qc_pipeline ctx) of Some t \<Rightarrow> t | None \<Rightarrow> su_translated su),
       gx_original_sql = Some (qc_sql ctx), gx_dialect = qc_tgt_dialect ctx, gx_engine_type = qc_engine_type ctx,
       gx_cluster_group = qc_group ctx, gx_user = sess_user (qc_session ctx), gx_groups = auth_groups (sq_auth r),
       gx_roles = auth_roles (sq_auth r), gx_attributes = auth_attributes (sq_auth r),
       gx_query_tags = qc_query_tags ctx, gx_session_extra = sess_extra (qc_session ctx)\<rparr>)"

definition run_and_record ::
  "SyncWorld \<Rightarrow> SyncRequest \<Rightarrow> 's sink \<Rightarrow> SyncQuerySetup \<Rightarrow> GuardAction list \<Rightarrow> 's \<Rightarrow> unit result \<times> 's \<times> Call list" where
  "run_and_record w r snk su actions s =
     (let native = matches_frontend (sw_format w (qc_cluster (su_ctx su))) (sq_protocol r) in
      case (if native then execute_native_to_sink w snk su s else execute_stream w snk su s) of
        (oc, res, s', cs) \<Rightarrow>
          let gone = (case res of Inl _ \<Rightarrow> True | Inr _ \<Rightarrow> False);
              final = (query_outcome_of (if gone then sink_failed_outcome oc else oc))
                \<lparr>qo_backend_query_id := sw_backend_id w, qo_queue_duration_ms := su_queue_duration_ms su,
                 qo_guard_actions := actions\<rparr>
          in (res, s',
              cs @ (if gone then spawn_sync_cancel w su else []) @ snd (slot_release (sw_release_reply w) (su_slot su))
              @ [RecordQuery (su_ctx su) final]))"

definition execute_to_sink_inner ::
  "AppState \<Rightarrow> SyncLive \<Rightarrow> SyncWorld \<Rightarrow> SyncRequest \<Rightarrow> 's sink \<Rightarrow> 's \<Rightarrow> unit result option \<times> 's \<times> Call list" where
  "execute_to_sink_inner app live w r snk s =
     (case setup_sync_query app live w r of
        (SWaiting, cs) \<Rightarrow> (None, s, cs)
      | (SFail e slot, cs) \<Rightarrow>
          (case snk s (On_Error (sw_show_error w e)) of
             (res, s', ds) \<Rightarrow>
               (Some res, s', cs @ (case slot of Some sl \<Rightarrow> slot_drop (sw_release_reply w) sl | None \<Rightarrow> []) @ ds))
      | (SGo su, cs) \<Rightarrow>
          (case run_chains (su_parse su) (sync_guard_context r su) (live_chains (sl_live live) (sq_group r)) (su_guard_actions su) of
             (actions, True) \<Rightarrow>
               (case snk s (On_Error (deny_reason_of actions)) of
                  (res, s', ds) \<Rightarrow>
                    (Some res, s',
                     cs @ snd (slot_release (sw_release_reply w) (su_slot su))
                     @ RecordQuery (su_ctx su)
                         ((query_outcome S_Failed (Some (deny_reason_of actions)) actions)
                            \<lparr>qo_execution_ms := sw_elapsed w, qo_was_guard_blocked := True,
                             qo_queue_duration_ms := su_queue_duration_ms su\<rparr>)
                     # ds))
           | (actions, False) \<Rightarrow>
               (case snk s (On_Translated_Sql (su_translated su)) of
                  (Inl e, s1, ds1) \<Rightarrow>
                    (case snk s1 (On_Error (sw_show_error w e)) of
                       (res, s2, ds2) \<Rightarrow> (Some res, s2, cs @ ds1 @ ds2 @ slot_drop (sw_release_reply w) (su_slot su)))
                | (Inr _, s1, ds1) \<Rightarrow>
                    (case run_and_record w r snk su actions s1 of
                       (res, s2, ds2) \<Rightarrow> (Some res, s2, cs @ ds1 @ ds2)))))"

text \<open>The guards of the cache path see the client's SQL, on the engine type \<open>Cache\<close>.\<close>

definition cache_guard_context :: "SyncLive \<Rightarrow> SyncRequest \<Rightarrow> GuardContext" where
  "cache_guard_context live r =
     \<lparr>gx_sql = sq_sql r, gx_original_sql = None, gx_dialect = D_Generic, gx_engine_type = E_Cache,
      gx_cluster_group = sq_group r, gx_user = sess_user (sq_session r), gx_groups = auth_groups (sq_auth r),
      gx_roles = auth_roles (sq_auth r), gx_attributes = auth_attributes (sq_auth r),
      gx_query_tags = sync_tags live r, gx_session_extra = sess_extra (sq_session r)\<rparr>"

definition run_plan_guards :: "SyncLive \<Rightarrow> SyncWorld \<Rightarrow> SyncRequest \<Rightarrow> string + GuardAction list" where
  "run_plan_guards live w r =
     (case run_chains (sw_cache_guards w) (cache_guard_context live r) (live_chains (sl_live live) (sq_group r)) [] of
        (actions, True) \<Rightarrow> Inl (deny_reason_of actions)
      | (actions, False) \<Rightarrow> Inr actions)"

definition cache_access_allows :: "SyncLive \<Rightarrow> SyncWorld \<Rightarrow> SyncRequest \<Rightarrow> bool" where
  "cache_access_allows live w r \<longleftrightarrow>
     (case lv_access_guard (sl_live live) of
        Some g \<Rightarrow>
          (if enabled_for_group g (sq_group r) then
             (case run_access_control_stage (sw_cache_access w) g
                     (stage_context (sq_sql r) (resolve_src_dialect (sq_session r) (sq_protocol r)) E_Cache (sq_group r)
                       (sq_auth r) (sq_session r) (sync_tags live r)) of
                StageAllowed _ \<Rightarrow> True
              | _ \<Rightarrow> False)
           else True)
      | None \<Rightarrow> True)"

definition effective_cache :: "SyncLive \<Rightarrow> SyncRequest \<Rightarrow> GroupCacheConfig option" where
  "effective_cache live r =
     (case map_of (sl_cache_settings live) (sq_group r) of
        Some c \<Rightarrow> Some c
      | None \<Rightarrow> map_option to_group_config (extract_cache_hint (sq_sql r) (sq_session r)))"

definition fixups_can_run :: "SyncLive \<Rightarrow> SyncWorld \<Rightarrow> SyncRequest \<Rightarrow> bool" where
  "fixups_can_run live w r \<longleftrightarrow>
     should_attempt_translation (sq_session r) (sq_protocol r)
     \<and> ((case map_of (sl_scripts live) (sq_group r) of Some ss \<Rightarrow> ss \<noteq> [] | None \<Rightarrow> False) \<or> sw_global_fixups w)"

definition sync_cache_key :: "SyncLive \<Rightarrow> SyncWorld \<Rightarrow> SyncRequest \<Rightarrow> CacheKey option" where
  "sync_cache_key live w r =
     (if effective_cache live r \<noteq> None \<and> \<not> fixups_can_run live w r \<and> sw_cacheable w then
        Some (new_scoped (sw_xxh64 w) (sq_sql r) (sq_group r) (sl_fingerprint live (sq_group r)) (sq_session r)
          (auth_user (sq_auth r)) (sq_params r))
      else None)"

definition cache_hit_context :: "SyncLive \<Rightarrow> SyncWorld \<Rightarrow> SyncRequest \<Rightarrow> QueryContext" where
  "cache_hit_context live w r =
     \<lparr>qc_query_id = sw_cache_query_id w, qc_sql = sq_sql r, qc_session = sq_session r, qc_protocol = sq_protocol r,
      qc_group = sq_group r, qc_cluster = ''(cache)'', qc_cluster_group_config_id = None, qc_cluster_config_id = None,
      qc_engine_type = E_Cache, qc_src_dialect = D_Generic, qc_tgt_dialect = D_Generic, qc_pipeline = no_pipeline,
      qc_translation = None, qc_query_tags = sync_tags live r, qc_query_params = [],
      qc_agent_context = resolved_agent_context (sq_session r)\<rparr>"

text \<open>Running the query, filling the cache on the way when it may be cached.\<close>

definition execute_and_cache ::
  "AppState \<Rightarrow> SyncLive \<Rightarrow> SyncWorld \<Rightarrow> SyncRequest \<Rightarrow> 's sink \<Rightarrow> 's \<Rightarrow> CacheKey option \<Rightarrow> unit result option \<times> 's \<times> CacheState \<times> Call list" where
  "execute_and_cache app live w r snk s key =
     (case (key, effective_cache live r) of
        (Some k, Some cfg) \<Rightarrow>
          let opened = CacheWriter (show_cache_key k) (gcc_ttl_secs cfg) in
          if sw_cache_writer_ok w then
            (let tee = tee_new s (cache_writer k (gcc_ttl_secs cfg)) (map_option (\<lambda>mb. mb * 1024 * 1024) (gcc_max_entry_size_mb cfg)) in
             case execute_to_sink_inner app live w r (tee_sink (sw_ipc w) snk) tee of
               (None, t, cs) \<Rightarrow> (None, tee_inner t, sw_cache w, opened # cs)
             | (Some res, t, cs) \<Rightarrow>
                 (case finalize_cache (sw_ipc w) (sw_cache_write w) (sw_cache w) t (case res of Inr _ \<Rightarrow> True | Inl _ \<Rightarrow> False) of
                    None \<Rightarrow> (None, tee_inner t, sw_cache w, opened # cs)
                  | Some (t', st', fs) \<Rightarrow>
                      (Some res, tee_inner t', st',
                       opened # cs @ fs
                       @ (if (case res of Inr _ \<Rightarrow> True | Inl _ \<Rightarrow> False) \<and> tee_committed t' then [CacheWriteCounted (sq_group r)] else []))))
          else (case execute_to_sink_inner app live w r snk s of (res, s', cs) \<Rightarrow> (res, s', sw_cache w, opened # cs))
      | _ \<Rightarrow> (case execute_to_sink_inner app live w r snk s of (res, s', cs) \<Rightarrow> (res, s', sw_cache w, cs)))"

definition cache_hit ::
  "SyncLive \<Rightarrow> SyncWorld \<Rightarrow> SyncRequest \<Rightarrow> 's sink \<Rightarrow> GuardAction list \<Rightarrow> CacheHitStats \<Rightarrow> 's \<Rightarrow> unit result \<times> 's \<times> Call list" where
  "cache_hit live w r snk actions stats s =
     (case snk s (On_Complete \<lparr>qs_queue_duration_ms = 0, qs_execution_duration_ms = 0, qs_rows_returned = chs_row_count stats,
              qs_bytes_returned = Some (chs_size_bytes stats), qs_affected_rows = None\<rparr>) of
        (res, s', cs) \<Rightarrow>
          (res, s',
           [CacheHitCounted (sq_group r),
            RecordQuery (cache_hit_context live w r)
              ((query_outcome S_Success None actions)\<lparr>qo_rows := Some (chs_row_count stats), qo_cache_hit := True\<rparr>)] @ cs))"

definition NOT_AUTHORIZED_FOR :: "SyncRequest \<Rightarrow> string" where
  "NOT_AUTHORIZED_FOR r =
     ''user '' @ squote (auth_user (sq_auth r)) @ '' is not authorized to run queries on cluster group '' @ squote (sq_group r)"

definition execute_to_sink ::
  "AppState \<Rightarrow> SyncLive \<Rightarrow> SyncWorld \<Rightarrow> SyncRequest \<Rightarrow> 's sink \<Rightarrow> 's \<Rightarrow> unit result option \<times> 's \<times> CacheState \<times> Call list" where
  "execute_to_sink app live w r snk s =
     (if \<not> check (sw_fga w) (lv_authorization (sl_live live)) (sq_auth r) (sq_group r) then
        (case snk s (On_Error (NOT_AUTHORIZED_FOR r)) of (res, s', cs) \<Rightarrow> (Some res, s', sw_cache w, cs))
      else
        (case sync_cache_key live w r of
           None \<Rightarrow> execute_and_cache app live w r snk s None
         | Some k \<Rightarrow>
             if \<not> cache_access_allows live w r then
               (case execute_and_cache app live w r snk s None of
                  (res, s', st', cs) \<Rightarrow> (res, s', st', CacheMissCounted (sq_group r) # cs))
             else
               (case run_plan_guards live w r of
                  Inl reason \<Rightarrow> (case snk s (On_Error reason) of (res, s', cs) \<Rightarrow> (Some res, s', sw_cache w, cs))
                | Inr actions \<Rightarrow>
                    (case try_stream_cached (sw_ipc w) (sw_show_error w) (sw_cache_read w) (sw_cache w) k snk s of
                       (Inr (Some stats), s1, cs1) \<Rightarrow>
                         (case cache_hit live w r snk actions stats s1 of
                            (res, s2, cs2) \<Rightarrow> (Some res, s2, sw_cache w, CacheLookup (show_cache_key k) # cs1 @ cs2))
                     | (Inr None, s1, cs1) \<Rightarrow>
                         (case execute_and_cache app live w r snk s1 (Some k) of
                            (res, s2, st', cs2) \<Rightarrow>
                              (res, s2, st', CacheLookup (show_cache_key k) # cs1 @ CacheMissCounted (sq_group r) # cs2))
                     | (Inl e, s1, cs1) \<Rightarrow>
                         (case execute_and_cache app live w r snk s1 (Some k) of
                            (res, s2, st', cs2) \<Rightarrow> (res, s2, st', CacheLookup (show_cache_key k) # cs1 @ cs2))))))"


section \<open>Accounting of the slot\<close>

fun owes :: "cluster_key \<Rightarrow> ('a \<Rightarrow> ClusterSlotGuard) \<Rightarrow> 'a sstage \<times> Call list \<Rightarrow> bool" where
  "owes k h (SFail e (Some s), cs) \<longleftrightarrow> slots_owed k cs = slot_debt k s \<and> running_owed k cs = running_debt k s"
| "owes k h (SFail e None, cs) \<longleftrightarrow> slots_owed k cs = 0 \<and> running_owed k cs = 0"
| "owes k h (SWaiting, cs) \<longleftrightarrow> slots_owed k cs = 0 \<and> running_owed k cs = 0"
| "owes k h (SGo x, cs) \<longleftrightarrow> slots_owed k cs = slot_debt k (h x) \<and> running_owed k cs = running_debt k (h x)"

fun owes_from :: "cluster_key \<Rightarrow> ClusterSlotGuard \<Rightarrow> ('a \<Rightarrow> ClusterSlotGuard) \<Rightarrow> 'a sstage \<times> Call list \<Rightarrow> bool" where
  "owes_from k s h (SFail e (Some s'), cs) \<longleftrightarrow> guard_step k s s' cs"
| "owes_from k s h (SGo x, cs) \<longleftrightarrow> guard_step k s (h x) cs"
| "owes_from k s h _ \<longleftrightarrow> False"

lemma sbind_simps [simp]:
  "sbind (SFail e s, cs) f = (SFail e s, cs)" "sbind (SWaiting, cs) f = (SWaiting, cs)"
  "sbind (SGo x, cs) f = (fst (f x), cs @ snd (f x))"
  by (simp_all add: sbind_def case_prod_unfold)

lemma owes_from_sbind:
  assumes "owes_from k s h m" "\<And>x cs. m = (SGo x, cs) \<Longrightarrow> owes_from k (h x) h' (f x)"
  shows "owes_from k s h' (sbind m f)"
  using assms(1)
proof (cases "(k, s, h, m)" rule: owes_from.cases)
  case (2 k s h x cs)
  then have "owes_from k (h x) h' (fst (f x), snd (f x))" "guard_step k s (h x) cs" using assms by auto
  then show ?thesis using 2
    by (cases "(k, h x, h', fst (f x), snd (f x))" rule: owes_from.cases) (auto intro: guard_step_trans)
qed (use assms(1) in auto)

lemma owes_sbind:
  assumes "owes k h m" "\<And>x cs. m = (SGo x, cs) \<Longrightarrow> owes_from k (h x) h' (f x)"
  shows "owes k h' (sbind m f)"
  using assms(1)
proof (cases "(k, h, m)" rule: owes.cases)
  case (4 k h x cs)
  then have "owes_from k (h x) h' (fst (f x), snd (f x))" using assms by auto
  moreover have "slots_owed k cs = slot_debt k (h x)" "running_owed k cs = running_debt k (h x)" using 4 assms(1) by simp_all
  ultimately show ?thesis using 4
    by (cases "(k, h x, h', fst (f x), snd (f x))" rule: owes_from.cases) (auto simp: guard_step_def)
qed (use assms(1) in auto)

lemma wait_in_line_silent: "wait_in_line t c q seq ws = (d, cs) \<Longrightarrow> slots_owed k cs = 0 \<and> running_owed k cs = 0"
  by (induction t c q seq ws arbitrary: d cs rule: wait_in_line.induct)
    (auto simp: Let_def split: if_splits sum.splits bool.splits prod.splits)

lemma new_slot_debts [simp]:
  "slot_debt k (slot_new app g c q) = (if at_key k g c then 1 else 0)" "running_debt k (slot_new app g c q) = 0"
  by (simp_all add: slot_debt_def running_debt_def slot_new_def)

lemma new_slot_released:
  "slot_release reply (slot_new app g c q) = (s', cs) \<Longrightarrow>
     slots_owed k cs = (if at_key k g c then -1 else 0) \<and> running_owed k cs = 0 \<and> slot_debt k s' = 0 \<and> running_debt k s' = 0"
  "slots_owed k (snd (release_local (slot_new app g c q))) = (if at_key k g c then -1 else 0)"
  "running_owed k (snd (release_local (slot_new app g c q))) = 0"
  by (auto simp: slot_release_def release_local_def slot_new_def guard_defs split: sum.splits if_splits)

lemma owes_prepend:
  "slots_owed k cs = 0 \<Longrightarrow> running_owed k cs = 0 \<Longrightarrow> owes k h (st, ds) \<Longrightarrow> owes k h (st, cs @ ds)"
  by (cases "(k, h, st, ds)" rule: owes.cases) auto

fun round_owes :: "cluster_key \<Rightarrow> round_end \<times> Call list \<Rightarrow> bool" where
  "round_owes k (Ends st, cs) \<longleftrightarrow> owes k fst (st, cs)"
| "round_owes k (Again wt, cs) \<longleftrightarrow> slots_owed k cs = 0 \<and> running_owed k cs = 0"

lemma sync_round_owes: "round_owes k (sync_round app live w r seq waited rd)"
proof (cases "wait_deadline live w r \<le> sr_now rd \<or> should_yield_to_older_queued (sr_mgr_gate rd) (sq_group r) (sr_older_waiters rd)")
  case True
  then show ?thesis by (auto simp: sync_round_def Let_def split: option.splits)
next
  case go: False
  show ?thesis
  proof (cases "fst (acquire_cluster (sr_interference rd) (sr_python rd) (sr_mgr_acquire rd) (sq_group r))")
    case (Inl e)
    then show ?thesis using go by (simp add: sync_round_def)
  next
    case acq: (Inr co)
    show ?thesis
    proof (cases co)
      case None
      then show ?thesis using go acq by (simp add: sync_round_def)
    next
      case (Some c)
      let ?slot = "slot_new app (sq_group r) c (sw_query_id w)"
      obtain grant asked where G: "acquire_global_capacity app (sr_mgr_limit rd) (sr_try_acquire rd) (sq_group r) c (sw_query_id w) = (grant, asked)"
        by (metis surj_pair)
      obtain slot' rel where rel: "slot_release (sr_release_reply rd) ?slot = (slot', rel)" by (metis surj_pair)
      obtain d waits where W: "wait_in_line (min (sr_wait_from rd + RENEW_WAITS_FOR) (wait_deadline live w r)) c (sw_query_id w) seq (sr_waits rd) = (d, waits)"
        by (metis surj_pair)
      note facts = capacity_calls_silent [OF G, of k] new_slot_released(1) [OF rel, of k] new_slot_released(2,3) [of k app "sq_group r" c "sw_query_id w"]
        wait_in_line_silent [OF W, of k]
      show ?thesis
        using go acq Some G rel W facts
        by (cases grant; cases d; cases "map_of (lv_adapters (sl_live live)) c") (simp_all add: sync_round_def Let_def)
    qed
  qed
qed
lemma sync_admit_owes: "owes k fst (sync_admit app live w r seq waited rds)"
proof (induction rds arbitrary: seq waited)
  case (Cons rd rds)
  obtain re cs where R: "sync_round app live w r seq waited rd = (re, cs)" by (cases "sync_round app live w r seq waited rd")
  note ro = sync_round_owes [of k app live w r seq waited rd, unfolded R]
  show ?case
  proof (cases re)
    case (Again wt)
    obtain st ds where A: "sync_admit app live w r (seq + 1) wt rds = (st, ds)" by (cases "sync_admit app live w r (seq + 1) wt rds")
    then show ?thesis using Cons.IH [of "seq + 1" wt] Again ro R by (simp add: owes_prepend)
  qed (use ro R in simp)
qed simp

lemma sync_deny_owes: "owes_from k (sj_slot j) h (sync_deny w j ctx reason actions)"
  using guard_step_deny [of "sw_release_reply w" "sj_slot j" ctx reason "sw_elapsed w" actions]
  by (auto simp: sync_deny_def split: prod.splits)

lemma sync_access_owes: "owes_from k (sj_slot j) (\<lambda>c. sj_slot (sk_job c)) (sync_access live w r j)"
  unfolding sync_access_def Let_def
  using sync_deny_owes [of k "j\<lparr>sj_session := drop_unchecked_session_sql (sj_session j)\<rparr>" "\<lambda>c. sj_slot (sk_job c)" w] 
    sync_deny_owes [of k j "\<lambda>c. sj_slot (sk_job c)" w]
  by (auto split: option.splits AccessStageOutcome.splits)

lemma sync_translate_owes: "owes_from k (sj_slot (sk_job c)) (\<lambda>_. sj_slot (sk_job c)) (sync_translate w r c)"
  unfolding sync_translate_def Let_def using guard_step_release
  by (auto simp: guard_step_def split: prod.splits sum.splits)

lemma sync_invariant_owes: "owes_from k (sj_slot (sk_job c)) (\<lambda>_. sj_slot (sk_job c)) (sync_invariant w r c sql tout)"
  unfolding sync_invariant_def Let_def using sync_deny_owes by auto

lemma sync_identity_owes: "owes_from k (sj_slot j) (\<lambda>_. sj_slot j) (sync_identity live w r j)"
  unfolding sync_identity_def Let_def using guard_step_release
  by (auto split: sum.splits prod.splits)

lemma sync_interpolate_owes: "owes_from k s (\<lambda>_. s) (sync_interpolate w r s sql)"
  unfolding sync_interpolate_def by (auto split: sum.splits)

lemma sync_prepare_owes: "\<not> sg_released s \<Longrightarrow> owes_from k s sj_slot (sync_prepare live w r (s, a, seq))"
  using guard_step_started [of s]
  by (auto simp: sync_prepare_def Let_def split: prod.splits)

lemma sync_admit_slot:
  "sync_admit app live w r seq waited rds = (SGo (s, a, n), cs) \<Longrightarrow> \<exists>c. s = slot_new app (sq_group r) c (sw_query_id w)"
proof (induction rds arbitrary: seq waited cs)
  case (Cons rd rds)
  obtain re ds where R: "sync_round app live w r seq waited rd = (re, ds)" by (cases "sync_round app live w r seq waited rd")
  show ?case
  proof (cases re)
    case (Ends st)
    then show ?thesis using Cons.prems R
      by (auto simp: sync_round_def Let_def split: if_splits sum.splits option.splits prod.splits CapacityGrant.splits bool.splits)
  next
    case (Again wt)
    then show ?thesis using Cons R by (auto split: prod.splits)
  qed
qed simp

lemma setup_owes: "owes k su_slot (setup_sync_query app live w r)"
  unfolding setup_sync_query_def
proof (rule owes_sbind [OF sync_admit_owes], goal_cases)
  case (1 got cs)
  obtain s a seq where got: "got = (s, a, seq)" by (cases got)
  have s: "\<not> sg_released s" using 1 got sync_admit_slot [of app live w r] by (fastforce simp: slot_new_def)
  show ?case
    unfolding got fst_conv
  proof (rule owes_from_sbind [OF sync_prepare_owes [OF s]], rule owes_from_sbind [OF sync_access_owes], goal_cases)
    case (1 j cs c cs')
    show ?case
      by (rule owes_from_sbind [OF sync_translate_owes], unfold case_prod_beta, rule owes_from_sbind [OF sync_invariant_owes],
          rule owes_from_sbind [OF sync_identity_owes], rule owes_from_sbind [OF sync_interpolate_owes]) (simp add: Let_def)
  qed
qed


lemma sink_calls_quiet: "\<forall>c \<in> set cs. is_sink_call c \<Longrightarrow> slots_owed k cs = 0 \<and> running_owed k cs = 0"
proof (induction cs)
  case (Cons c cs)
  then show ?case by (cases c) auto
qed simp

text \<open>While a query runs its calls leave the slot alone.\<close>

fun is_run_call :: "Call \<Rightarrow> bool" where
  "is_run_call (BackendReported _ _ _) = True"

| "is_run_call c = is_sink_call c"

lemma sink_call_runs: "is_sink_call c \<Longrightarrow> is_run_call c"
  by (cases c) auto

fun is_execute :: "Call \<Rightarrow> bool" where
  "is_execute (Execute _ _ _ _ _ _ _) = True"
| "is_execute _ = False"

lemma is_execute_call [simp]: "is_execute (execute_call su b)"
  by (simp add: execute_call_def)

lemma run_calls_quiet: "\<forall>c \<in> set cs. is_run_call c \<or> is_execute c \<Longrightarrow> slots_owed k cs = 0 \<and> running_owed k cs = 0"
proof (induction cs)
  case (Cons c cs)
  then show ?case by (cases c) auto
qed simp

context result_sink
begin

lemma step_run: "step s ev = (r, s', cs) \<Longrightarrow> c \<in> set cs \<Longrightarrow> is_run_call c"
  by (rule sink_call_runs, rule step_calls)

lemma engine_failed_calls: "engine_failed w step su e s = (oc, res, s', cs) \<Longrightarrow> c \<in> set cs \<Longrightarrow> is_run_call c"
  by (auto simp: engine_failed_def slot_backend_outcome_def intro: step_run split: prod.splits)

lemma stream_done_calls: "stream_done w step su rows stats aff s = (oc, res, s', cs) \<Longrightarrow> c \<in> set cs \<Longrightarrow> is_run_call c"
  by (auto simp: stream_done_def slot_backend_outcome_def intro: step_run split: prod.splits)

lemma stream_loop_calls: "stream_loop w step su x sent rows bs s = (oc, res, s', cs) \<Longrightarrow> c \<in> set cs \<Longrightarrow> is_run_call c"
proof (induction bs arbitrary: sent rows s oc res s' cs)
  case Nil
  then show ?case using stream_done_calls by auto
next
  case (Cons b bs)
  show ?case
  proof (cases b)
    case (Inl e)
    then show ?thesis using Cons.prems engine_failed_calls by auto
  next
    case (Inr batch)
    obtain r1 s1 cs1 where 1: "(if sent then (Inr (), s, []) else step s (On_Schema (rb_schema batch))) = (r1, s1, cs1)" by (metis prod_cases3)
    obtain r2 s2 cs2 where 2: "step s1 (On_Batch batch) = (r2, s2, cs2)" by (metis prod_cases3)
    have c1: "\<forall>c \<in> set cs1. is_run_call c" using 1 step_run by (auto split: if_splits)
    have c2: "\<forall>c \<in> set cs2. is_run_call c" using 2 step_run by blast
    have c3: "step s2 ev = (r3, s3, cs3) \<Longrightarrow> \<forall>c \<in> set cs3. is_run_call c" for ev r3 s3 cs3
      using step_run by blast
    show ?thesis
      using Cons.prems Inr 1 2 c1 c2 c3 Cons.IH by (auto split: sum.splits prod.splits)
  qed
qed

lemma native_loop_calls: "native_loop w step su x rows bs s = (oc, res, s', cs) \<Longrightarrow> c \<in> set cs \<Longrightarrow> is_run_call c"
proof (induction bs arbitrary: rows s oc res s' cs)
  case Nil
  then show ?case using stream_done_calls by auto
next
  case (Cons b bs)
  show ?case
  proof (cases b)
    case (Inl e)
    then show ?thesis using Cons.prems engine_failed_calls by auto
  next
    case (Inr batch)
    obtain r1 s1 cs1 where 1: "step s (On_Native_Chunk batch) = (r1, s1, cs1)" by (metis prod_cases3)
    have c1: "\<forall>c \<in> set cs1. is_run_call c" using 1 step_run by blast
    show ?thesis using Cons.prems Inr 1 c1 Cons.IH by (auto split: sum.splits prod.splits)
  qed
qed

lemma execute_stream_calls:
  "execute_stream w step su s = (oc, res, s', cs) \<Longrightarrow> c \<in> set cs \<Longrightarrow> is_run_call c \<or> (\<exists>b. c = execute_call su b)"
  using stream_loop_calls engine_failed_calls by (auto simp: execute_stream_def split: sum.splits prod.splits)

lemma execute_native_calls:
  "execute_native_to_sink w step su s = (oc, res, s', cs) \<Longrightarrow> c \<in> set cs \<Longrightarrow> is_run_call c \<or> (\<exists>b. c = execute_call su b)"
  using native_loop_calls engine_failed_calls
  by (auto simp: execute_native_to_sink_def intro: step_run split: sum.splits prod.splits if_splits)

lemma run_and_record_pays:
  assumes "run_and_record w r step su actions s = (res, s', cs)"
  shows "slot_debt k (su_slot su) + slots_owed k cs = 0 \<and> running_debt k (su_slot su) + running_owed k cs = 0"
proof -
  let ?native = "matches_frontend (sw_format w (qc_cluster (su_ctx su))) (sq_protocol r)"
  obtain oc r2 s2 ds where X: "(if ?native then execute_native_to_sink w step su s else execute_stream w step su s) = (oc, r2, s2, ds)"
    by (metis prod_cases4)
  have "\<forall>c \<in> set ds. is_run_call c \<or> is_execute c" using X execute_stream_calls execute_native_calls by (fastforce split: if_splits)
  then have q: "slots_owed k ds = 0" "running_owed k ds = 0" using run_calls_quiet by auto
  obtain sl rel where rel: "slot_release (sw_release_reply w) (su_slot su) = (sl, rel)" by (metis surj_pair)
  have c: "slots_owed k (spawn_sync_cancel w su) = 0" "running_owed k (spawn_sync_cancel w su) = 0"
    by (auto simp: spawn_sync_cancel_def split: option.splits)
  show ?thesis
    using assms X q c rel guard_step_release [OF rel, of k]
    by (auto simp: run_and_record_def Let_def guard_step_def slot_debt_def running_debt_def split: sum.splits)
qed

lemma inner_balanced:
  assumes "execute_to_sink_inner app live w r step s = (res, s', cs)"
  shows "slots_owed k cs = 0 \<and> running_owed k cs = 0"
proof -
  obtain st ds where S: "setup_sync_query app live w r = (st, ds)" by (metis surj_pair)
  note o = setup_owes [of k app live w r, unfolded S]
  show ?thesis
  proof (cases st)
    case (SFail e slot)
    then show ?thesis
      using assms S o guard_step_drop [of "sw_release_reply w"]
      by (cases slot) (auto simp: execute_to_sink_inner_def dest: step_quiet [of _ _ _ _ _ k] split: prod.splits)
  next
    case SWaiting
    then show ?thesis using assms S o by (simp add: execute_to_sink_inner_def)
  next
    case (SGo su)
    obtain actions blocked where R: "run_chains (su_parse su) (sync_guard_context r su) (live_chains (sl_live live) (sq_group r))
        (su_guard_actions su) = (actions, blocked)" by (metis surj_pair)
    obtain sl rel where rel: "slot_release (sw_release_reply w) (su_slot su) = (sl, rel)" by (metis surj_pair)
    obtain r1 s1 cs1 where T: "step s (On_Translated_Sql (su_translated su)) = (r1, s1, cs1)" by (metis prod_cases3)
    have debt: "slots_owed k ds = slot_debt k (su_slot su)" "running_owed k ds = running_debt k (su_slot su)" using o SGo by simp_all
    show ?thesis
    proof (cases blocked)
      case True
      then show ?thesis
        using assms S SGo R rel debt guard_step_release [OF rel, of k]
        by (auto simp: execute_to_sink_inner_def guard_step_def slot_debt_def running_debt_def
            dest: step_quiet [of _ _ _ _ _ k] split: prod.splits)
    next
      case False
      then show ?thesis
        using assms S SGo R T debt run_and_record_pays [of w r su actions s1 _ _ _ k] step_quiet [OF T, of k]
          guard_step_drop [of "sw_release_reply w" "su_slot su" _ k]
        by (auto simp: execute_to_sink_inner_def dest: step_quiet [of _ _ _ _ _ k] split: prod.splits sum.splits)
    qed
  qed
qed

end


lemma finalize_calls: "finalize_cache f ww st t ok = Some (t', st', cs) \<Longrightarrow> c \<in> set cs \<Longrightarrow> is_sink_call c"
  by (auto simp: finalize_cache_def Let_def split: if_splits option.splits prod.splits)

lemma sink_calls_cases:
  assumes "finalize_cache f ww st t ok = Some (t', st', cs)"
  shows "slots_owed k cs = 0" "running_owed k cs = 0" "sink_events cs = []"
  using assms by (auto simp: finalize_cache_def Let_def split: if_splits option.splits prod.splits)

context result_sink
begin

lemma replayed_calls: "try_stream_cached f msg_of rw st k step s = (res, s', cs) \<Longrightarrow> \<forall>c \<in> set cs. is_sink_call c"
  using replay_calls by (auto simp: try_stream_cached_def split: option.splits if_splits prod.splits sum.splits)

lemma execute_and_cache_inner:
  assumes "execute_and_cache app live w r step s key = (res, s', st', cs)"
  obtains (plain) pre where "execute_to_sink_inner app live w r step s = (res, s', drop (length pre) cs)"
      "cs = pre @ drop (length pre) cs" "\<forall>c \<in> set pre. \<exists>a b. c = CacheWriter a b"
  | (teed) k ttl ds post t t' res' where "key = Some k"
      "execute_to_sink_inner app live w r (tee_sink (sw_ipc w) step) t = (res', t', ds)"
      "cs = CacheWriter (show_cache_key k) ttl # ds @ post"
      "res = None \<or> res = res'" "sink_events post = []"
      "\<forall>c \<in> set post. is_sink_call c \<or> c = CacheWriteCounted (sq_group r)"
proof (cases "\<exists>k cfg. key = Some k \<and> effective_cache live r = Some cfg \<and> sw_cache_writer_ok w")
  case True
  then obtain k cfg where k: "key = Some k" "effective_cache live r = Some cfg" "sw_cache_writer_ok w" by blast
  let ?t = "tee_new s (cache_writer k (gcc_ttl_secs cfg)) (map_option (\<lambda>mb. mb * 1024 * 1024) (gcc_max_entry_size_mb cfg))"
  obtain res' t' ds where I: "execute_to_sink_inner app live w r (tee_sink (sw_ipc w) step) ?t = (res', t', ds)" by (metis prod_cases3)
  show thesis
  proof (rule teed [OF k(1) I, of "gcc_ttl_secs cfg" "drop (Suc (length ds)) cs"])
    show "cs = CacheWriter (show_cache_key k) (gcc_ttl_secs cfg) # ds @ drop (Suc (length ds)) cs"
      using assms k I by (auto simp: execute_and_cache_def Let_def split: option.splits prod.splits)
    show "res = None \<or> res = res'"
      using assms k I by (auto simp: execute_and_cache_def Let_def split: option.splits prod.splits)
    show "sink_events (drop (Suc (length ds)) cs) = []"
      using assms k I by (auto simp: execute_and_cache_def Let_def dest: sink_calls_cases(3) split: option.splits prod.splits)
    show "\<forall>c \<in> set (drop (Suc (length ds)) cs). is_sink_call c \<or> c = CacheWriteCounted (sq_group r)"
      using assms k I finalize_calls by (auto simp: execute_and_cache_def Let_def split: option.splits prod.splits if_splits)
  qed
next
  case False
  obtain res' s2 ds where I: "execute_to_sink_inner app live w r step s = (res', s2, ds)" by (metis prod_cases3)
  show thesis
  proof (rule plain [of "take (length cs - length ds) cs"])
    show "execute_to_sink_inner app live w r step s = (res, s', drop (length (take (length cs - length ds) cs)) cs)"
      using assms False I by (auto simp: execute_and_cache_def Let_def split: option.splits)
    show "cs = take (length cs - length ds) cs @ drop (length (take (length cs - length ds) cs)) cs" by simp
    show "\<forall>c \<in> set (take (length cs - length ds) cs). \<exists>a b. c = CacheWriter a b"
      using assms False I by (auto simp: execute_and_cache_def Let_def split: option.splits)
  qed
qed

lemma execute_to_sink_balanced:
  assumes "execute_to_sink app live w r step s = (res, s', st', cs)"
  shows "slots_owed k cs = 0 \<and> running_owed k cs = 0"
proof -
  have quiet: "slots_owed k ds = 0 \<and> running_owed k ds = 0" if "\<forall>c \<in> set ds. is_sink_call c \<or> c = CacheWriteCounted (sq_group r)" for ds
    using that
  proof (induction ds)
    case (Cons d ds)
    then show ?case by (cases d) auto
  qed simp
  have ec: "slots_owed k ds = 0 \<and> running_owed k ds = 0" if "execute_and_cache app live w r step s1 key = (res1, s2, st2, ds)" for s1 key res1 s2 st2 ds
    using that
  proof (cases rule: execute_and_cache_inner)
    case (plain pre)
    have "slots_owed k pre = 0 \<and> running_owed k pre = 0" using plain(3) by (induction pre) auto
    then show ?thesis using inner_balanced [OF plain(1), of k] plain(2) by (metis add_0 running_owed_simps(3) slots_owed_simps(3))
  next
    case (teed key' ttl cs' post t t' res')
    then show ?thesis using result_sink.inner_balanced [OF tee_is_sink teed(2), of k] quiet [of post] by simp
  qed
  have hit: "slots_owed k ds = 0 \<and> running_owed k ds = 0" if "cache_hit live w r step actions stats s1 = (res1, s2, ds)" for actions stats s1 res1 s2 ds
    using that by (auto simp: cache_hit_def dest: step_quiet [of _ _ _ _ _ k] split: prod.splits)
  have rp: "slots_owed k ds = 0 \<and> running_owed k ds = 0"
    if "try_stream_cached (sw_ipc w) (sw_show_error w) (sw_cache_read w) (sw_cache w) key step s = (rs, s1, ds)" for key rs s1 ds
    using replayed_calls [OF that] sink_calls_quiet by blast
  show ?thesis
    using assms
    by (auto simp: execute_to_sink_def dest!: ec hit rp dest: step_quiet [of _ _ _ _ _ k] split: if_splits option.splits sum.splits prod.splits)
qed

end


text \<open>
  Claim C5. The streaming path pays for its slots: whatever the other parts of the system and the client answer,
  and at whatever point the query ends, every slot it acquired has been given back to the same cluster
  and every query it reported as started has been reported as finished. A query still waiting for
  capacity holds no slot. (A call that is dropped midway, not returned from, is outside.)
\<close>
theorem sync_balanced:
  "\<exists>res seen st cs. execute_to_sink app live w r (client_sink reply) [] = (res, seen, st, cs)
     \<and> (\<forall>k. slots_owed k cs = 0 \<and> running_owed k cs = 0)"
proof -
  obtain res seen st cs where E: "execute_to_sink app live w r (client_sink reply) [] = (res, seen, st, cs)" by (metis prod_cases4)
  then show ?thesis using client.execute_to_sink_balanced [OF E] by blast
qed

end
