(* ===== verification/Sync_Guarantees.thy ===== *)
theory Sync_Guarantees
  imports Sync_Dispatch
begin

text \<open>
  What the streaming path of \<open>Sync_Dispatch\<close> guarantees beyond its slots: the events a client is sent, the
  rows of the history, what an engine is asked to run, what the result cache may serve, and that waiting ends.
\<close>

section \<open>What the client is sent\<close>

datatype phase = P_Start | P_Rows | P_Chunks | P_Closed | P_Broken

fun next_phase :: "phase \<Rightarrow> SinkEvent \<Rightarrow> phase" where
  "next_phase P_Start (On_Translated_Sql _) = P_Start"
| "next_phase P_Start (On_Schema _) = P_Rows"
| "next_phase P_Start (On_Native_Chunk _) = P_Chunks"
| "next_phase P_Rows (On_Batch _) = P_Rows"
| "next_phase P_Chunks (On_Native_Chunk _) = P_Chunks"
| "next_phase P_Closed _ = P_Broken"
| "next_phase P_Broken _ = P_Broken"
| "next_phase _ (On_Error _) = P_Closed"
| "next_phase _ (On_Complete _) = P_Closed"
| "next_phase _ _ = P_Broken"

definition phase_after :: "phase \<Rightarrow> SinkEvent list \<Rightarrow> phase" where
  "phase_after p evs = foldl next_phase p evs"

lemma phase_after_simps [simp]:
  "phase_after p [] = p" "phase_after p (ev # evs) = phase_after (next_phase p ev) evs"
  "phase_after p (evs @ fs) = phase_after (phase_after p evs) fs"
  by (simp_all add: phase_after_def)

text \<open>The events keep to the protocol, and a call that succeeded has closed the result.\<close>

definition keeps_protocol :: "phase \<Rightarrow> unit result \<Rightarrow> Call list \<Rightarrow> bool" where
  "keeps_protocol p res cs \<longleftrightarrow>
     phase_after p (sink_events cs) \<noteq> P_Broken \<and> (res = Inr () \<longrightarrow> phase_after p (sink_events cs) = P_Closed)"

lemma sink_events_Cons: "\<not> (\<exists>ev. c = Sink ev) \<Longrightarrow> sink_events (c # cs) = sink_events cs"
  by (cases c) auto

context result_sink
begin

lemma step_shows_end:
  "step s (On_Error m) = (r, s', cs) \<Longrightarrow> sink_events cs = [On_Error m]"
  "step s (On_Complete q) = (r, s', cs) \<Longrightarrow> sink_events cs = [On_Complete q]"
  "step s (On_Native_Chunk b) = (r, s', cs) \<Longrightarrow> sink_events cs = [On_Native_Chunk b]"
  using step_shows by fastforce+

lemma open_phase_ends:
  "p \<in> {P_Start, P_Rows, P_Chunks} \<Longrightarrow> next_phase p (On_Error m) = P_Closed \<and> next_phase p (On_Complete q) = P_Closed"
  by auto

lemma engine_failed_protocol:
  "p \<in> {P_Start, P_Rows, P_Chunks} \<Longrightarrow> engine_failed w step su e s = (oc, res, s', cs) \<Longrightarrow> keeps_protocol p res cs"
  by (auto simp: engine_failed_def keeps_protocol_def slot_backend_outcome_def dest!: step_shows_end(1) split: prod.splits)

lemma stream_done_protocol:
  "p \<in> {P_Start, P_Rows, P_Chunks} \<Longrightarrow> stream_done w step su rows stats aff s = (oc, res, s', cs) \<Longrightarrow> keeps_protocol p res cs"
  by (auto simp: stream_done_def keeps_protocol_def slot_backend_outcome_def dest!: step_shows_end(2) split: prod.splits)

lemma stream_loop_protocol:
  "stream_loop w step su x sent rows bs s = (oc, res, s', cs) \<Longrightarrow> keeps_protocol (if sent then P_Rows else P_Start) res cs"
proof (induction bs arbitrary: sent rows s oc res s' cs)
  case Nil
  then show ?case using stream_done_protocol [of "if sent then P_Rows else P_Start"] by simp
next
  case (Cons b bs)
  show ?case
  proof (cases b)
    case (Inl e)
    then show ?thesis using Cons.prems engine_failed_protocol [of "if sent then P_Rows else P_Start"] by simp
  next
    case (Inr batch)
    obtain r1 s1 cs1 where 1: "(if sent then (Inr (), s, []) else step s (On_Schema (rb_schema batch))) = (r1, s1, cs1)" by (metis prod_cases3)
    obtain r2 s2 cs2 where 2: "step s1 (On_Batch batch) = (r2, s2, cs2)" by (metis prod_cases3)
    obtain r3 s3 cs3 where 3: "step s2 (On_Error (sw_show_error w (projl r2))) = (r3, s3, cs3)" by (metis prod_cases3)
    obtain oc4 r4 s4 cs4 where 4: "stream_loop w step su x True (rows + rb_rows batch) bs s2 = (oc4, r4, s4, cs4)" by (metis prod_cases4)
    have p1: "phase_after (if sent then P_Rows else P_Start) (sink_events cs1) = P_Rows"
      using 1 step_shows_data(1) by (auto split: if_splits)
    have p2: "sink_events cs2 = [On_Batch batch]" using step_shows_data(2) [OF 2] .
    have p3: "sink_events cs3 = [On_Error (sw_show_error w (projl r2))]" using step_shows_end(1) [OF 3] .
    show ?thesis
      using Cons.prems Inr 1 2 3 4 p1 p2 p3 Cons.IH [OF 4] by (auto simp: keeps_protocol_def split: sum.splits)
  qed
qed

lemma native_loop_protocol:
  "p \<in> {P_Start, P_Chunks} \<Longrightarrow> native_loop w step su x rows bs s = (oc, res, s', cs) \<Longrightarrow> keeps_protocol p res cs"
proof (induction bs arbitrary: p rows s oc res s' cs)
  case Nil
  then show ?case using stream_done_protocol [of p] by auto
next
  case (Cons b bs)
  show ?case
  proof (cases b)
    case (Inl e)
    then show ?thesis using Cons.prems engine_failed_protocol [of p] by auto
  next
    case (Inr batch)
    obtain r1 s1 cs1 where 1: "step s (On_Native_Chunk batch) = (r1, s1, cs1)" by (metis prod_cases3)
    obtain oc4 r4 s4 cs4 where 4: "native_loop w step su x (rows + rb_rows batch) bs s1 = (oc4, r4, s4, cs4)" by (metis prod_cases4)
    have p1: "phase_after p (sink_events cs1) = P_Chunks" using Cons.prems(1) step_shows_end(3) [OF 1] by auto
    show ?thesis
      using Cons.prems Inr 1 4 p1 Cons.IH [OF _ 4, of P_Chunks] by (auto simp: keeps_protocol_def split: sum.splits)
  qed
qed

lemma run_and_record_protocol:
  assumes "run_and_record w r step su actions s = (res, s', cs)"
  shows "keeps_protocol P_Start res cs"
proof -
  let ?native = "matches_frontend (sw_format w (qc_cluster (su_ctx su))) (sq_protocol r)"
  obtain oc r2 s2 ds where X: "(if ?native then execute_native_to_sink w step su s else execute_stream w step su s) = (oc, r2, s2, ds)"
    by (metis prod_cases4)
  have "keeps_protocol P_Start r2 ds"
  proof (cases ?native)
    case True
    then show ?thesis using X engine_failed_protocol [of P_Start] native_loop_protocol [of P_Start] step_shows_end(1)
      by (auto simp: execute_native_to_sink_def execute_call_def keeps_protocol_def split: if_splits sum.splits prod.splits)
  next
    case False
    then show ?thesis using X engine_failed_protocol [of P_Start] stream_loop_protocol [where sent = False]
      by (auto simp: execute_stream_def execute_call_def keeps_protocol_def split: sum.splits prod.splits)
  qed
  moreover have "sink_events (snd (slot_release (sw_release_reply w) (su_slot su))) = []" "sink_events (spawn_sync_cancel w su) = []"
    by (auto simp: slot_release_def release_calls_def finished_calls_def spawn_sync_cancel_def split: sum.splits option.splits)
  ultimately show ?thesis using assms X by (auto simp: run_and_record_def Let_def keeps_protocol_def split: sum.splits)
qed

end


text \<open>The calls of the set-up: none of them reaches the client or an engine, and a failure is recorded at most once.\<close>

fun is_setup_call :: "Call \<Rightarrow> bool" where
  "is_setup_call (AcquiredSlot _ _) = True"
| "is_setup_call (ReleaseCluster _ _) = True"
| "is_setup_call (CapTryAcquire _ _ _ _) = True"
| "is_setup_call (CapRelease _ _) = True"
| "is_setup_call (CapWaitForGrant _ _ _) = True"
| "is_setup_call (QueryStarted _ _) = True"
| "is_setup_call (QueryFinished _ _) = True"
| "is_setup_call (LeaseDenied _ _) = True"
| "is_setup_call (CoordinationFailure _) = True"
| "is_setup_call (TranslationCounted _) = True"
| "is_setup_call (RecordQuery _ _) = True"
| "is_setup_call (Backoff _) = True"
| "is_setup_call _ = False"

fun recorded :: "Call list \<Rightarrow> nat" where
  "recorded [] = 0"
| "recorded (RecordQuery _ _ # cs) = Suc (recorded cs)"
| "recorded (_ # cs) = recorded cs"

lemma recorded_append [simp]: "recorded (cs @ ds) = recorded cs + recorded ds"
  by (induction cs rule: recorded.induct) auto

fun setup_step :: "'a sstage \<times> Call list \<Rightarrow> bool" where
  "setup_step (SGo x, cs) \<longleftrightarrow> list_all is_setup_call cs \<and> recorded cs = 0"
| "setup_step (_, cs) \<longleftrightarrow> list_all is_setup_call cs \<and> recorded cs \<le> 1"

lemma setup_step_sbind:
  assumes "setup_step m" "\<And>x cs. m = (SGo x, cs) \<Longrightarrow> setup_step (f x)"
  shows "setup_step (sbind m f)"
  using assms(1)
proof (cases m rule: setup_step.cases)
  case (1 x cs)
  then have "setup_step (fst (f x), snd (f x))" using assms by simp
  then show ?thesis using 1 assms(1) by (cases "fst (f x)") auto
qed (use assms(1) in auto)

lemma release_setup_calls:
  "list_all is_setup_call (snd (slot_release reply s))" "recorded (snd (slot_release reply s)) = 0"
  "list_all is_setup_call (snd (release_local s))" "recorded (snd (release_local s)) = 0"
  "list_all is_setup_call (slot_drop reply s)" "recorded (slot_drop reply s) = 0"
  by (auto simp: slot_release_def release_local_def slot_drop_def release_calls_def finished_calls_def split: sum.splits)

lemma capacity_setup_calls:
  "acquire_global_capacity app m reply grp cl q = (g, cs) \<Longrightarrow> list_all is_setup_call cs \<and> recorded cs = 0"
  by (auto simp: acquire_global_capacity_def Let_def split: if_splits sum.splits bool.splits)

lemma wait_setup_calls: "wait_in_line t c q seq ws = (d, cs) \<Longrightarrow> list_all is_setup_call cs \<and> recorded cs = 0"
  by (induction t c q seq ws arbitrary: d cs rule: wait_in_line.induct)
    (auto simp: Let_def split: if_splits sum.splits bool.splits prod.splits)

lemma sync_round_setup:
  assumes "sync_round app live w r seq waited rd = (re, cs)"
  shows "list_all is_setup_call cs \<and> recorded cs = 0"
proof (cases "wait_deadline live w r \<le> sr_now rd \<or> should_yield_to_older_queued (sr_mgr_gate rd) (sq_group r) (sr_older_waiters rd)")
  case True
  then show ?thesis using assms by (auto simp: sync_round_def Let_def split: option.splits if_splits)
next
  case go: False
  show ?thesis
  proof (cases "fst (acquire_cluster (sr_interference rd) (sr_python rd) (sr_mgr_acquire rd) (sq_group r))")
    case (Inl e)
    then show ?thesis using go assms by (simp add: sync_round_def)
  next
    case acq: (Inr co)
    show ?thesis
    proof (cases co)
      case None
      then show ?thesis using go acq assms by (auto simp add: sync_round_def Let_def)
    next
      case (Some c)
      obtain grant asked where G: "acquire_global_capacity app (sr_mgr_limit rd) (sr_try_acquire rd) (sq_group r) c (sw_query_id w) = (grant, asked)"
        by (metis surj_pair)
      obtain slot' rel where rel: "slot_release (sr_release_reply rd) (slot_new app (sq_group r) c (sw_query_id w)) = (slot', rel)" by (metis surj_pair)
      obtain d waits where W: "wait_in_line (min (sr_wait_from rd + RENEW_WAITS_FOR) (wait_deadline live w r)) c (sw_query_id w) seq (sr_waits rd) = (d, waits)"
        by (metis surj_pair)
      note facts = capacity_setup_calls [OF G] release_setup_calls(1,2) [of "sr_release_reply rd" "slot_new app (sq_group r) c (sw_query_id w)", unfolded rel]
        release_setup_calls(3,4) [of "slot_new app (sq_group r) c (sw_query_id w)"] wait_setup_calls [OF W]
      show ?thesis
        using go acq Some G rel W facts assms
        by (cases grant; cases d; cases "map_of (lv_adapters (sl_live live)) c") (auto simp: sync_round_def Let_def split: if_splits)
    qed
  qed
qed

lemma sync_admit_setup: "setup_step (sync_admit app live w r seq waited rds)"
proof -
  have "sync_admit app live w r seq waited rds = (st, cs) \<Longrightarrow> list_all is_setup_call cs \<and> recorded cs = 0" for st cs
  proof (induction rds arbitrary: seq waited cs)
    case (Cons rd rds)
    obtain re ds where R: "sync_round app live w r seq waited rd = (re, ds)" by (cases "sync_round app live w r seq waited rd")
    show ?case using Cons R sync_round_setup [OF R] by (cases re) (auto split: prod.splits)
  qed simp
  then show ?thesis by (cases "sync_admit app live w r seq waited rds" rule: setup_step.cases) auto
qed

lemma deny_setup: "setup_step (sync_deny w j ctx reason actions)"
  using release_setup_calls(1,2) [of "sw_release_reply w" "sj_slot j"]
  by (auto simp: sync_deny_def deny_and_record_def split: prod.splits)

lemma setup_stages:
  "setup_step (sync_prepare live w r got)" "setup_step (sync_access live w r j)" "setup_step (sync_translate w r c)"
  "setup_step (sync_invariant w r c sql tout)" "setup_step (sync_identity live w r j)" "setup_step (sync_interpolate w r s sql)"
proof -
  show "setup_step (sync_prepare live w r got)"
    by (auto simp: sync_prepare_def Let_def mark_started_def split: prod.splits)
  show "setup_step (sync_access live w r j)"
    using deny_setup by (auto simp: sync_access_def Let_def split: option.splits AccessStageOutcome.splits)
  show "setup_step (sync_translate w r c)"
    using release_setup_calls(1,2) [of "sw_release_reply w" "sj_slot (sk_job c)"]
    by (auto simp: sync_translate_def Let_def split: prod.splits sum.splits)
  show "setup_step (sync_invariant w r c sql tout)"
    using deny_setup by (auto simp: sync_invariant_def Let_def)
  show "setup_step (sync_identity live w r j)"
    using release_setup_calls(1,2) [of "sw_release_reply w" "sj_slot j"]
    by (auto simp: sync_identity_def Let_def split: prod.splits sum.splits)
  show "setup_step (sync_interpolate w r s sql)"
    by (auto simp: sync_interpolate_def split: sum.splits)
qed

lemma setup_calls: "setup_step (setup_sync_query app live w r)"
  unfolding setup_sync_query_def
  by (rule setup_step_sbind [OF sync_admit_setup], rule setup_step_sbind [OF setup_stages(1)], rule setup_step_sbind [OF setup_stages(2)],
      rule setup_step_sbind [OF setup_stages(3)], unfold case_prod_beta, rule setup_step_sbind [OF setup_stages(4)],
      rule setup_step_sbind [OF setup_stages(5)], rule setup_step_sbind [OF setup_stages(6)]) (simp add: Let_def)

lemma setup_calls_silent: "list_all is_setup_call cs \<Longrightarrow> sink_events cs = []"
proof (induction cs)
  case (Cons c cs)
  then show ?case by (cases c) auto
qed simp


context result_sink
begin

lemma step_shows_translated:
  "step s (On_Translated_Sql q) = (r, s', cs) \<Longrightarrow> phase_after P_Start (sink_events cs) = P_Start"
  using step_shows by fastforce

lemma inner_protocol:
  assumes "execute_to_sink_inner app live w r step s = (res, s', cs)"
  shows "(case res of Some rs \<Rightarrow> keeps_protocol P_Start rs cs | None \<Rightarrow> sink_events cs = [])"
proof -
  obtain st ds where S: "setup_sync_query app live w r = (st, ds)" by (metis surj_pair)
  have silent: "sink_events ds = []"
    using setup_calls [of app live w r, unfolded S] setup_calls_silent by (cases st) auto
  show ?thesis
  proof (cases st)
    case (SFail e slot)
    then show ?thesis
      using assms S silent step_shows_end(1) setup_calls_silent release_setup_calls(5)
      by (cases slot) (auto simp: execute_to_sink_inner_def keeps_protocol_def split: prod.splits)
  next
    case SWaiting
    then show ?thesis using assms S silent by (simp add: execute_to_sink_inner_def)
  next
    case (SGo su)
    obtain actions blocked where R: "run_chains (su_parse su) (sync_guard_context r su) (live_chains (sl_live live) (sq_group r))
        (su_guard_actions su) = (actions, blocked)" by (metis surj_pair)
    obtain r1 s1 cs1 where T: "step s (On_Translated_Sql (su_translated su)) = (r1, s1, cs1)" by (metis prod_cases3)
    note rel = setup_calls_silent [OF release_setup_calls(1) [of "sw_release_reply w" "su_slot su"]]
      setup_calls_silent [OF release_setup_calls(5) [of "sw_release_reply w" "su_slot su"]]
    show ?thesis
    proof (cases blocked)
      case True
      then show ?thesis
        using assms S SGo R silent rel step_shows_end(1)
        by (auto simp: execute_to_sink_inner_def keeps_protocol_def split: prod.splits)
    next
      case False
      then show ?thesis
        using assms S SGo R T silent rel step_shows_end(1) step_shows_translated [OF T] run_and_record_protocol [of w r su actions s1]
        by (auto simp: execute_to_sink_inner_def keeps_protocol_def split: prod.splits sum.splits)
    qed
  qed
qed

lemma execute_and_cache_protocol:
  assumes "execute_and_cache app live w r step s key = (res, s', st', cs)"
  shows "phase_after P_Start (sink_events cs) \<noteq> P_Broken \<and> (res = Some (Inr ()) \<longrightarrow> phase_after P_Start (sink_events cs) = P_Closed)"
  using assms
proof (cases rule: execute_and_cache_inner)
  case (plain pre)
  have "sink_events pre = []" using plain(3) by (induction pre) auto
  then have "sink_events cs = sink_events (drop (length pre) cs)" using plain(2) by (metis append_Nil sink_events_append)
  then show ?thesis using inner_protocol [OF plain(1)] by (auto simp: keeps_protocol_def split: option.splits)
next
  case (teed k ttl ds post t t' res')
  then show ?thesis
    using result_sink.inner_protocol [OF tee_is_sink teed(2)] by (auto simp: keeps_protocol_def split: option.splits)
qed

lemma replay_protocol:
  "replay msg_of step schema bs started rows s = (Inr res, s', cs) \<Longrightarrow>
   (case res of None \<Rightarrow> \<not> started \<and> sink_events cs = [] | Some n \<Rightarrow> phase_after (if started then P_Rows else P_Start) (sink_events cs) = P_Rows)"
proof (induction bs arbitrary: started rows s cs)
  case Nil
  then show ?case using step_shows_data by (auto split: if_splits sum.splits prod.splits)
next
  case (Cons b bs)
  show ?case
  proof (cases b)
    case (Inl e)
    then show ?thesis using Cons.prems by (auto split: if_splits)
  next
    case (Inr batch)
    obtain r1 s1 cs1 where 1: "(if started then (Inr (), s, []) else step s (On_Schema schema)) = (r1, s1, cs1)" by (metis prod_cases3)
    obtain r2 s2 cs2 where 2: "step s1 (On_Batch batch) = (r2, s2, cs2)" by (metis prod_cases3)
    obtain cs3 where 3: "replay msg_of step schema bs True (rows + rb_rows batch) s2 = (Inr res, s', cs3)" "cs = cs1 @ cs2 @ cs3"
      using Cons.prems Inr 1 2 by (auto split: sum.splits prod.splits)
    have "phase_after (if started then P_Rows else P_Start) (sink_events cs1) = P_Rows"
      using 1 step_shows_data(1) by (auto split: if_splits)
    then show ?thesis using Cons.IH [OF 3(1)] 3(2) step_shows_data(2) [OF 2] by (auto split: option.splits)
  qed
qed

lemma lookup_protocol:
  assumes "try_stream_cached f msg_of rw st k step s = (Inr res, s', cs)"
  shows "(case res of None \<Rightarrow> sink_events cs = [] | Some n \<Rightarrow> phase_after P_Start (sink_events cs) = P_Rows)"
  using assms replay_protocol [where started = False]
  by (fastforce simp: try_stream_cached_def split: option.splits if_splits prod.splits sum.splits)

lemma execute_to_sink_protocol:
  assumes "execute_to_sink app live w r step s = (res, s', st', cs)"
    and "\<And>k. sync_cache_key live w r = Some k \<Longrightarrow> cache_access_allows live w r \<Longrightarrow>
      (\<exists>hit. fst (try_stream_cached (sw_ipc w) (sw_show_error w) (sw_cache_read w) (sw_cache w) k step s) = Inr hit)"
  shows "phase_after P_Start (sink_events cs) \<noteq> P_Broken \<and> (res = Some (Inr ()) \<longrightarrow> phase_after P_Start (sink_events cs) = P_Closed)"
proof -
  have hc: "phase_after P_Rows (sink_events ds) = P_Closed" if "cache_hit live w r step actions stats s1 = (res1, s2, ds)" for actions stats s1 res1 s2 ds
    using that step_shows_end(2) by (fastforce simp: cache_hit_def split: prod.splits)
  show ?thesis
  proof (cases "sync_cache_key live w r")
    case None
    then show ?thesis using assms(1) execute_and_cache_protocol step_shows_end(1)
      by (auto simp: execute_to_sink_def split: if_splits prod.splits)
  next
    case (Some k)
    obtain lr s1 ds where L: "try_stream_cached (sw_ipc w) (sw_show_error w) (sw_cache_read w) (sw_cache w) k step s = (lr, s1, ds)" by (metis prod_cases3)
    obtain res2 s2 st2 ds2 where E: "execute_and_cache app live w r step s1 (Some k) = (res2, s2, st2, ds2)" by (metis prod_cases4)
    obtain res3 s3 st3 ds3 where F: "execute_and_cache app live w r step s None = (res3, s3, st3, ds3)" by (metis prod_cases4)
    show ?thesis
      using assms(1) Some L E F assms(2) [OF Some] execute_and_cache_protocol [OF E] execute_and_cache_protocol [OF F]
        lookup_protocol [of "sw_ipc w" "sw_show_error w" "sw_cache_read w" "sw_cache w" k s] step_shows_end(1)
      by (auto simp: execute_to_sink_def dest!: hc split: if_splits prod.splits sum.splits option.splits)
  qed
qed

text \<open>Without the assumption: what came before, if anything, is a replay of the cache that broke off.\<close>

lemma execute_to_sink_parts:
  assumes "execute_to_sink app live w r step s = (res, s', st', cs)"
  shows "\<exists>broken result. sink_events cs = broken @ result
    \<and> phase_after P_Start result \<noteq> P_Broken \<and> (res = Some (Inr ()) \<longrightarrow> phase_after P_Start result = P_Closed)
    \<and> (broken \<noteq> [] \<longrightarrow> (\<exists>k e s1 ds. sync_cache_key live w r = Some k
         \<and> try_stream_cached (sw_ipc w) (sw_show_error w) (sw_cache_read w) (sw_cache w) k step s = (Inl e, s1, ds) \<and> broken = sink_events ds))"
proof (cases "\<exists>k e s1 ds. sync_cache_key live w r = Some k \<and> cache_access_allows live w r
    \<and> try_stream_cached (sw_ipc w) (sw_show_error w) (sw_cache_read w) (sw_cache w) k step s = (Inl e, s1, ds)")
  case False
  then have "\<And>k. sync_cache_key live w r = Some k \<Longrightarrow> cache_access_allows live w r \<Longrightarrow>
      (\<exists>hit. fst (try_stream_cached (sw_ipc w) (sw_show_error w) (sw_cache_read w) (sw_cache w) k step s) = Inr hit)"
    by (metis prod.exhaust_sel sum.exhaust)
  then show ?thesis using execute_to_sink_protocol [OF assms] by (metis append_Nil)
next
  case True
  then obtain k e s1 ds where k: "sync_cache_key live w r = Some k" "cache_access_allows live w r"
    "try_stream_cached (sw_ipc w) (sw_show_error w) (sw_cache_read w) (sw_cache w) k step s = (Inl e, s1, ds)" by blast
  obtain res2 s2 st2 ds2 where E: "execute_and_cache app live w r step s1 (Some k) = (res2, s2, st2, ds2)" by (metis prod_cases4)
  have "\<exists>broken result. sink_events cs = broken @ result \<and> (broken = [] \<or> broken = sink_events ds)
    \<and> phase_after P_Start result \<noteq> P_Broken \<and> (res = Some (Inr ()) \<longrightarrow> phase_after P_Start result = P_Closed)"
  proof (cases "check (sw_fga w) (lv_authorization (sl_live live)) (sq_auth r) (sq_group r)")
    case ok: True
    show ?thesis
    proof (cases "run_plan_guards live w r")
      case (Inl reason)
      then have "phase_after P_Start (sink_events cs) = P_Closed"
        using assms k ok step_shows_end(1) by (auto simp: execute_to_sink_def split: prod.splits)
      then show ?thesis by (intro exI [of _ "[]"] exI [of _ "sink_events cs"]) simp
    next
      case (Inr actions)
      then have "sink_events cs = sink_events ds @ sink_events ds2" "res = res2"
        using assms k ok E by (auto simp: execute_to_sink_def)
      then show ?thesis using execute_and_cache_protocol [OF E] by blast
    qed
  next
    case no: False
    then have "phase_after P_Start (sink_events cs) = P_Closed"
      using assms step_shows_end(1) by (auto simp: execute_to_sink_def split: prod.splits)
    then show ?thesis by (intro exI [of _ "[]"] exI [of _ "sink_events cs"]) simp
  qed
  then show ?thesis using k by blast
qed

end


text \<open>
  Claim C10. What a client is sent ends in one well-formed result: a schema before the first batch and never twice, or
  native chunks only, and after an error or a completion nothing more; and when the call succeeds, an error
  or a completion was sent. Nothing else precedes it, except when a cached result breaks off while it is
  replayed: then the part of it that was replayed.
\<close>
theorem sync_protocol:
  assumes "execute_to_sink app live w r (client_sink reply) [] = (res, seen, st, cs)"
  shows "\<exists>broken result. sink_events cs = broken @ result
    \<and> phase_after P_Start result \<noteq> P_Broken \<and> (res = Some (Inr ()) \<longrightarrow> phase_after P_Start result = P_Closed)
    \<and> (broken \<noteq> [] \<longrightarrow> (\<exists>k e seen1 ds. sync_cache_key live w r = Some k
         \<and> try_stream_cached (sw_ipc w) (sw_show_error w) (sw_cache_read w) (sw_cache w) k (client_sink reply) [] = (Inl e, seen1, ds)
         \<and> broken = sink_events ds))"
  using assms by (rule client.execute_to_sink_parts)
text \<open>
  In that exception the query is run on an engine after the client already has part of the cached result,
  so an engine that answers makes the client see a second schema.
\<close>

lemma broken_replay_repeats:
  assumes "try_stream_cached (sw_ipc w) (sw_show_error w) (sw_cache_read w) (sw_cache w) k (client_sink reply) [] = (Inl e, seen1, cs1)"
    and "check (sw_fga w) (lv_authorization (sl_live live)) (sq_auth r) (sq_group r)" "sync_cache_key live w r = Some k"
    and "cache_access_allows live w r" "run_plan_guards live w r = Inr actions"
    and "execute_and_cache app live w r (client_sink reply) seen1 (Some k) = (res, seen2, st, cs2)"
  shows "\<exists>cs. execute_to_sink app live w r (client_sink reply) [] = (res, seen2, st, cs) \<and> sink_events cs = sink_events cs1 @ sink_events cs2"
  using assms by (simp add: execute_to_sink_def)

section \<open>What is recorded\<close>

lemma sink_calls_unrecorded: "\<forall>c \<in> set cs. is_sink_call c \<Longrightarrow> recorded cs = 0"
proof (induction cs)
  case (Cons c cs)
  then show ?case by (cases c) auto
qed simp

lemma run_calls_unrecorded: "\<forall>c \<in> set cs. is_run_call c \<or> is_execute c \<Longrightarrow> recorded cs = 0"
proof (induction cs)
  case (Cons c cs)
  then show ?case by (cases c) auto
qed simp

lemma not_execute: "is_sink_call c \<Longrightarrow> \<not> is_execute c" "is_setup_call c \<Longrightarrow> \<not> is_execute c"
  by (cases c; simp)+

definition recorded_once :: "Call list \<Rightarrow> bool" where
  "recorded_once cs \<longleftrightarrow> recorded cs \<le> 1 \<and> ((\<exists>c \<in> set cs. is_execute c) \<longrightarrow> recorded cs = 1)"

context result_sink
begin

lemma step_unrecorded: "step s ev = (r, s', cs) \<Longrightarrow> recorded cs = 0 \<and> (\<forall>c \<in> set cs. \<not> is_execute c)"
  using step_calls sink_calls_unrecorded not_execute(1) by blast

lemma run_and_record_once:
  assumes "run_and_record w r step su actions s = (res, s', cs)"
  shows "recorded cs = 1"
proof -
  let ?native = "matches_frontend (sw_format w (qc_cluster (su_ctx su))) (sq_protocol r)"
  obtain oc r2 s2 ds where X: "(if ?native then execute_native_to_sink w step su s else execute_stream w step su s) = (oc, r2, s2, ds)"
    by (metis prod_cases4)
  have "\<forall>c \<in> set ds. is_run_call c \<or> is_execute c" using X execute_stream_calls execute_native_calls by (fastforce split: if_splits)
  then have "recorded ds = 0" by (rule run_calls_unrecorded)
  moreover have "recorded (spawn_sync_cancel w su) = 0" by (auto simp: spawn_sync_cancel_def split: option.splits)
  ultimately show ?thesis
    using assms X release_setup_calls(2) by (auto simp: run_and_record_def Let_def split: sum.splits)
qed

lemma inner_once:
  assumes "execute_to_sink_inner app live w r step s = (res, s', cs)"
  shows "recorded_once cs"
proof -
  obtain st ds where S: "setup_sync_query app live w r = (st, ds)" by (metis surj_pair)
  note sc = setup_calls [of app live w r, unfolded S]
  have nx: "\<not> (\<exists>c \<in> set ds. is_execute c)" using sc not_execute(2) by (cases st) (auto simp: list_all_iff)
  have rel: "recorded (slot_drop (sw_release_reply w) sl) = 0" "\<not> (\<exists>c \<in> set (slot_drop (sw_release_reply w) sl). is_execute c)"
      "recorded (snd (slot_release (sw_release_reply w) sl)) = 0" "\<not> (\<exists>c \<in> set (snd (slot_release (sw_release_reply w) sl)). is_execute c)" for sl
    using release_setup_calls(1,2,5,6) [of "sw_release_reply w" sl] not_execute(2) by (auto simp: list_all_iff)
  show ?thesis
  proof (cases st)
    case (SFail e slot)
    then show ?thesis
      using assms S nx sc rel
      by (cases slot) (auto simp: execute_to_sink_inner_def recorded_once_def dest!: step_unrecorded split: prod.splits)
  next
    case SWaiting
    then show ?thesis using assms S nx sc by (auto simp: execute_to_sink_inner_def recorded_once_def)
  next
    case (SGo su)
    obtain actions blocked where R: "run_chains (su_parse su) (sync_guard_context r su) (live_chains (sl_live live) (sq_group r))
        (su_guard_actions su) = (actions, blocked)" by (metis surj_pair)
    obtain r1 s1 cs1 where T: "step s (On_Translated_Sql (su_translated su)) = (r1, s1, cs1)" by (metis prod_cases3)
    show ?thesis
    proof (cases blocked)
      case True
      then show ?thesis
        using assms S SGo R nx sc rel
        by (auto simp: execute_to_sink_inner_def recorded_once_def dest: step_unrecorded split: prod.splits)
    next
      case False
      obtain r2 s2 cs2 where Er: "step s1 (On_Error (sw_show_error w (projl r1))) = (r2, s2, cs2)" by (metis prod_cases3)
      obtain r3 s3 cs3 where Ru: "run_and_record w r step su actions s1 = (r3, s3, cs3)" by (metis prod_cases3)
      show ?thesis
        using False assms S SGo R T Er Ru nx sc rel step_unrecorded [OF T] step_unrecorded [OF Er] run_and_record_once [OF Ru]
        by (cases r1) (auto simp: execute_to_sink_inner_def recorded_once_def)
    qed
  qed
qed

end


context result_sink
begin

lemma recorded_once_around:
  assumes "recorded_once cs" "recorded pre = 0" "recorded post = 0" "\<forall>c \<in> set pre. \<not> is_execute c" "\<forall>c \<in> set post. \<not> is_execute c"
  shows "recorded_once (pre @ cs @ post)"
  using assms by (auto simp: recorded_once_def)

lemma execute_and_cache_once:
  assumes "execute_and_cache app live w r step s key = (res, s', st', cs)"
  shows "recorded_once cs"
  using assms
proof (cases rule: execute_and_cache_inner)
  case (plain pre)
  have "recorded pre = 0" "\<forall>c \<in> set pre. \<not> is_execute c" using plain(3) by (induction pre) auto
  then show ?thesis using recorded_once_around [OF inner_once [OF plain(1)], of pre "[]"] plain(2) by simp
next
  case (teed k ttl ds post t t' res')
  have "recorded post = 0" using teed(6)
  proof (induction post)
    case (Cons c cs)
    then show ?case by (cases c) auto
  qed simp
  moreover have "\<forall>c \<in> set post. \<not> is_execute c" using teed(6) not_execute(1) by fastforce
  ultimately show ?thesis
    using recorded_once_around [OF result_sink.inner_once [OF tee_is_sink teed(2)], of "[CacheWriter (show_cache_key k) ttl]" post] teed(3)
    by simp
qed

lemma execute_to_sink_once:
  assumes "execute_to_sink app live w r step s = (res, s', st', cs)"
  shows "recorded_once cs"
proof -
  have err: "recorded_once ds" if "step s1 ev = (r1, s2, ds)" for s1 ev r1 s2 ds
    using step_unrecorded [OF that] by (auto simp: recorded_once_def)
  show ?thesis
  proof (cases "sync_cache_key live w r")
    case None
    then show ?thesis using assms execute_and_cache_once err by (auto simp: execute_to_sink_def split: if_splits prod.splits)
  next
    case (Some k)
    obtain lr s1 ds where L: "try_stream_cached (sw_ipc w) (sw_show_error w) (sw_cache_read w) (sw_cache w) k step s = (lr, s1, ds)" by (metis prod_cases3)
    obtain res2 s2 st2 ds2 where E: "execute_and_cache app live w r step s1 (Some k) = (res2, s2, st2, ds2)" by (metis prod_cases4)
    obtain res3 s3 st3 ds3 where F: "execute_and_cache app live w r step s None = (res3, s3, st3, ds3)" by (metis prod_cases4)
    have l: "recorded ds = 0" "\<forall>c \<in> set ds. \<not> is_execute c"
      using replayed_calls [OF L] sink_calls_unrecorded not_execute(1) by blast+
    have h: "recorded hs = 1" if "cache_hit live w r step actions stats s1 = (res1, s4, hs)" for actions stats res1 s4 hs
      using that step_unrecorded by (fastforce simp: cache_hit_def split: prod.splits)
    show ?thesis
      using assms Some L E F execute_and_cache_once [OF E] execute_and_cache_once [OF F] l h err
      by (auto simp: execute_to_sink_def recorded_once_def split: if_splits prod.splits sum.splits option.splits)
  qed
qed

end

text \<open>
  Claim C26. A query leaves at most one row in the history, and exactly one if an engine was asked to run it.
\<close>
theorem sync_recorded_once:
  "\<exists>res seen st cs. execute_to_sink app live w r (client_sink reply) [] = (res, seen, st, cs)
     \<and> recorded cs \<le> 1 \<and> ((\<exists>c \<in> set cs. is_execute c) \<longrightarrow> recorded cs = 1)"
proof -
  obtain res seen st cs where E: "execute_to_sink app live w r (client_sink reply) [] = (res, seen, st, cs)" by (metis prod_cases4)
  then show ?thesis using client.execute_to_sink_once [OF E] by (auto simp: recorded_once_def)
qed


section \<open>What is executed, and what the cache may serve\<close>

definition sync_access_cleared :: "SyncLive \<Rightarrow> SyncWorld \<Rightarrow> SyncRequest \<Rightarrow> EngineType \<Rightarrow> string \<Rightarrow> bool \<Rightarrow> bool" where
  "sync_access_cleared live w r engine sql rewrote \<longleftrightarrow>
     (case lv_access_guard (sl_live live) of
        None \<Rightarrow> sql = sq_sql r \<and> \<not> rewrote
      | Some g \<Rightarrow>
          if enabled_for_group g (sq_group r) then
            (case run_access_control_stage (sw_access w) g
                 (stage_context (sq_sql r) (resolve_src_dialect (sq_session r) (sq_protocol r)) engine (sq_group r) (sq_auth r)
                   (if applies_to_group g (sq_group r) then drop_unchecked_session_sql (sq_session r) else sq_session r) (sync_tags live r)) of
               StageAllowed _ \<Rightarrow> sql = sq_sql r \<and> \<not> rewrote
             | StageRewritten s _ \<Rightarrow> sql = s \<and> rewrote
             | StageDenied _ _ _ \<Rightarrow> False)
          else sql = sq_sql r \<and> \<not> rewrote)"

text \<open>
  The session a query runs with and what the guards of its group are shown: the client's SQL, the engine's
  text (before parameters are filled in, when translation changed it), the verified groups, roles and attributes
  of the caller, and the tags of the query.
\<close>

definition cleared_session :: "SyncLive \<Rightarrow> SyncRequest \<Rightarrow> QueryCredentials \<Rightarrow> SessionContext" where
  "cleared_session live r cred =
     enrich_session_for_passthrough
       (case lv_access_guard (sl_live live) of
          Some g \<Rightarrow> if applies_to_group g (sq_group r) then drop_unchecked_session_sql (sq_session r) else sq_session r
        | None \<Rightarrow> sq_session r)
       cred (sq_auth r)"

definition shown_to_guards :: "SyncLive \<Rightarrow> SyncRequest \<Rightarrow> Adapter \<Rightarrow> SessionContext \<Rightarrow> string \<Rightarrow> GuardContext" where
  "shown_to_guards live r adapter session text =
     \<lparr>gx_sql = text, gx_original_sql = Some (sq_sql r), gx_dialect = adp_dialect adapter, gx_engine_type = adp_engine_type adapter,
      gx_cluster_group = sq_group r, gx_user = sess_user session, gx_groups = auth_groups (sq_auth r),
      gx_roles = auth_roles (sq_auth r), gx_attributes = auth_attributes (sq_auth r),
      gx_query_tags = sync_tags live r, gx_session_extra = sess_extra session\<rparr>"

definition sync_cleared ::
  "SyncLive \<Rightarrow> SyncWorld \<Rightarrow> SyncRequest \<Rightarrow> ClusterName \<Rightarrow> string \<Rightarrow> SessionContext \<Rightarrow> QueryCredentials \<Rightarrow> bool" where
  "sync_cleared live w r cluster sql session cred \<longleftrightarrow>
     check (sw_fga w) (lv_authorization (sl_live live)) (sq_auth r) (sq_group r)
     \<and> (\<exists>rd \<in> set (sw_rounds w). sr_now rd < wait_deadline live w r
          \<and> fst (acquire_cluster (sr_interference rd) (sr_python rd) (sr_mgr_acquire rd) (sq_group r)) = Inr (Some cluster))
     \<and> sw_credentials w (Option.bind (map_of (lv_cluster_configs (sl_live live)) cluster) ccfg_query_auth) = Inr cred
     \<and> session = cleared_session live r cred
     \<and> (\<exists>kind checked_sql rewrote engine_sql stmts.
          map_of (lv_adapters (sl_live live)) cluster = Some kind
          \<and> sync_access_cleared live w r (adp_engine_type (adapter_of kind)) checked_sql rewrote
          \<and> (if should_attempt_translation (sq_session r) (sq_protocol r)
             then fst (sw_translate w checked_sql (resolve_src_dialect (sq_session r) (sq_protocol r)) (adp_dialect (adapter_of kind))) = Inr engine_sql
             else engine_sql = checked_sql)
          \<and> (rewrote \<and> is_read_like_sql (w_parse (sw_guards w)) (sq_sql r) (resolve_src_dialect (sq_session r) (sq_protocol r))
             \<longrightarrow> is_read_like_sql (w_parse (sw_guards w)) engine_sql (adp_dialect (adapter_of kind)))
          \<and> (if sq_params r \<noteq> [] \<and> \<not> sw_native_params w cluster then sw_interpolate w engine_sql (sq_params r) = Inr (sql, stmts)
             else sql = engine_sql \<and> stmts = None)
          \<and> (\<forall>chain \<in> set (live_chains (sl_live live) (sq_group r)).
               snd (chain_run (case stmts of Some ss \<Rightarrow> (sw_guards w)\<lparr>w_parse := \<lambda>_ _. Some ss\<rparr> | None \<Rightarrow> sw_guards w) chain
                      (shown_to_guards live r (adapter_of kind) session (if engine_sql = checked_sql then sql else engine_sql)) L_Plan)
               = Proceed))"
lemma sbind_go: "sbind m f = (SGo y, cs) \<Longrightarrow> (\<And>x ds es. m = (SGo x, ds) \<Longrightarrow> f x = (SGo y, es) \<Longrightarrow> thesis) \<Longrightarrow> thesis"
  by (cases m rule: setup_step.cases) (auto simp: prod_eq_iff)

lemma sync_admit_go:
  "sync_admit app live w r seq waited rds = (SGo (slot, kind, n), cs) \<Longrightarrow>
   (\<exists>rd \<in> set rds. sr_now rd < wait_deadline live w r
      \<and> fst (acquire_cluster (sr_interference rd) (sr_python rd) (sr_mgr_acquire rd) (sq_group r)) = Inr (Some (sg_cluster slot)))
   \<and> map_of (lv_adapters (sl_live live)) (sg_cluster slot) = Some kind"
proof (induction rds arbitrary: seq waited cs)
  case (Cons rd rds)
  obtain re ds where R: "sync_round app live w r seq waited rd = (re, ds)" by (cases "sync_round app live w r seq waited rd")
  show ?case
  proof (cases re)
    case (Ends st)
    then have st: "st = SGo (slot, kind, n)" using Cons.prems R by simp
    have "sr_now rd < wait_deadline live w r
      \<and> fst (acquire_cluster (sr_interference rd) (sr_python rd) (sr_mgr_acquire rd) (sq_group r)) = Inr (Some (sg_cluster slot))
      \<and> map_of (lv_adapters (sl_live live)) (sg_cluster slot) = Some kind"
      using R Ends st
      by (auto simp: sync_round_def Let_def slot_new_def split: if_splits sum.splits option.splits prod.splits CapacityGrant.splits bool.splits)
    then show ?thesis by auto
  next
    case (Again wt)
    then show ?thesis using Cons R by (auto split: prod.splits)
  qed
qed simp

lemma sync_access_go:
  "sync_access live w r j = (SGo c, cs) \<Longrightarrow> sj_src j = resolve_src_dialect (sq_session r) (sq_protocol r) \<Longrightarrow> sj_tags j = sync_tags live r \<Longrightarrow>
   sj_session j = sq_session r \<Longrightarrow>
   sync_access_cleared live w r (adp_engine_type (sj_adapter j)) (sk_sql c) (sk_rewrote c)
   \<and> sj_slot (sk_job c) = sj_slot j \<and> sj_adapter (sk_job c) = sj_adapter j \<and> sj_src (sk_job c) = sj_src j
   \<and> sj_tags (sk_job c) = sj_tags j
   \<and> sj_session (sk_job c) = (case lv_access_guard (sl_live live) of
        Some g \<Rightarrow> if applies_to_group g (sq_group r) then drop_unchecked_session_sql (sq_session r) else sq_session r
      | None \<Rightarrow> sq_session r)"
  by (auto simp: sync_access_def sync_access_cleared_def sync_deny_def Let_def
      split: option.splits if_splits AccessStageOutcome.splits prod.splits)

lemma sync_translate_go:
  "sync_translate w r c = (SGo (sql, tout), cs) \<Longrightarrow>
   if should_attempt_translation (sq_session r) (sq_protocol r)
   then fst (sw_translate w (sk_sql c) (sj_src (sk_job c)) (adp_dialect (sj_adapter (sk_job c)))) = Inr sql else sql = sk_sql c"
  by (auto simp: sync_translate_def Let_def split: if_splits prod.splits sum.splits)

lemma sync_invariant_go:
  "sync_invariant w r c sql tout = (SGo u, cs) \<Longrightarrow>
   sk_rewrote c \<and> is_read_like_sql (w_parse (sw_guards w)) (sq_sql r) (sj_src (sk_job c))
   \<longrightarrow> is_read_like_sql (w_parse (sw_guards w)) sql (adp_dialect (sj_adapter (sk_job c)))"
  by (auto simp: sync_invariant_def sync_deny_def Let_def split: if_splits prod.splits)

lemma sync_identity_go:
  "sync_identity live w r j = (SGo (cred, session, wire), cs) \<Longrightarrow>
   sw_credentials w (Option.bind (map_of (lv_cluster_configs (sl_live live)) (sg_cluster (sj_slot j))) ccfg_query_auth) = Inr cred
   \<and> session = enrich_session_for_passthrough (sj_session j) cred (sq_auth r)"
  by (auto simp: sync_identity_def Let_def split: sum.splits prod.splits)

lemma sync_interpolate_go:
  "sync_interpolate w r s sql = (SGo (final_sql, params, gw), cs) \<Longrightarrow>
   \<exists>stmts. (if sq_params r \<noteq> [] \<and> \<not> sw_native_params w (sg_cluster s) then sw_interpolate w sql (sq_params r) = Inr (final_sql, stmts)
            else final_sql = sql \<and> stmts = None)
     \<and> gw = (case stmts of Some ss \<Rightarrow> (sw_guards w)\<lparr>w_parse := \<lambda>_ _. Some ss\<rparr> | None \<Rightarrow> sw_guards w)"
  by (auto simp: sync_interpolate_def split: if_splits sum.splits)

lemma setup_cleared:
  assumes "setup_sync_query app live w r = (SGo su, cs)" "check (sw_fga w) (lv_authorization (sl_live live)) (sq_auth r) (sq_group r)"
    and "run_chains (su_parse su) (sync_guard_context r su) (live_chains (sl_live live) (sq_group r)) (su_guard_actions su) = (actions, False)"
  shows "sync_cleared live w r (qc_cluster (su_ctx su)) (su_translated su) (qc_session (su_ctx su)) (su_credentials su)"
proof -
  from assms(1) obtain got j c engine_sql tout cred session wire final_sql params gw d0 d1 d2 d3 d4 d5 d6 where
      0: "sync_admit app live w r 0 None (sw_rounds w) = (SGo got, d0)"
    and 1: "sync_prepare live w r got = (SGo j, d1)" and 2: "sync_access live w r j = (SGo c, d2)"
    and 3: "sync_translate w r c = (SGo (engine_sql, tout), d3)" and 4: "sync_invariant w r c engine_sql tout = (SGo (), d4)"
    and 5: "sync_identity live w r (sk_job c) = (SGo (cred, session, wire), d5)"
    and 6: "sync_interpolate w r (sj_slot (sk_job c)) engine_sql = (SGo (final_sql, params, gw), d6)"
    and su: "qc_cluster (su_ctx su) = sg_cluster (sj_slot (sk_job c))" "su_translated su = final_sql" "su_credentials su = cred"
      "su_parse su = gw" "su_ctx su = sync_context w r ((sk_job c)\<lparr>sj_session := session\<rparr>)
        (pipeline_compute (sk_sql c) engine_sql (sk_rewrote c)) (Some tout) params"
    unfolding setup_sync_query_def by (auto elim!: sbind_go simp: Let_def sync_context_def)
  obtain slot kind seq where got: "got = (slot, kind, seq)" by (cases got)
  have j: "sg_cluster (sj_slot j) = sg_cluster slot" "sj_adapter j = adapter_of kind" "sj_session j = sq_session r"
      "sj_src j = resolve_src_dialect (sq_session r) (sq_protocol r)" "sj_tags j = sync_tags live r"
    using 1 got by (auto simp: sync_prepare_def Let_def mark_started_def split: prod.splits if_splits)
  note ac = sync_access_go [OF 2 j(4,5,3)] and ad = sync_admit_go [OF 0 [unfolded got]]
  note id = sync_identity_go [OF 5]
  have session: "qc_session (su_ctx su) = cleared_session live r cred"
    using su(5) id ac by (simp add: sync_context_def cleared_session_def)
  have shown: "sync_guard_context r su = shown_to_guards live r (adapter_of kind) (qc_session (su_ctx su))
      (if engine_sql = sk_sql c then final_sql else engine_sql)"
    using su(2,5) ac j by (simp add: sync_guard_context_def shown_to_guards_def sync_context_def pipeline_compute_def Let_def)
  obtain stmts where st: "if sq_params r \<noteq> [] \<and> \<not> sw_native_params w (sg_cluster slot) then sw_interpolate w engine_sql (sq_params r) = Inr (final_sql, stmts)
      else final_sql = engine_sql \<and> stmts = None"
      "gw = (case stmts of Some ss \<Rightarrow> (sw_guards w)\<lparr>w_parse := \<lambda>_ _. Some ss\<rparr> | None \<Rightarrow> sw_guards w)"
    using sync_interpolate_go [OF 6] ac j(1) by auto
  have cluster: "sg_cluster (sj_slot (sk_job c)) = sg_cluster slot" using ac j(1) by simp
  have chains: "\<forall>chain \<in> set (live_chains (sl_live live) (sq_group r)). snd (chain_run (case stmts of Some ss \<Rightarrow> (sw_guards w)\<lparr>w_parse := \<lambda>_ _. Some ss\<rparr> | None \<Rightarrow> sw_guards w)
      chain (shown_to_guards live r (adapter_of kind) (qc_session (su_ctx su)) (if engine_sql = sk_sql c then final_sql else engine_sql)) L_Plan) = Proceed"
    using run_chains_proceed [OF assms(3)] shown st(2) su(4) by simp
  have access: "sync_access_cleared live w r (adp_engine_type (adapter_of kind)) (sk_sql c) (sk_rewrote c)" using ac j(2) by simp
  have translated: "if should_attempt_translation (sq_session r) (sq_protocol r)
      then fst (sw_translate w (sk_sql c) (resolve_src_dialect (sq_session r) (sq_protocol r)) (adp_dialect (adapter_of kind))) = Inr engine_sql
      else engine_sql = sk_sql c"
    using sync_translate_go [OF 3] ac j by (auto split: if_splits)
  have kept: "sk_rewrote c \<and> is_read_like_sql (w_parse (sw_guards w)) (sq_sql r) (resolve_src_dialect (sq_session r) (sq_protocol r))
      \<longrightarrow> is_read_like_sql (w_parse (sw_guards w)) engine_sql (adp_dialect (adapter_of kind))"
    using sync_invariant_go [OF 4] ac j by simp
  have cred: "sw_credentials w (Option.bind (map_of (lv_cluster_configs (sl_live live)) (sg_cluster slot)) ccfg_query_auth) = Inr cred"
    using id cluster by simp
  show ?thesis
    unfolding sync_cleared_def su(1-3) cluster
    by (intro conjI, fact assms(2), fact conjunct1 [OF ad], fact cred, fact session, rule exI [of _ kind], rule exI [of _ "sk_sql c"],
        rule exI [of _ "sk_rewrote c"], rule exI [of _ engine_sql], rule exI [of _ stmts], intro conjI,
        fact conjunct2 [OF ad], fact access, fact translated, fact kept, fact st(1), fact chains)
qed
lemma run_call_not_execute: "is_run_call c \<Longrightarrow> \<not> is_execute c"
  by (cases c) auto

context result_sink
begin

lemma run_and_record_executes:
  assumes "run_and_record w r step su actions s = (res, s', cs)" "c \<in> set cs" "is_execute c"
  shows "\<exists>b. c = execute_call su b"
proof -
  let ?native = "matches_frontend (sw_format w (qc_cluster (su_ctx su))) (sq_protocol r)"
  obtain oc r2 s2 ds where X: "(if ?native then execute_native_to_sink w step su s else execute_stream w step su s) = (oc, r2, s2, ds)"
    by (metis prod_cases4)
  have d: "c \<in> set ds \<Longrightarrow> \<exists>b. c = execute_call su b"
    using X assms(3) execute_stream_calls execute_native_calls run_call_not_execute by (fastforce split: if_splits)
  have "\<not> is_execute x" if "x \<in> set (spawn_sync_cancel w su)" for x using that by (auto simp: spawn_sync_cancel_def split: option.splits)
  moreover have "\<not> is_execute x" if "x \<in> set (snd (slot_release (sw_release_reply w) (su_slot su)))" for x
    using that release_setup_calls(1) [of "sw_release_reply w" "su_slot su"] not_execute(2) by (auto simp: list_all_iff)
  ultimately show ?thesis using assms X d by (auto simp: run_and_record_def Let_def split: sum.splits if_splits)
qed

lemma inner_executes:
  assumes "execute_to_sink_inner app live w r step s = (res, s', cs)" "c \<in> set cs" "is_execute c"
  shows "\<exists>su ds actions b. setup_sync_query app live w r = (SGo su, ds) \<and> c = execute_call su b
    \<and> run_chains (su_parse su) (sync_guard_context r su) (live_chains (sl_live live) (sq_group r)) (su_guard_actions su) = (actions, False)"
proof -
  obtain st ds where S: "setup_sync_query app live w r = (st, ds)" by (metis surj_pair)
  have nx: "c \<notin> set ds"
    using setup_calls [of app live w r, unfolded S] not_execute(2) assms(3) by (cases st) (auto simp: list_all_iff)
  have rel: "c \<notin> set (slot_drop (sw_release_reply w) sl)" "c \<notin> set (snd (slot_release (sw_release_reply w) sl))" for sl
    using release_setup_calls(1,5) [of "sw_release_reply w" sl] not_execute(2) assms(3) by (auto simp: list_all_iff)
  have sn: "step s1 ev = (r1, s2, es) \<Longrightarrow> c \<notin> set es" for s1 ev r1 s2 es
    using step_calls not_execute(1) assms(3) by blast
  show ?thesis
  proof (cases st)
    case (SFail e slot)
    then show ?thesis using assms S nx rel sn by (cases slot) (auto simp: execute_to_sink_inner_def split: prod.splits)
  next
    case SWaiting
    then show ?thesis using assms S nx by (simp add: execute_to_sink_inner_def)
  next
    case (SGo su)
    obtain actions blocked where R: "run_chains (su_parse su) (sync_guard_context r su) (live_chains (sl_live live) (sq_group r))
        (su_guard_actions su) = (actions, blocked)" by (metis surj_pair)
    obtain r1 s1 cs1 where T: "step s (On_Translated_Sql (su_translated su)) = (r1, s1, cs1)" by (metis prod_cases3)
    obtain r3 s3 cs3 where Ru: "run_and_record w r step su actions s1 = (r3, s3, cs3)" by (metis prod_cases3)
    obtain r2 s2 cs2 where Er: "step s1 (On_Error (sw_show_error w (projl r1))) = (r2, s2, cs2)" by (metis prod_cases3)
    show ?thesis
    proof (cases blocked)
      case True
      then show ?thesis using assms S SGo R nx rel sn by (auto simp: execute_to_sink_inner_def split: prod.splits)
    next
      case False
      then have "c \<in> set cs3"
        using assms S SGo R T Ru Er nx rel sn [OF T] sn [OF Er] by (cases r1) (auto simp: execute_to_sink_inner_def)
      then show ?thesis using run_and_record_executes [OF Ru _ assms(3)] S SGo R False by simp
    qed
  qed
qed

lemma execute_and_cache_executes:
  assumes "execute_and_cache app live w r step s key = (res, s', st', cs)" "c \<in> set cs" "is_execute c"
    and "check (sw_fga w) (lv_authorization (sl_live live)) (sq_auth r) (sq_group r)"
  shows "\<exists>su b. c = execute_call su b \<and> sync_cleared live w r (qc_cluster (su_ctx su)) (su_translated su) (qc_session (su_ctx su)) (su_credentials su)"
  using assms(1)
proof (cases rule: execute_and_cache_inner)
  case (plain pre)
  have "c \<notin> set pre" using plain(3) assms(3) by auto
  then have "c \<in> set (drop (length pre) cs)" using plain(2) assms(2) by (metis Un_iff set_append)
  then obtain su ds actions b where "setup_sync_query app live w r = (SGo su, ds)" "c = execute_call su b"
    "run_chains (su_parse su) (sync_guard_context r su) (live_chains (sl_live live) (sq_group r)) (su_guard_actions su) = (actions, False)"
    using inner_executes [OF plain(1) _ assms(3)] by blast
  then show ?thesis using setup_cleared [OF _ assms(4)] by blast
next
  case (teed k ttl ds post t t' res')
  have "c \<in> set ds" using teed(3,6) assms(2,3) not_execute(1) by auto
  then obtain su es actions b where "setup_sync_query app live w r = (SGo su, es)" "c = execute_call su b"
    "run_chains (su_parse su) (sync_guard_context r su) (live_chains (sl_live live) (sq_group r)) (su_guard_actions su) = (actions, False)"
    using result_sink.inner_executes [OF tee_is_sink teed(2) _ assms(3)] by blast
  then show ?thesis using setup_cleared [OF _ assms(4)] by blast
qed

lemma execute_to_sink_executes:
  assumes "execute_to_sink app live w r step s = (res, s', st', cs)" "c \<in> set cs" "is_execute c"
  shows "\<exists>su b. c = execute_call su b \<and> sync_cleared live w r (qc_cluster (su_ctx su)) (su_translated su) (qc_session (su_ctx su)) (su_credentials su)"
proof -
  have sn: "step s1 ev = (r1, s2, es) \<Longrightarrow> c \<notin> set es" for s1 ev r1 s2 es
    using step_calls not_execute(1) assms(3) by blast
  have rp: "c \<notin> set ds" if "try_stream_cached (sw_ipc w) (sw_show_error w) (sw_cache_read w) (sw_cache w) key step s = (rs, s1, ds)" for key rs s1 ds
    using replayed_calls [OF that] not_execute(1) assms(3) by blast
  have hc: "c \<notin> set hs" if "cache_hit live w r step actions stats s1 = (res1, s4, hs)" for actions stats s1 res1 s4 hs
    using that sn assms(3) by (auto simp: cache_hit_def split: prod.splits)
  have ok: "check (sw_fga w) (lv_authorization (sl_live live)) (sq_auth r) (sq_group r)"
    using assms sn by (auto simp: execute_to_sink_def split: if_splits prod.splits)
  have "\<exists>s1 key res1 s2 st2 ds. execute_and_cache app live w r step s1 key = (res1, s2, st2, ds) \<and> c \<in> set ds"
    using assms ok sn rp hc
    by (auto simp: execute_to_sink_def split: if_splits prod.splits sum.splits option.splits) blast+
  then show ?thesis using execute_and_cache_executes [OF _ _ assms(3) ok] by blast
qed

end


text \<open>
  Claim C4. An engine of the streaming path runs a text only after the caller was authorized for the group, the
  cluster was acquired before the deadline of the wait, the caller's identity was resolved as the cluster is
  configured, access control allowed the client's SQL or gave the text that replaces it, translation gave
  the engine's text without turning a read into a write, parameters were filled in where the engine does not take
  them, and every guard chain of the group let the query proceed: shown that text (without the parameters when
  translation changed it), the parse that goes with it, and this caller.
\<close>
theorem executed_only_when_cleared:
  assumes "execute_to_sink app live w r (client_sink reply) [] = (res, seen, st, cs)"
    and "Execute cluster native sql session cred tags params \<in> set cs"
  shows "sync_cleared live w r cluster sql session cred"
  using client.execute_to_sink_executes [OF assms] by (auto simp: execute_call_def)

text \<open>The calls of running a query; the result cache is asked before, never while it runs.\<close>

fun is_lookup :: "Call \<Rightarrow> bool" where
  "is_lookup (CacheLookup _) = True"
| "is_lookup _ = False"

lemma not_lookup: "is_sink_call c \<or> is_setup_call c \<or> is_run_call c \<or> is_execute c \<Longrightarrow> \<not> is_lookup c"
  by (cases c) auto

context result_sink
begin

lemma run_and_record_no_lookup:
  assumes "run_and_record w r step su actions s = (res, s', cs)" "c \<in> set cs"
  shows "\<not> is_lookup c"
proof -
  let ?native = "matches_frontend (sw_format w (qc_cluster (su_ctx su))) (sq_protocol r)"
  obtain oc r2 s2 ds where X: "(if ?native then execute_native_to_sink w step su s else execute_stream w step su s) = (oc, r2, s2, ds)"
    by (metis prod_cases4)
  have "c \<in> set ds \<Longrightarrow> \<not> is_lookup c"
    using X execute_stream_calls execute_native_calls not_lookup is_execute_call by (metis (no_types, lifting))
  moreover have "c \<in> set (spawn_sync_cancel w su) \<Longrightarrow> \<not> is_lookup c" by (auto simp: spawn_sync_cancel_def split: option.splits)
  moreover have "c \<in> set (snd (slot_release (sw_release_reply w) (su_slot su))) \<Longrightarrow> \<not> is_lookup c"
    using release_setup_calls(1) [of "sw_release_reply w" "su_slot su"] not_lookup by (auto simp: list_all_iff)
  ultimately show ?thesis using assms X by (auto simp: run_and_record_def Let_def split: sum.splits if_splits)
qed

lemma inner_no_lookup:
  assumes "execute_to_sink_inner app live w r step s = (res, s', cs)" "is_lookup c"
  shows "c \<notin> set cs"
proof -
  obtain st ds where S: "setup_sync_query app live w r = (st, ds)" by (metis surj_pair)
  have nx: "c \<notin> set ds"
    using setup_calls [of app live w r, unfolded S] not_lookup assms(2) by (cases st) (auto simp: list_all_iff)
  have rel: "c \<notin> set (slot_drop (sw_release_reply w) sl)" "c \<notin> set (snd (slot_release (sw_release_reply w) sl))" for sl
    using release_setup_calls(1,5) [of "sw_release_reply w" sl] not_lookup assms(2) by (auto simp: list_all_iff)
  have sn: "step s1 ev = (r1, s2, es) \<Longrightarrow> c \<notin> set es" for s1 ev r1 s2 es
    using step_calls not_lookup assms(2) by blast
  show ?thesis
  proof (cases st)
    case (SFail e slot)
    then show ?thesis using assms S nx rel sn by (cases slot) (auto simp: execute_to_sink_inner_def split: prod.splits)
  next
    case SWaiting
    then show ?thesis using assms S nx by (simp add: execute_to_sink_inner_def)
  next
    case (SGo su)
    obtain actions blocked where R: "run_chains (su_parse su) (sync_guard_context r su) (live_chains (sl_live live) (sq_group r))
        (su_guard_actions su) = (actions, blocked)" by (metis surj_pair)
    obtain r1 s1 cs1 where T: "step s (On_Translated_Sql (su_translated su)) = (r1, s1, cs1)" by (metis prod_cases3)
    obtain r3 s3 cs3 where Ru: "run_and_record w r step su actions s1 = (r3, s3, cs3)" by (metis prod_cases3)
    obtain r2 s2 cs2 where Er: "step s1 (On_Error (sw_show_error w (projl r1))) = (r2, s2, cs2)" by (metis prod_cases3)
    show ?thesis
    proof (cases blocked)
      case True
      then show ?thesis using assms S SGo R nx rel sn by (auto simp: execute_to_sink_inner_def split: prod.splits)
    next
      case False
      then show ?thesis
        using assms S SGo R T Ru Er nx rel sn [OF T] sn [OF Er] run_and_record_no_lookup [OF Ru]
        by (cases r1) (auto simp: execute_to_sink_inner_def)
    qed
  qed
qed

lemma execute_and_cache_no_lookup:
  assumes "execute_and_cache app live w r step s key = (res, s', st', cs)" "is_lookup c"
  shows "c \<notin> set cs"
  using assms(1)
proof (cases rule: execute_and_cache_inner)
  case (plain pre)
  have "c \<notin> set pre" using plain(3) assms(2) by auto
  then show ?thesis using plain(2) inner_no_lookup [OF plain(1) assms(2)] by (metis Un_iff set_append)
next
  case (teed k ttl ds post t t' res')
  then show ?thesis using result_sink.inner_no_lookup [OF tee_is_sink teed(2) assms(2)] not_lookup assms(2) by fastforce
qed

lemma execute_to_sink_lookup:
  assumes "execute_to_sink app live w r step s = (res, s', st', cs)" "CacheLookup key \<in> set cs"
  shows "check (sw_fga w) (lv_authorization (sl_live live)) (sq_auth r) (sq_group r)
    \<and> (\<exists>k. sync_cache_key live w r = Some k \<and> key = show_cache_key k) \<and> cache_access_allows live w r
    \<and> (\<forall>chain \<in> set (live_chains (sl_live live) (sq_group r)).
         snd (chain_run (sw_cache_guards w) chain (cache_guard_context live r) L_Plan) = Proceed)"
proof -
  let ?c = "CacheLookup key"
  have sn: "step s1 ev = (r1, s2, es) \<Longrightarrow> ?c \<notin> set es" for s1 ev r1 s2 es
    using step_calls not_lookup by fastforce
  have rp: "?c \<notin> set ds" if "try_stream_cached (sw_ipc w) (sw_show_error w) (sw_cache_read w) (sw_cache w) k step s = (rs, s1, ds)" for k rs s1 ds
    using replayed_calls [OF that] not_lookup by fastforce
  have hc: "?c \<notin> set hs" if "cache_hit live w r step actions stats s1 = (res1, s4, hs)" for actions stats s1 res1 s4 hs
    using that sn by (auto simp: cache_hit_def split: prod.splits)
  have ec: "?c \<notin> set ds" if "execute_and_cache app live w r step s1 k = (res1, s2, st2, ds)" for s1 k res1 s2 st2 ds
    using execute_and_cache_no_lookup [OF that] by simp
  have "check (sw_fga w) (lv_authorization (sl_live live)) (sq_auth r) (sq_group r)
      \<and> (\<exists>k actions. sync_cache_key live w r = Some k \<and> key = show_cache_key k \<and> cache_access_allows live w r \<and> run_plan_guards live w r = Inr actions)"
    using assms sn rp hc ec
    by (auto simp: execute_to_sink_def split: if_splits prod.splits sum.splits option.splits)
  then show ?thesis
    by (auto simp: run_plan_guards_def dest!: run_chains_proceed split: prod.splits bool.splits)
qed

end

lemma cache_access_allowed:
  assumes "cache_access_allows live w r" "lv_access_guard (sl_live live) = Some g" "enabled_for_group g (sq_group r)"
  shows "\<exists>action. run_access_control_stage (sw_cache_access w) g
      (stage_context (sq_sql r) (resolve_src_dialect (sq_session r) (sq_protocol r)) E_Cache (sq_group r) (sq_auth r)
         (sq_session r) (sync_tags live r)) = StageAllowed action"
  using assms unfolding cache_access_allows_def
  by (cases "run_access_control_stage (sw_cache_access w) g
      (stage_context (sq_sql r) (resolve_src_dialect (sq_session r) (sq_protocol r)) E_Cache (sq_group r) (sq_auth r)
         (sq_session r) (sync_tags live r))") auto

text \<open>
  Claim C8. The result cache is asked for a query only after everything the query itself would have to pass: the
  caller is authorized for the group, access control allows the client's SQL as it is (a query that it would
  rewrite with filters or masks is not looked up), and no guard of the group objects.
\<close>
theorem cache_served_only_when_allowed:
  assumes "execute_to_sink app live w r (client_sink reply) [] = (res, seen, st, cs)" and "CacheLookup key \<in> set cs"
  shows "check (sw_fga w) (lv_authorization (sl_live live)) (sq_auth r) (sq_group r)
    \<and> (\<exists>k. sync_cache_key live w r = Some k \<and> key = show_cache_key k)
    \<and> (\<forall>g. lv_access_guard (sl_live live) = Some g \<longrightarrow> enabled_for_group g (sq_group r) \<longrightarrow>
         (\<exists>action. run_access_control_stage (sw_cache_access w) g
            (stage_context (sq_sql r) (resolve_src_dialect (sq_session r) (sq_protocol r)) E_Cache (sq_group r) (sq_auth r)
               (sq_session r) (sync_tags live r)) = StageAllowed action))
    \<and> (\<forall>chain \<in> set (live_chains (sl_live live) (sq_group r)).
         snd (chain_run (sw_cache_guards w) chain
           \<lparr>gx_sql = sq_sql r, gx_original_sql = None, gx_dialect = D_Generic, gx_engine_type = E_Cache,
            gx_cluster_group = sq_group r, gx_user = sess_user (sq_session r), gx_groups = auth_groups (sq_auth r),
            gx_roles = auth_roles (sq_auth r), gx_attributes = auth_attributes (sq_auth r),
            gx_query_tags = sync_tags live r, gx_session_extra = sess_extra (sq_session r)\<rparr> L_Plan) = Proceed)"
  using client.execute_to_sink_lookup [OF assms] cache_access_allowed [of live w r] unfolding cache_guard_context_def by blast

section \<open>Waiting ends\<close>

lemma wait_in_line_ends:
  "\<exists>p \<in> set ws. retry_until \<le> fst p \<Longrightarrow> fst (wait_in_line retry_until c q seq ws)"
proof (induction ws)
  case (Cons p ws)
  obtain now reply where p: "p = (now, reply)" by (cases p)
  obtain d cs where W: "wait_in_line retry_until c q seq ws = (d, cs)" by (metis surj_pair)
  show ?case
  proof (cases "retry_until \<le> now")
    case False
    then have d using Cons p W by auto
    then show ?thesis using p W by (auto simp: Let_def split: sum.splits bool.splits)
  qed (simp add: p Let_def)
qed simp

lemma sync_admit_ends:
  "\<exists>rd \<in> set rds. wait_deadline live w r \<le> sr_now rd \<Longrightarrow>
   \<forall>rd \<in> set rds. \<exists>p \<in> set (sr_waits rd). min (sr_wait_from rd + RENEW_WAITS_FOR) (wait_deadline live w r) \<le> fst p \<Longrightarrow>
   fst (sync_admit app live w r seq waited rds) \<noteq> SWaiting"
proof (induction rds arbitrary: seq waited)
  case (Cons rd rds)
  obtain re ds where R: "sync_round app live w r seq waited rd = (re, ds)" by (cases "sync_round app live w r seq waited rd")
  have w: "fst (wait_in_line (min (sr_wait_from rd + RENEW_WAITS_FOR) (wait_deadline live w r)) c q seq (sr_waits rd))" for c q
    using Cons.prems(2) by (intro wait_in_line_ends) simp
  show ?case
  proof (cases re)
    case (Ends st)
    then have "st \<noteq> SWaiting" using R w
      by (auto simp: sync_round_def Let_def split: if_splits sum.splits option.splits prod.splits CapacityGrant.splits bool.splits)
        (metis fst_conv)+
    then show ?thesis using Ends R by simp
  next
    case (Again wt)
    then have "\<not> wait_deadline live w r \<le> sr_now rd" using R by (auto simp: sync_round_def Let_def)
    then have "fst (sync_admit app live w r (seq + 1) wt rds) \<noteq> SWaiting" using Cons by simp
    then show ?thesis using Again R by (auto split: prod.splits)
  qed
qed simp


lemma sbind_waiting:
  assumes "fst m \<noteq> SWaiting" "\<And>x cs. m = (SGo x, cs) \<Longrightarrow> fst (f x) \<noteq> SWaiting"
  shows "fst (sbind m f) \<noteq> SWaiting"
  using assms by (cases m rule: setup_step.cases) auto

lemma owes_from_not_waiting: "owes_from k s h m \<Longrightarrow> fst m \<noteq> SWaiting"
  by (cases "(k, s, h, m)" rule: owes_from.cases) auto

lemma setup_waits_for_slot:
  assumes "fst (sync_admit app live w r 0 None (sw_rounds w)) \<noteq> SWaiting"
  shows "fst (setup_sync_query app live w r) \<noteq> SWaiting"
  unfolding setup_sync_query_def
proof (rule sbind_waiting [OF assms], rule sbind_waiting, goal_cases)
  case (1 got cs)
  then show ?case by (auto simp: sync_prepare_def Let_def split: prod.splits)
next
  case (2 got cs j ds)
  show ?case
    by (rule sbind_waiting [OF owes_from_not_waiting [OF sync_access_owes [of undefined]]],
        rule sbind_waiting [OF owes_from_not_waiting [OF sync_translate_owes [of undefined]]], unfold case_prod_beta,
        rule sbind_waiting [OF owes_from_not_waiting [OF sync_invariant_owes [of undefined]]],
        rule sbind_waiting [OF owes_from_not_waiting [OF sync_identity_owes [of undefined]]],
        rule sbind_waiting [OF owes_from_not_waiting [OF sync_interpolate_owes [of undefined]]]) (simp add: Let_def)
qed

lemma inner_returns:
  assumes "fst (setup_sync_query app live w r) \<noteq> SWaiting"
  shows "\<exists>res. fst (execute_to_sink_inner app live w r snk s) = Some res"
  using assms by (auto simp: execute_to_sink_inner_def split: prod.splits sstage.splits bool.splits sum.splits)

lemma finalize_returns: "ww_plus_secs ww (sint (cw_ttl_secs (tee_writer t))) \<noteq> None \<Longrightarrow> finalize_cache f ww st t ok \<noteq> None"
  by (auto simp: finalize_cache_def cache_finalize_def Let_def split: option.splits sum.splits WriteReply.splits prod.splits)

lemma execute_and_cache_returns:
  assumes "fst (setup_sync_query app live w r) \<noteq> SWaiting" "\<And>n. ww_plus_secs (sw_cache_write w) n \<noteq> None"
  shows "\<exists>res. fst (execute_and_cache app live w r snk s key) = Some res"
proof (cases "\<exists>k cfg. key = Some k \<and> effective_cache live r = Some cfg \<and> sw_cache_writer_ok w")
  case True
  then obtain k cfg where k: "key = Some k" "effective_cache live r = Some cfg" "sw_cache_writer_ok w" by blast
  let ?t = "tee_new s (cache_writer k (gcc_ttl_secs cfg)) (map_option (\<lambda>mb. mb * 1024 * 1024) (gcc_max_entry_size_mb cfg))"
  obtain res t' ds where I: "execute_to_sink_inner app live w r (tee_sink (sw_ipc w) snk) ?t = (Some res, t', ds)"
    using inner_returns [OF assms(1), of "tee_sink (sw_ipc w) snk" ?t] by (metis prod.collapse)
  obtain t2 st2 fs where "finalize_cache (sw_ipc w) (sw_cache_write w) (sw_cache w) t' (case res of Inr _ \<Rightarrow> True | Inl _ \<Rightarrow> False) = Some (t2, st2, fs)"
    using finalize_returns [OF assms(2)] by (metis option.exhaust prod_cases3)
  then show ?thesis using k I by (simp add: execute_and_cache_def Let_def)
next
  case False
  obtain res s' ds where "execute_to_sink_inner app live w r snk s = (Some res, s', ds)"
    using inner_returns [OF assms(1), of snk s] by (metis prod.collapse)
  then show ?thesis using False by (auto simp: execute_and_cache_def Let_def split: option.splits)
qed

text \<open>
  Claim C22. No query of the streaming path waits forever for capacity: once its clock has passed the deadline of the
  group, and the waits in line it made came back by the time they were asked for, the call returns, whatever
  the stores, the engines and the client answered. The lifetimes of cache entries are in the clock's range.
\<close>
theorem sync_wait_bounded:
  assumes "\<exists>rd \<in> set (sw_rounds w). wait_deadline live w r \<le> sr_now rd"
    and "\<forall>rd \<in> set (sw_rounds w). \<exists>p \<in> set (sr_waits rd). min (sr_wait_from rd + RENEW_WAITS_FOR) (wait_deadline live w r) \<le> fst p"
    and "\<And>n. ww_plus_secs (sw_cache_write w) n \<noteq> None"
  shows "\<exists>res. fst (execute_to_sink app live w r (client_sink reply) []) = Some res"
proof -
  have "fst (setup_sync_query app live w r) \<noteq> SWaiting"
    using setup_waits_for_slot [OF sync_admit_ends [OF assms(1,2)]] .
  then have ec: "\<exists>res. fst (execute_and_cache app live w r (client_sink reply) s key) = Some res" for s key
    by (rule execute_and_cache_returns) (rule assms(3))

  show ?thesis
  proof (cases "sync_cache_key live w r")
    case None
    then show ?thesis using ec by (auto simp: execute_to_sink_def case_prod_unfold)
  next
    case (Some k)
    obtain lr s1 ds where "try_stream_cached (sw_ipc w) (sw_show_error w) (sw_cache_read w) (sw_cache w) k (client_sink reply) [] = (lr, s1, ds)"
      by (metis prod_cases3)
    then show ?thesis
      using ec Some
      by (cases lr) (auto simp: execute_to_sink_def case_prod_unfold split: sum.splits option.splits)
  qed
qed

section \<open>Example\<close>

definition example_sync_live :: SyncLive where
  "example_sync_live =
     \<lparr>sl_live = example_live\<lparr>lv_access_guard := None, lv_guard_chain := None\<rparr>, sl_wait_timeouts = [],
      sl_cache_settings = [(''g'', \<lparr>gcc_enabled = True, gcc_ttl_secs = 60, gcc_max_entry_size_mb = None\<rparr>)],
      sl_scripts = [], sl_fingerprint = (\<lambda>_. [])\<rparr>"

definition example_sync_round :: "time \<Rightarrow> SyncRound" where
  "example_sync_round now =
     \<lparr>sr_now = now, sr_mgr_gate = example_manager, sr_older_waiters = Inr 0, sr_mgr_acquire = example_manager,
      sr_interference = quiet, sr_python = (\<lambda>_ _ _. PyNone), sr_mgr_limit = example_manager, sr_try_acquire = Inr True,
      sr_release_reply = Inr (), sr_wait_from = now, sr_waits = [(400000, Inr False)]\<rparr>"

definition example_sync_world :: SyncWorld where
  "example_sync_world =
     \<lparr>sw_fga = (\<lambda>_. FgaUnreachable ''''), sw_query_id = ''q1'', sw_cache_query_id = ''q2'', sw_wait_start = 0,
      sw_rounds = [example_sync_round 0, example_sync_round 300000], sw_now_acquired = 0, sw_mgr_ids = example_manager, sw_release_reply = Inr (),
      sw_access = example_access_world, sw_cache_access = example_access_world,
      sw_translate = (\<lambda>sql _ _. (Inr sql, not_needed)), sw_global_fixups = False, sw_credentials = (\<lambda>_. Inr ServiceAccount),
      sw_native_params = (\<lambda>_. False), sw_format = (\<lambda>_. CF_Arrow), sw_interpolate = (\<lambda>sql _. Inr (sql, None)),
      sw_guards = dw_guards example_world, sw_cache_guards = dw_guards example_world,
      sw_execute = Inr \<lparr>sx_stream = [Inr (example_batch_of ''12'' 2), Inr (example_batch_of ''3'' 1)], sx_stats = None, sx_affected_rows = None\<rparr>,
      sw_backend_id = None, sw_elapsed = 5, sw_show_error = (\<lambda>_. ''''), sw_cacheable = True, sw_xxh64 = (\<lambda>_. 0), sw_ipc = example_ipc,
      sw_cache = empty_cache_state, sw_cache_read = example_read_world, sw_cache_writer_ok = True, sw_cache_write = example_write_world\<rparr>"

definition example_sync_request :: SyncRequest where
  "example_sync_request =
     \<lparr>sq_sql = ''SELECT x FROM t'', sq_params = [], sq_session = SessionContext_default, sq_protocol = PostgresWire, sq_group = ''g'',
      sq_auth = user_ctx ''ann''\<rparr>"

lemmas example_sync_defs = example_sync_live_def example_sync_round_def example_sync_world_def example_sync_request_def example_app_def example_live_def

lemma example_sync_admit:
  "sync_admit example_app example_sync_live example_sync_world example_sync_request 0 None (sw_rounds example_sync_world)
   = (SGo (example_slot, AsyncAdapter \<lparr>adp_engine_type = E_Trino, adp_dialect = D_Trino, adp_base_url = ''http://trino''\<rparr>, 0), [AcquiredSlot ''g'' ''a''])"
proof -
  have "fst (acquire_cluster quiet (\<lambda>_ _ _. PyNone) example_manager ''g'') = Inr (Some ''a'')"
    by (simp add: example_manager_eval)
  moreover have "\<not> should_yield_to_older_queued example_manager ''g'' (Inr 0)"
    by (simp add: should_yield_to_older_queued_def)
  ultimately show ?thesis
    by (simp add: sync_round_def example_sync_defs wait_deadline_def wait_timeout_secs_def DEFAULT_CAPACITY_WAIT_TIMEOUT_SECS_def
        acquire_global_capacity_def Let_def)
qed

lemma example_setup:
  obtains su cs where "setup_sync_query example_app example_sync_live example_sync_world example_sync_request = (SGo su, cs)"
    "su_translated su = ''SELECT x FROM t''" "qc_cluster (su_ctx su) = ''a''" "su_credentials su = ServiceAccount" "su_guard_actions su = []"
proof -
  have "\<exists>su cs. setup_sync_query example_app example_sync_live example_sync_world example_sync_request = (SGo su, cs)
    \<and> su_translated su = ''SELECT x FROM t'' \<and> qc_cluster (su_ctx su) = ''a'' \<and> su_credentials su = ServiceAccount \<and> su_guard_actions su = []"
    unfolding setup_sync_query_def example_sync_admit
    by (simp add: sync_prepare_def sync_access_def sync_translate_def sync_invariant_def sync_identity_def sync_interpolate_def
        sync_context_def slot_new_def mark_started_def Let_def case_prod_unfold example_sync_defs)
  then show ?thesis using that by blast
qed


lemma example_key_and_path:
  obtains k where "sync_cache_key example_sync_live example_sync_world example_sync_request = Some k"
    "cache_access_allows example_sync_live example_sync_world example_sync_request"
    "run_plan_guards example_sync_live example_sync_world example_sync_request = Inr []"
    "try_stream_cached example_ipc (sw_show_error example_sync_world) example_read_world empty_cache_state k (client_sink reply) [] = (Inr None, [], [])"
    "effective_cache example_sync_live example_sync_request = Some \<lparr>gcc_enabled = True, gcc_ttl_secs = 60, gcc_max_entry_size_mb = None\<rparr>"
    "check (sw_fga example_sync_world) (lv_authorization (sl_live example_sync_live)) (sq_auth example_sync_request) (sq_group example_sync_request)"
proof -
  have "\<exists>k. sync_cache_key example_sync_live example_sync_world example_sync_request = Some k"
    by (simp add: sync_cache_key_def effective_cache_def fixups_can_run_def example_sync_defs)
  then show ?thesis
    using that
    by (auto simp: cache_access_allows_def run_plan_guards_def live_chains_def effective_cache_def try_stream_cached_def cache_get_valid_def
        empty_cache_state_def InMemory_default_def example_sync_defs)
qed

lemma example_inner_executes:
  "\<exists>su b. execute_call su b \<in> set (snd (snd (execute_to_sink_inner example_app example_sync_live example_sync_world example_sync_request snk s)))
     \<and> su_translated su = ''SELECT x FROM t'' \<and> qc_cluster (su_ctx su) = ''a'' \<and> su_credentials su = ServiceAccount"
  if accepts: "\<And>s sql. fst (snk s (On_Translated_Sql sql)) = Inr ()"
proof -
  obtain su cs where su: "setup_sync_query example_app example_sync_live example_sync_world example_sync_request = (SGo su, cs)"
    "su_translated su = ''SELECT x FROM t''" "qc_cluster (su_ctx su) = ''a''" "su_credentials su = ServiceAccount" "su_guard_actions su = []"
    by (rule example_setup)
  have chains: "live_chains (sl_live example_sync_live) (sq_group example_sync_request) = []"
    by (simp add: live_chains_def example_sync_defs)
  have fmt: "\<not> matches_frontend (sw_format example_sync_world (qc_cluster (su_ctx su))) (sq_protocol example_sync_request)"
    by (simp add: example_sync_defs)
  obtain s1 cs1 where T: "snk s (On_Translated_Sql (su_translated su)) = (Inr (), s1, cs1)"
    using accepts [of s "su_translated su"] by (cases "snk s (On_Translated_Sql (su_translated su))") auto
  obtain oc res s2 ds where X: "execute_stream example_sync_world snk su s1 = (oc, res, s2, execute_call su False # ds)"
    unfolding execute_stream_def case_prod_unfold by blast
  have "execute_call su False \<in> set (snd (snd (execute_to_sink_inner example_app example_sync_live example_sync_world example_sync_request snk s)))"
    using su(1) chains T X fmt by (simp add: execute_to_sink_inner_def run_and_record_def Let_def split: prod.splits)
  then show ?thesis using su by blast
qed

lemma example_sync_calls:
  obtains res seen st cs su b where "execute_to_sink example_app example_sync_live example_sync_world example_sync_request (client_sink (\<lambda>_. Inr ())) [] = (res, seen, st, cs)"
    "execute_call su b \<in> set cs" "su_translated su = ''SELECT x FROM t''" "qc_cluster (su_ctx su) = ''a''" "su_credentials su = ServiceAccount"
    "\<exists>key. CacheLookup key \<in> set cs"
proof -
  let ?snk = "client_sink (\<lambda>_. Inr ())"
  let ?cfg = "\<lparr>gcc_enabled = True, gcc_ttl_secs = 60, gcc_max_entry_size_mb = None\<rparr> :: GroupCacheConfig"
  obtain k where k: "sync_cache_key example_sync_live example_sync_world example_sync_request = Some k"
    "cache_access_allows example_sync_live example_sync_world example_sync_request"
    "run_plan_guards example_sync_live example_sync_world example_sync_request = Inr []"
    "try_stream_cached example_ipc (sw_show_error example_sync_world) example_read_world empty_cache_state k ?snk [] = (Inr None, [], [])"
    "effective_cache example_sync_live example_sync_request = Some ?cfg"
    "check (sw_fga example_sync_world) (lv_authorization (sl_live example_sync_live)) (sq_auth example_sync_request) (sq_group example_sync_request)"
    by (rule example_key_and_path)
  let ?t = "tee_new [] (cache_writer k 60) None"
  have acc: "fst (tee_sink example_ipc ?snk s (On_Translated_Sql sql)) = Inr ()" for s sql by (simp add: tee_sink_def)
  obtain su b where x: "execute_call su b \<in> set (snd (snd (execute_to_sink_inner example_app example_sync_live example_sync_world example_sync_request (tee_sink example_ipc ?snk) ?t)))"
    "su_translated su = ''SELECT x FROM t''" "qc_cluster (su_ctx su) = ''a''" "su_credentials su = ServiceAccount"
    using example_inner_executes [of "tee_sink example_ipc ?snk" ?t, OF acc] by blast
  obtain res s' st' ds where E: "execute_and_cache example_app example_sync_live example_sync_world example_sync_request ?snk [] (Some k) = (res, s', st', ds)"
    by (metis prod_cases4)
  have w: "sw_cache_writer_ok example_sync_world" "sw_ipc example_sync_world = example_ipc" "sw_cache_read example_sync_world = example_read_world"
      "sw_cache example_sync_world = empty_cache_state" "sw_cache_write example_sync_world = example_write_world"
    by (simp_all add: example_sync_world_def)
  have "execute_call su b \<in> set ds"
    using E x(1) k(5) w by (auto simp: execute_and_cache_def Let_def split: prod.splits option.splits)
  moreover obtain cs where C: "execute_to_sink example_app example_sync_live example_sync_world example_sync_request ?snk [] = (res, s', st', cs)"
      "cs = CacheLookup (show_cache_key k) # CacheMissCounted (sq_group example_sync_request) # ds"
    using k w E by (simp add: execute_to_sink_def)
  ultimately show ?thesis using that [OF C(1), of su b] x(2-4) C(2) by auto
qed

theorem executed_only_when_cleared_witness:
  "sync_cleared example_sync_live example_sync_world example_sync_request ''a'' ''SELECT x FROM t'' SessionContext_default ServiceAccount"
proof (rule example_sync_calls)
  fix res seen st cs su b
  assume *: "execute_to_sink example_app example_sync_live example_sync_world example_sync_request (client_sink (\<lambda>_. Inr ())) [] = (res, seen, st, cs)"
    "execute_call su b \<in> set cs" "su_translated su = ''SELECT x FROM t''" "qc_cluster (su_ctx su) = ''a''" "su_credentials su = ServiceAccount"
  have "sync_cleared example_sync_live example_sync_world example_sync_request ''a'' ''SELECT x FROM t'' (qc_session (su_ctx su)) ServiceAccount"
    using executed_only_when_cleared [OF *(1) *(2) [unfolded execute_call_def]] *(3-5) by simp
  moreover from this have "qc_session (su_ctx su) = cleared_session example_sync_live example_sync_request ServiceAccount"
    unfolding sync_cleared_def by blast
  moreover have "cleared_session example_sync_live example_sync_request ServiceAccount = SessionContext_default"
    by (simp add: cleared_session_def example_sync_defs enrich_session_for_passthrough_def)
  ultimately show ?thesis by simp
qed

theorem cache_served_only_when_allowed_witness:
  "\<exists>res seen st cs k. execute_to_sink example_app example_sync_live example_sync_world example_sync_request (client_sink (\<lambda>_. Inr ())) [] = (res, seen, st, cs)
   \<and> sync_cache_key example_sync_live example_sync_world example_sync_request = Some k \<and> CacheLookup (show_cache_key k) \<in> set cs
   \<and> check (sw_fga example_sync_world) (lv_authorization (sl_live example_sync_live)) (sq_auth example_sync_request) (sq_group example_sync_request)"
proof (rule example_sync_calls)
  fix res seen st cs
  assume *: "execute_to_sink example_app example_sync_live example_sync_world example_sync_request (client_sink (\<lambda>_. Inr ())) [] = (res, seen, st, cs)"
    "\<exists>key. CacheLookup key \<in> set cs"
  then show ?thesis using cache_served_only_when_allowed [OF *(1)] by blast
qed
theorem sync_recorded_once_witness:
  "\<exists>res seen st cs. execute_to_sink example_app example_sync_live example_sync_world example_sync_request (client_sink (\<lambda>_. Inr ())) [] = (res, seen, st, cs)
     \<and> recorded cs = 1"
proof (rule example_sync_calls)
  fix res seen st cs su b
  assume *: "execute_to_sink example_app example_sync_live example_sync_world example_sync_request (client_sink (\<lambda>_. Inr ())) [] = (res, seen, st, cs)"
    "execute_call su b \<in> set cs"
  then show ?thesis
    using sync_recorded_once [of example_app example_sync_live example_sync_world example_sync_request "\<lambda>_. Inr ()"] is_execute_call by fastforce
qed

theorem sync_protocol_witness:
  "\<exists>res seen st cs. execute_to_sink example_app example_sync_live example_sync_world example_sync_request (client_sink (\<lambda>_. Inr ())) [] = (res, seen, st, cs)
     \<and> phase_after P_Start (sink_events cs) \<noteq> P_Broken"
proof -
  let ?snk = "client_sink (\<lambda>_. Inr ())"
  obtain k where k: "sync_cache_key example_sync_live example_sync_world example_sync_request = Some k"
    "try_stream_cached example_ipc (sw_show_error example_sync_world) example_read_world empty_cache_state k ?snk [] = (Inr None, [], [])"
    by (rule example_key_and_path)
  have w: "sw_ipc example_sync_world = example_ipc" "sw_cache_read example_sync_world = example_read_world"
      "sw_cache example_sync_world = empty_cache_state"
    by (simp_all add: example_sync_world_def)
  obtain res seen st cs where E: "execute_to_sink example_app example_sync_live example_sync_world example_sync_request ?snk [] = (res, seen, st, cs)"
    by (metis prod_cases4)
  then show ?thesis using sync_protocol [OF E] k w by auto
qed

theorem sync_wait_bounded_witness:
  "\<exists>res. fst (execute_to_sink example_app example_sync_live (example_sync_world\<lparr>sw_rounds := [example_sync_round 300000]\<rparr>) example_sync_request
     (client_sink (\<lambda>_. Inr ())) []) = Some res"
  by (rule sync_wait_bounded)
    (simp_all add: example_sync_defs wait_deadline_def wait_timeout_secs_def DEFAULT_CAPACITY_WAIT_TIMEOUT_SECS_def RENEW_WAITS_FOR_def
      example_write_world_def)


end
