(* ===== verification/Authentication.thy ===== *)
theory Authentication
  imports Session In_Memory
begin

text \<open>
  Who a client is: the providers of \<open>crates/queryflux-auth/src/provider.rs\<close> and \<open>ldap.rs\<close> that turn the
  credentials of a request into an \<open>AuthContext\<close>, and the administrator's password of
  \<open>admin_credentials.rs\<close>. The JWT library, the key endpoint, the directory and bcrypt are arguments.
\<close>

record Credentials =
  cred_username :: "string option"
  cred_password :: "string option"
  cred_bearer_token :: "string option"

definition identity_of :: "string \<Rightarrow> AuthContext" where
  "identity_of user =
     \<lparr>auth_user = user, auth_groups = [], auth_roles = [], auth_raw_token = None, auth_raw_password = None,
      auth_attributes = []\<rparr>"

definition given_name :: "Credentials \<Rightarrow> string option" where
  "given_name creds = (case cred_username creds of Some u \<Rightarrow> if u = [] then None else Some u | None \<Rightarrow> None)"

definition NO_USERNAME :: string where
  "NO_USERNAME = ''authentication required: no username provided''"

definition failed_for :: "string \<Rightarrow> QueryFluxError" where
  "failed_for user = Auth (''authentication failed for user '' @ [CHR 0x27] @ user @ [CHR 0x27])"

section \<open>No provider, and the static user map\<close>

definition none_authenticate :: "bool \<Rightarrow> Credentials \<Rightarrow> AuthContext result" where
  "none_authenticate required creds =
     (case given_name creds of
        Some u \<Rightarrow> Inr ((identity_of u)\<lparr>auth_raw_token := cred_bearer_token creds\<rparr>)
      | None \<Rightarrow>
          if required then Inl (Auth NO_USERNAME)
          else Inr ((identity_of ''anonymous'')\<lparr>auth_raw_token := cred_bearer_token creds\<rparr>))"

record StaticUserEntry =
  su_password :: string
  su_groups :: "string list"
  su_roles :: "string list"

definition static_authenticate :: "(string \<times> StaticUserEntry) list \<Rightarrow> bool \<Rightarrow> Credentials \<Rightarrow> AuthContext result" where
  "static_authenticate users required creds =
     (if cred_bearer_token creds \<noteq> None \<and> cred_username creds = None then
        Inl (Auth ''static auth provider does not accept bearer tokens without a username'')
      else
        (case given_name creds of
           None \<Rightarrow> if required then Inl (Auth NO_USERNAME) else Inr (identity_of ''anonymous'')
         | Some u \<Rightarrow>
             (case map_of users u of
                None \<Rightarrow> Inl (failed_for u)
              | Some entry \<Rightarrow>
                  let ok = Inr ((identity_of u)\<lparr>auth_groups := su_groups entry, auth_roles := su_roles entry\<rparr>) in
                  (case cred_password creds of
                     Some provided \<Rightarrow> if provided \<noteq> su_password entry then Inl (failed_for u) else ok
                   | None \<Rightarrow>
                       if required then
                         Inl (Auth (''authentication required: no password provided for user '' @ [CHR 0x27] @ u @ [CHR 0x27]))
                       else ok))))"

section \<open>JSON Web Tokens\<close>

text \<open>The claims of a token; a JSON value that is no string, array or object is opaque.\<close>

datatype claims =
    Claim_String string
  | Claim_Array "claims list"
  | Claim_Object "(string \<times> claims) list"
  | Claim_Other json

fun get_claim :: "claims \<Rightarrow> string \<Rightarrow> claims option" where
  "get_claim (Claim_Object fs) k = map_of fs k"
| "get_claim _ k = None"

fun as_str :: "claims \<Rightarrow> string option" where
  "as_str (Claim_String s) = Some s"
| "as_str _ = None"

fun walk_path :: "claims \<Rightarrow> string list \<Rightarrow> claims option" where
  "walk_path v [] = Some v"
| "walk_path v (seg # segs) = (case get_claim v seg of None \<Rightarrow> None | Some v' \<Rightarrow> walk_path v' segs)"

definition resolve_dot_path :: "claims \<Rightarrow> string \<Rightarrow> claims option" where
  "resolve_dot_path v path = walk_path v (split_on (CHR ''.'') path)"

definition extract_string_array :: "claims \<Rightarrow> string \<Rightarrow> string list" where
  "extract_string_array v path =
     (case resolve_dot_path v path of
        Some (Claim_Array vs) \<Rightarrow> List.map_filter as_str vs
      | Some (Claim_String s) \<Rightarrow> [s]
      | _ \<Rightarrow> [])"

record OidcConfig =
  oc_issuer :: string
  oc_jwks_uri :: string
  oc_audience :: "string option"
  oc_groups_claim :: string
  oc_roles_claim :: "string option"
  oc_attribute_claims :: "string list"

record Jwk =
  jwk_kid :: "string option"
  jwk_key :: string

type_synonym JwkSet = "Jwk list"

text \<open>What a token is checked against; without an audience the check of the audience is off.\<close>

record Validation =
  va_alg :: string
  va_issuer :: string
  va_audience :: "string option"

record OidcWorld =
  ow_decode_header :: "string \<Rightarrow> string + (string option \<times> string)"
  ow_decoding_key :: "Jwk \<Rightarrow> string + string"
  ow_decode :: "string \<Rightarrow> string \<Rightarrow> Validation \<Rightarrow> string + claims"
  ow_send :: "string \<Rightarrow> string + (string + JwkSet)"
  ow_now :: instant
  ow_now_fetched :: instant
  ow_to_json :: "claims \<Rightarrow> json"

definition JWKS_CACHE_TTL :: duration where
  "JWKS_CACHE_TTL = duration_from_secs 3600"

type_synonym jwks_cache = "(JwkSet \<times> instant) option"

definition get_jwks :: "OidcWorld \<Rightarrow> OidcConfig \<Rightarrow> jwks_cache \<Rightarrow> JwkSet result \<times> jwks_cache" where
  "get_jwks w cfg cache =
     (let fetch =
        (case ow_send w (oc_jwks_uri cfg) of
           Inl e \<Rightarrow> (Inl (Auth (''failed to fetch JWKS: '' @ e)), cache)
         | Inr (Inl e) \<Rightarrow> (Inl (Auth (''failed to parse JWKS: '' @ e)), cache)
         | Inr (Inr keys) \<Rightarrow> (Inr keys, Some (keys, ow_now_fetched w))) in
      (case cache of
         Some (keys, fetched_at) \<Rightarrow>
           if saturating_duration_since (ow_now w) fetched_at < JWKS_CACHE_TTL then (Inr keys, cache) else fetch
       | None \<Rightarrow> fetch))"

definition find_jwk :: "JwkSet \<Rightarrow> string option \<Rightarrow> Jwk option" where
  "find_jwk keys kid =
     (case kid of
        Some k \<Rightarrow> find (\<lambda>j. jwk_kid j = Some k) keys
      | None \<Rightarrow> (case keys of [] \<Rightarrow> None | j # _ \<Rightarrow> Some j))"

definition user_of_claims :: "claims \<Rightarrow> string" where
  "user_of_claims cl =
     (case Option.bind (get_claim cl ''sub'') as_str of
        Some s \<Rightarrow> s
      | None \<Rightarrow>
          (case Option.bind (get_claim cl ''preferred_username'') as_str of Some s \<Rightarrow> s | None \<Rightarrow> ''unknown''))"

definition attributes_of :: "(claims \<Rightarrow> json) \<Rightarrow> claims \<Rightarrow> string list \<Rightarrow> (string \<times> json) list" where
  "attributes_of to_json cl paths =
     foldl (\<lambda>m path. case resolve_dot_path cl path of
              None \<Rightarrow> m
            | Some v \<Rightarrow> AList.update (last (split_on (CHR ''.'') path)) (to_json v) m) [] paths"

definition context_of_claims :: "(claims \<Rightarrow> json) \<Rightarrow> OidcConfig \<Rightarrow> string \<Rightarrow> claims \<Rightarrow> AuthContext" where
  "context_of_claims to_json cfg token cl =
     \<lparr>auth_user = user_of_claims cl, auth_groups = extract_string_array cl (oc_groups_claim cfg),
      auth_roles = (case oc_roles_claim cfg of Some c \<Rightarrow> extract_string_array cl c | None \<Rightarrow> []),
      auth_raw_token = Some token, auth_raw_password = None,
      auth_attributes = attributes_of to_json cl (oc_attribute_claims cfg)\<rparr>"

definition AUDIENCE_REQUIRED :: string where
  "AUDIENCE_REQUIRED =
     ''OIDC audience validation required: configure auth.oidc.audience when auth.required=true''"

definition oidc_authenticate ::
  "OidcWorld \<Rightarrow> OidcConfig \<Rightarrow> bool \<Rightarrow> Credentials \<Rightarrow> jwks_cache \<Rightarrow> AuthContext result \<times> jwks_cache" where
  "oidc_authenticate w cfg required creds cache =
     (case cred_bearer_token creds of
        None \<Rightarrow>
          (if required then Inl (Auth ''OIDC authentication required: no bearer token provided'')
           else Inr (identity_of (case cred_username creds of Some u \<Rightarrow> u | None \<Rightarrow> ''anonymous'')), cache)
      | Some token \<Rightarrow>
          if required \<and> oc_audience cfg = None then (Inl (Auth AUDIENCE_REQUIRED), cache)
          else
            (case ow_decode_header w token of
               Inl e \<Rightarrow> (Inl (Auth (''invalid JWT header: '' @ e)), cache)
             | Inr (kid, alg) \<Rightarrow>
                 (case get_jwks w cfg cache of
                    (Inl e, cache') \<Rightarrow> (Inl e, cache')
                  | (Inr keys, cache') \<Rightarrow>
                      (case find_jwk keys kid of
                         None \<Rightarrow> (Inl (Auth ''no matching JWK found for token kid''), cache')
                       | Some jwk \<Rightarrow>
                           (case ow_decoding_key w jwk of
                              Inl e \<Rightarrow> (Inl (Auth (''failed to build decoding key: '' @ e)), cache')
                            | Inr key \<Rightarrow>
                                (case ow_decode w token key
                                        \<lparr>va_alg = alg, va_issuer = oc_issuer cfg, va_audience = oc_audience cfg\<rparr> of
                                   Inl e \<Rightarrow> (Inl (Auth (''JWT validation failed: '' @ e)), cache')
                                 | Inr cl \<Rightarrow> (Inr (context_of_claims (ow_to_json w) cfg token cl), cache')))))))"

section \<open>LDAP\<close>

record LdapConfig =
  lc_url :: string
  lc_bind_dn :: string
  lc_bind_password :: "string option"
  lc_user_search_base :: string
  lc_user_search_filter :: string
  lc_user_dn_template :: "string option"
  lc_group_search_base :: "string option"
  lc_group_name_attribute :: string

definition escape_char :: "char \<Rightarrow> string" where
  "escape_char c =
     (if c = CHR ''*'' then [CHR 0x5C] @ ''2a''
      else if c = CHR ''('' then [CHR 0x5C] @ ''28''
      else if c = CHR '')'' then [CHR 0x5C] @ ''29''
      else if c = CHR 0x5C then [CHR 0x5C] @ ''5c''
      else if c = CHR 0x00 then [CHR 0x5C] @ ''00''
      else [c])"

definition ldap_escape :: "string \<Rightarrow> string" where
  "ldap_escape s = concat (map escape_char s)"

text \<open>\<open>str::replace\<close> of the placeholder \<open>{}\<close>.\<close>

fun fill_braces :: "string \<Rightarrow> string \<Rightarrow> string" where
  "fill_braces r [] = []"
| "fill_braces r [c] = [c]"
| "fill_braces r (c # d # cs) = (if c = CHR ''{'' \<and> d = CHR ''}'' then r @ fill_braces r cs else c # fill_braces r (d # cs))"

definition extract_cn :: "string \<Rightarrow> string \<Rightarrow> string option" where
  "extract_cn dn attr =
     map_option (\<lambda>rdn. case split_once (CHR ''='') (trim rdn) of Some (_, v) \<Rightarrow> v | None \<Rightarrow> [])
       (find (\<lambda>rdn. starts_with (to_lowercase (attr @ ''='')) (to_lowercase (trim rdn))) (split_on (CHR '','') dn))"

datatype Scope = Scope_Subtree | Scope_Base

record SearchEntry =
  se_dn :: string
  se_attrs :: "(string \<times> string list) list"

text \<open>
  A bind fails to reach the server, is rejected or succeeds; a search fails or gives entries, and its
  answer depends on the name the connection is bound to.
\<close>

datatype BindReply = Bind_Failed string | Bind_Rejected string | Bind_Ok

datatype SearchReply = Search_Failed string | Search_Error string | Search_Found "SearchEntry list"

record LdapWorld =
  lw_connect :: "string \<Rightarrow> string + unit"
  lw_bind :: "string \<Rightarrow> string \<Rightarrow> BindReply"
  lw_search :: "string option \<Rightarrow> string \<Rightarrow> Scope \<Rightarrow> string \<Rightarrow> string list \<Rightarrow> SearchReply"

definition user_filter :: "LdapConfig \<Rightarrow> string \<Rightarrow> string" where
  "user_filter cfg user = fill_braces (ldap_escape user) (lc_user_search_filter cfg)"

definition resolve_user_dn :: "LdapWorld \<Rightarrow> LdapConfig \<Rightarrow> string \<Rightarrow> string result" where
  "resolve_user_dn w cfg user =
     (let search = (\<lambda>bound.
        (case lw_search w bound (lc_user_search_base cfg) Scope_Subtree (user_filter cfg user) [''dn'', ''memberOf''] of
           Search_Failed e \<Rightarrow> Inl (Auth (''LDAP search failed: '' @ e))
         | Search_Error e \<Rightarrow> Inl (Auth (''LDAP search error: '' @ e))
         | Search_Found [] \<Rightarrow> Inl (Auth (''user '' @ [CHR 0x27] @ user @ [CHR 0x27] @ '' not found in LDAP''))
         | Search_Found (entry # _) \<Rightarrow> Inr (se_dn entry))) in
      (case lc_user_dn_template cfg of
         Some template \<Rightarrow> Inr (fill_braces (ldap_escape user) template)
       | None \<Rightarrow>
           if lc_bind_dn cfg = [] then search None
           else
             (case lw_bind w (lc_bind_dn cfg) (case lc_bind_password cfg of Some p \<Rightarrow> p | None \<Rightarrow> []) of
                Bind_Failed e \<Rightarrow> Inl (Auth (''LDAP service bind failed: '' @ e))
              | Bind_Rejected e \<Rightarrow> Inl (Auth (''LDAP service bind rejected: '' @ e))
              | Bind_Ok \<Rightarrow> search (Some (lc_bind_dn cfg)))))"

definition resolve_groups :: "LdapWorld \<Rightarrow> LdapConfig \<Rightarrow> string \<Rightarrow> string list" where
  "resolve_groups w cfg user_dn =
     (case lc_group_search_base cfg of
        Some base \<Rightarrow>
          (case lw_search w (Some user_dn) base Scope_Subtree (''(member='' @ ldap_escape user_dn @ '')'')
                  [lc_group_name_attribute cfg] of
             Search_Found entries \<Rightarrow>
               List.map_filter (\<lambda>e. case map_of (se_attrs e) (lc_group_name_attribute cfg) of
                                 Some (v # _) \<Rightarrow> Some v | _ \<Rightarrow> None) entries
           | _ \<Rightarrow> [])
      | None \<Rightarrow>
          (case lw_search w (Some user_dn) user_dn Scope_Base ''(objectClass=*)'' [''memberOf''] of
             Search_Found entries \<Rightarrow>
               concat (map (\<lambda>e. List.map_filter (\<lambda>dn. extract_cn dn (lc_group_name_attribute cfg))
                              (case map_of (se_attrs e) ''memberOf'' of Some dns \<Rightarrow> dns | None \<Rightarrow> [])) entries)
           | _ \<Rightarrow> []))"

definition ldap_authenticate :: "LdapWorld \<Rightarrow> LdapConfig \<Rightarrow> bool \<Rightarrow> Credentials \<Rightarrow> AuthContext result" where
  "ldap_authenticate w cfg required creds =
     (case given_name creds of
        None \<Rightarrow> if required then Inl (Auth NO_USERNAME) else Inr (identity_of ''anonymous'')
      | Some user \<Rightarrow>
          let password = (case cred_password creds of Some p \<Rightarrow> p | None \<Rightarrow> []) in
          (case lw_connect w (lc_url cfg) of
             Inl e \<Rightarrow> Inl (Auth (''LDAP connect failed: '' @ e))
           | Inr _ \<Rightarrow>
               (case resolve_user_dn w cfg user of
                  Inl e \<Rightarrow> Inl e
                | Inr user_dn \<Rightarrow>
                    (case lw_bind w user_dn password of
                       Bind_Failed e \<Rightarrow> Inl (Auth (''LDAP bind failed: '' @ e))
                     | Bind_Rejected _ \<Rightarrow> Inl (failed_for user)
                     | Bind_Ok \<Rightarrow>
                         Inr ((identity_of user)\<lparr>auth_groups := resolve_groups w cfg user_dn,
                                                 auth_raw_password := Some password\<rparr>)))))"

section \<open>Providers\<close>

datatype AuthProvider =
    NoneAuthProvider bool
  | StaticAuthProvider "(string \<times> StaticUserEntry) list" bool
  | OidcAuthProvider OidcConfig bool
  | LdapAuthProvider LdapConfig bool

fun authenticate ::
  "OidcWorld \<Rightarrow> LdapWorld \<Rightarrow> jwks_cache \<Rightarrow> AuthProvider \<Rightarrow> Credentials \<Rightarrow> AuthContext result \<times> jwks_cache" where
  "authenticate ow lw cache (NoneAuthProvider required) creds = (none_authenticate required creds, cache)"
| "authenticate ow lw cache (StaticAuthProvider users required) creds = (static_authenticate users required creds, cache)"
| "authenticate ow lw cache (OidcAuthProvider cfg required) creds = oidc_authenticate ow cfg required creds cache"
| "authenticate ow lw cache (LdapAuthProvider cfg required) creds = (ldap_authenticate lw cfg required creds, cache)"

section \<open>The administrator's password\<close>

record StoredCredentials =
  sc_username :: string
  sc_password_hash :: string

text \<open>
  The settings store, when there is one, with whether it can be read and written at the moment; the JSON
  form of the stored credentials, and bcrypt, are arguments.
\<close>

record SettingsStore =
  ss_rows :: InMemory
  ss_readable :: bool
  ss_write_error :: "QueryFluxError option"

record AdminCredentialsManager =
  am_bootstrap_username :: string
  am_bootstrap_password :: string
  am_store :: "SettingsStore option"
  am_durable_store :: bool

record AdminWorld =
  aw_to_value :: "StoredCredentials \<Rightarrow> json"
  aw_from_value :: "json \<Rightarrow> StoredCredentials option"
  aw_hash :: "string \<Rightarrow> string + string"
  aw_verify :: "string \<Rightarrow> string \<Rightarrow> bool option"

definition SETTINGS_KEY :: string where
  "SETTINGS_KEY = ''admin_credentials''"

definition read_setting :: "AdminCredentialsManager \<Rightarrow> json option" where
  "read_setting m =
     (case am_store m of
        None \<Rightarrow> None
      | Some st \<Rightarrow> if ss_readable st then get_proxy_setting (ss_rows st) SETTINGS_KEY else None)"

definition settings_are_durable :: "AdminCredentialsManager \<Rightarrow> bool" where
  "settings_are_durable m = am_durable_store m"

definition has_db_override :: "AdminCredentialsManager \<Rightarrow> bool" where
  "has_db_override m \<longleftrightarrow> read_setting m \<noteq> None"

definition load_db_credentials :: "AdminWorld \<Rightarrow> AdminCredentialsManager \<Rightarrow> StoredCredentials option" where
  "load_db_credentials w m = Option.bind (read_setting m) (aw_from_value w)"

definition verify :: "AdminWorld \<Rightarrow> AdminCredentialsManager \<Rightarrow> string \<Rightarrow> string \<Rightarrow> bool" where
  "verify w m user password \<longleftrightarrow>
     (case load_db_credentials w m of
        Some stored \<Rightarrow> user = sc_username stored \<and> aw_verify w password (sc_password_hash stored) = Some True
      | None \<Rightarrow> user = am_bootstrap_username m \<and> password = am_bootstrap_password m)"

definition change_password ::
  "AdminWorld \<Rightarrow> AdminCredentialsManager \<Rightarrow> string \<Rightarrow> string \<Rightarrow> unit result \<times> AdminCredentialsManager" where
  "change_password w m current new_password =
     (let user = (case load_db_credentials w m of Some s \<Rightarrow> sc_username s | None \<Rightarrow> am_bootstrap_username m) in
      if \<not> verify w m user current then (Inl (Auth ''current password is incorrect''), m)
      else if str_len new_password < 8 then (Inl (Auth ''new password must be at least 8 characters''), m)
      else
        (case aw_hash w new_password of
           Inl e \<Rightarrow> (Inl (Auth (''bcrypt hash failed: '' @ e)), m)
         | Inr hash \<Rightarrow>
             let value = aw_to_value w \<lparr>sc_username = user, sc_password_hash = hash\<rparr> in
             (case am_store m of
                None \<Rightarrow> (Inl (Auth ''admin password cannot be persisted: no settings store configured''), m)
              | Some st \<Rightarrow>
                  (case ss_write_error st of
                     Some e \<Rightarrow> (Inl e, m)
                   | None \<Rightarrow>
                       (Inr (), m\<lparr>am_store := Some (st\<lparr>ss_rows := set_proxy_setting (ss_rows st) SETTINGS_KEY value\<rparr>)\<rparr>)))))"


section \<open>A required identity is proven\<close>

fun demands_identity :: "AuthProvider \<Rightarrow> bool" where
  "demands_identity (NoneAuthProvider required) = required"
| "demands_identity (StaticAuthProvider _ required) = required"
| "demands_identity (OidcAuthProvider _ required) = required"
| "demands_identity (LdapAuthProvider _ required) = required"

text \<open>What the credentials have shown when a provider accepts them.\<close>

fun proven :: "OidcWorld \<Rightarrow> LdapWorld \<Rightarrow> jwks_cache \<Rightarrow> AuthProvider \<Rightarrow> Credentials \<Rightarrow> AuthContext \<Rightarrow> bool" where
  "proven ow lw cache (NoneAuthProvider _) creds ctx \<longleftrightarrow>
     cred_username creds = Some (auth_user ctx) \<and> auth_groups ctx = [] \<and> auth_roles ctx = []"
| "proven ow lw cache (StaticAuthProvider users _) creds ctx \<longleftrightarrow>
     (\<exists>entry. cred_username creds = Some (auth_user ctx) \<and> map_of users (auth_user ctx) = Some entry
        \<and> cred_password creds = Some (su_password entry)
        \<and> auth_groups ctx = su_groups entry \<and> auth_roles ctx = su_roles entry)"
| "proven ow lw cache (OidcAuthProvider cfg _) creds ctx \<longleftrightarrow>
     (\<exists>token aud keys jwk key alg cl.
        cred_bearer_token creds = Some token \<and> oc_audience cfg = Some aud
        \<and> fst (get_jwks ow cfg cache) = Inr keys \<and> jwk \<in> set keys \<and> ow_decoding_key ow jwk = Inr key
        \<and> ow_decode ow token key \<lparr>va_alg = alg, va_issuer = oc_issuer cfg, va_audience = Some aud\<rparr> = Inr cl
        \<and> ctx = context_of_claims (ow_to_json ow) cfg token cl)"
| "proven ow lw cache (LdapAuthProvider cfg _) creds ctx \<longleftrightarrow>
     (\<exists>dn. cred_username creds = Some (auth_user ctx) \<and> resolve_user_dn lw cfg (auth_user ctx) = Inr dn
        \<and> lw_bind lw dn (case cred_password creds of Some p \<Rightarrow> p | None \<Rightarrow> []) = Bind_Ok
        \<and> auth_groups ctx = resolve_groups lw cfg dn \<and> auth_roles ctx = [])"

text \<open>Only a provider that verified them passes a password or attributes on.\<close>

fun confined :: "AuthProvider \<Rightarrow> AuthContext \<Rightarrow> bool" where
  "confined (OidcAuthProvider _ _) ctx \<longleftrightarrow> auth_raw_password ctx = None"
| "confined (LdapAuthProvider _ _) ctx \<longleftrightarrow> auth_attributes ctx = [] \<and> auth_raw_token ctx = None"
| "confined _ ctx \<longleftrightarrow> auth_raw_password ctx = None \<and> auth_attributes ctx = []"

lemma identity_of_simps [simp]:
  "auth_user (identity_of u) = u" "auth_groups (identity_of u) = []" "auth_roles (identity_of u) = []"
  "auth_raw_token (identity_of u) = None" "auth_raw_password (identity_of u) = None" "auth_attributes (identity_of u) = []"
  by (simp_all add: identity_of_def)

lemma given_name_Some: "given_name creds = Some u \<longleftrightarrow> cred_username creds = Some u \<and> u \<noteq> []"
  by (auto simp: given_name_def split: option.splits)

lemma none_proven:
  "none_authenticate True creds = Inr ctx \<Longrightarrow> proven ow lw cache (NoneAuthProvider True) creds ctx"
  by (auto simp: none_authenticate_def given_name_Some split: option.splits)

lemma static_proven:
  "static_authenticate users True creds = Inr ctx \<Longrightarrow> proven ow lw cache (StaticAuthProvider users True) creds ctx"
  by (auto simp: static_authenticate_def given_name_Some Let_def split: option.splits if_splits)

lemma find_jwk_in: "find_jwk keys kid = Some jwk \<Longrightarrow> jwk \<in> set keys"
  by (auto simp: find_jwk_def find_Some_iff split: option.splits list.splits)

lemma oidc_proven:
  assumes "oidc_authenticate ow cfg True creds cache = (Inr ctx, cache')"
  shows "proven ow lw cache (OidcAuthProvider cfg True) creds ctx"
  using assms
proof -
  from assms obtain token aud kid alg keys jwk key cl where
    "cred_bearer_token creds = Some token" "oc_audience cfg = Some aud" "ow_decode_header ow token = Inr (kid, alg)"
    "fst (get_jwks ow cfg cache) = Inr keys" "find_jwk keys kid = Some jwk" "ow_decoding_key ow jwk = Inr key"
    "ow_decode ow token key \<lparr>va_alg = alg, va_issuer = oc_issuer cfg, va_audience = Some aud\<rparr> = Inr cl"
    "ctx = context_of_claims (ow_to_json ow) cfg token cl"
    by (auto simp: oidc_authenticate_def split: option.splits sum.splits prod.splits if_splits)
  then show ?thesis using find_jwk_in by fastforce
qed

lemma ldap_proven:
  "ldap_authenticate lw cfg True creds = Inr ctx \<Longrightarrow> proven ow lw cache (LdapAuthProvider cfg True) creds ctx"
  by (auto simp: ldap_authenticate_def given_name_Some Let_def split: option.splits sum.splits BindReply.splits if_splits)

lemma authenticate_confined: "authenticate ow lw cache p creds = (Inr ctx, cache') \<Longrightarrow> confined p ctx"
  by (cases p)
    (auto simp: none_authenticate_def static_authenticate_def oidc_authenticate_def ldap_authenticate_def context_of_claims_def Let_def
      split: option.splits sum.splits prod.splits if_splits BindReply.splits)


text \<open>
  Where authentication is not required a bare name is believed: by the OIDC provider without a token, and by
  the static provider without the password, with the groups and roles of that user.
\<close>

lemma optional_trusts_name:
  "fst (oidc_authenticate w cfg False \<lparr>cred_username = Some u, cred_password = None, cred_bearer_token = None\<rparr> cache) = Inr (identity_of u)"
  "u \<noteq> [] \<Longrightarrow> map_of users u = Some entry \<Longrightarrow>
   static_authenticate users False \<lparr>cred_username = Some u, cred_password = None, cred_bearer_token = None\<rparr>
     = Inr ((identity_of u)\<lparr>auth_groups := su_groups entry, auth_roles := su_roles entry\<rparr>)"
  by (simp_all add: oidc_authenticate_def static_authenticate_def given_name_def)

definition example_directory :: LdapWorld where
  "example_directory =
     \<lparr>lw_connect = \<lambda>_. Inr (),
      lw_bind = (\<lambda>dn p. if dn = ''cn=bob,ou=users'' \<and> p = ''pw'' then Bind_Ok else Bind_Rejected ''49''),
      lw_search = (\<lambda>_ _ _ _ _. Search_Found [\<lparr>se_dn = ''cn=bob,ou=users'', se_attrs = [(''memberOf'', [''CN=ops,ou=groups''])]\<rparr>])\<rparr>"

definition example_ldap :: LdapConfig where
  "example_ldap =
     \<lparr>lc_url = ''ldap://d'', lc_bind_dn = [], lc_bind_password = None, lc_user_search_base = ''ou=users'',
      lc_user_search_filter = ''(uid={})'', lc_user_dn_template = None, lc_group_search_base = None,
      lc_group_name_attribute = ''cn''\<rparr>"

definition example_bob :: Credentials where
  "example_bob = \<lparr>cred_username = Some ''bob'', cred_password = Some ''pw'', cred_bearer_token = None\<rparr>"

lemma example_ldap_groups: "extract_cn ''CN=ops,ou=groups'' ''cn'' = Some ''ops''"
  by code_simp

lemma example_login:
  "ldap_authenticate example_directory example_ldap True example_bob =
     Inr ((identity_of ''bob'')\<lparr>auth_groups := [''ops''], auth_raw_password := Some ''pw''\<rparr>)"
  by (simp add: ldap_authenticate_def example_directory_def example_ldap_def example_bob_def given_name_def
      resolve_user_dn_def resolve_groups_def example_ldap_groups List.map_filter_def Let_def)



section \<open>Names in a directory search\<close>

lemma escape_char_prefix: "escape_char c @ r = escape_char d @ s \<Longrightarrow> c = d \<and> r = s"
  by (auto simp: escape_char_def split: if_splits)

lemma ldap_escape_Cons: "ldap_escape (c # cs) = escape_char c @ ldap_escape cs"
  by (simp add: ldap_escape_def)

lemma escape_char_nonempty: "escape_char c \<noteq> []"
  by (simp add: escape_char_def)

lemma ldap_escape_inj: "ldap_escape s = ldap_escape t \<Longrightarrow> s = t"
proof (induction s arbitrary: t)
  case Nil
  then show ?case by (cases t) (auto simp: ldap_escape_Cons escape_char_nonempty ldap_escape_def)
next
  case (Cons c s)
  then show ?case
  proof (cases t)
    case Nil
    then show ?thesis using Cons.prems escape_char_nonempty [of c] by (simp add: ldap_escape_def)
  next
    case (Cons d t')
    then show ?thesis using Cons.prems Cons.IH [of t'] escape_char_prefix [of c "ldap_escape s" d "ldap_escape t'"]
      by (simp add: ldap_escape_Cons)
  qed
qed

lemma ldap_escape_safe: "c \<in> set (ldap_escape s) \<Longrightarrow> c \<notin> {CHR ''*'', CHR ''('', CHR '')'', CHR 0x00}"
  by (induction s) (auto simp: ldap_escape_def escape_char_def split: if_splits)

fun count_braces :: "string \<Rightarrow> nat" where
  "count_braces (c # d # cs) = (if c = CHR ''{'' \<and> d = CHR ''}'' then Suc (count_braces cs) else count_braces (d # cs))"
| "count_braces _ = 0"

lemma fill_length: "length (fill_braces r t) + 2 * count_braces t = length t + count_braces t * length r"
  by (induction r t rule: fill_braces.induct) auto

lemma fill_inj:
  "fill_braces r t = fill_braces s t \<Longrightarrow> length r = length s \<Longrightarrow> count_braces t \<noteq> 0 \<Longrightarrow> r = s"
  by (induction r t rule: fill_braces.induct) (auto split: if_splits)

text \<open>
  A name cannot change the search: whatever the client calls itself, what it adds to the filter has no
  wildcard, parenthesis or end marker of its own, and, when the configured filter has a place for the name,
  two names never give the same filter, so a bind checks the user that was asked for.
\<close>
lemma ldap_filter_exact:
  assumes "count_braces (lc_user_search_filter cfg) \<noteq> 0" and "user_filter cfg u = user_filter cfg v"
  shows "u = v \<and> (\<forall>c. c \<in> set (ldap_escape u) \<longrightarrow> c \<notin> {CHR ''*'', CHR ''('', CHR '')'', CHR 0x00})"
proof -
  let ?f = "lc_user_search_filter cfg"
  have "length (fill_braces (ldap_escape u) ?f) = length (fill_braces (ldap_escape v) ?f)" using assms(2) by (simp add: user_filter_def)
  then have "count_braces ?f * length (ldap_escape u) = count_braces ?f * length (ldap_escape v)"
    using fill_length [of "ldap_escape u" ?f] fill_length [of "ldap_escape v" ?f] by linarith
  then have "length (ldap_escape u) = length (ldap_escape v)" using assms(1) by simp
  then have "ldap_escape u = ldap_escape v" using assms fill_inj by (simp add: user_filter_def)
  then show ?thesis using ldap_escape_inj ldap_escape_safe by blast
qed

text \<open>
  The bind takes any password, also none: on a directory that accepts a name with an empty password (an
  unauthenticated bind) everyone is whoever they say. And the escapes are those of filters: in a DN
  template a comma in the name adds components to the DN.
\<close>

lemma ldap_empty_password:
  assumes "lw_connect lw (lc_url cfg) = Inr ()" "resolve_user_dn lw cfg u = Inr dn" "lw_bind lw dn [] = Bind_Ok" "u \<noteq> []"
  shows "ldap_authenticate lw cfg True \<lparr>cred_username = Some u, cred_password = None, cred_bearer_token = None\<rparr>
    = Inr ((identity_of u)\<lparr>auth_groups := resolve_groups lw cfg dn, auth_raw_password := Some []\<rparr>)"
  using assms by (simp add: ldap_authenticate_def given_name_def)

lemma ldap_template_injection:
  "resolve_user_dn lw (example_ldap\<lparr>lc_user_dn_template := Some ''cn={},ou=users''\<rparr>) ''bob,ou=admins''
    = Inr ''cn=bob,ou=admins,ou=users''"
  by (simp add: resolve_user_dn_def ldap_escape_def escape_char_def)

section \<open>Changing the administrator's password\<close>

lemma read_after_set [simp]: "get_proxy_setting (set_proxy_setting s k v) k = Some v"
  by (simp add: get_proxy_setting_def set_proxy_setting_def update_conv')


text \<open>But whoever knows the bootstrap password is let in again while the store cannot be read.\<close>

lemma admin_outage_falls_back:
  assumes "am_store m = Some st" "\<not> ss_readable st"
  shows "verify w m (am_bootstrap_username m) (am_bootstrap_password m)"
  using assms by (simp add: verify_def load_db_credentials_def read_setting_def)

definition example_admin_world :: AdminWorld where
  "example_admin_world =
     \<lparr>aw_to_value = (\<lambda>s. replicate (length (sc_username s)) (CHR ''u'') @ CHR '':'' # sc_username s @ sc_password_hash s),
      aw_from_value = (\<lambda>v. let n = length (takeWhile (\<lambda>c. c = CHR ''u'') v); rest = drop (Suc n) v
                           in Some \<lparr>sc_username = take n rest, sc_password_hash = drop n rest\<rparr>),
      aw_hash = (\<lambda>p. Inr (CHR ''$'' # p)), aw_verify = (\<lambda>p h. Some (h = CHR ''$'' # p))\<rparr>"



definition example_admin :: AdminCredentialsManager where
  "example_admin =
     \<lparr>am_bootstrap_username = ''admin'', am_bootstrap_password = ''admin'',
      am_store = Some \<lparr>ss_rows = InMemory_default, ss_readable = True, ss_write_error = None\<rparr>, am_durable_store = False\<rparr>"

lemma example_admin_roundtrip: "aw_from_value example_admin_world (aw_to_value example_admin_world s) = Some s"
  by (simp add: example_admin_world_def takeWhile_append Let_def)



end
