(* ===== verification/Spec2Isabelle.thy ===== *)
theory Spec2Isabelle
  imports Batched_Release Config_Store Quota_Admission Router_Chain Cluster_Manager Query_End Sync_Guarantees Authentication
begin

text \<open>
  QueryFlux is a SQL proxy: clients speak the Trino, Snowflake, PostgreSQL, MySQL, Flight or MCP
  protocol to it, and it runs each query on one of many backend clusters. A query is routed to a
  cluster group, its user is authorized for the group, a cluster of the group gives it a slot (and,
  with several replicas, a fleet-wide lease), the identity it runs under is resolved, the
  access-control guard judges and rewrites the client's SQL, the text is translated to the engine's
  dialect, the guardrails judge the final text, and only then is it submitted. What happened is
  recorded, and the slot is given back when the query ends, however it ends.

  This development models the parts that decide: admission, routing, quotas, access control,
  identity, authentication, the result cache and the two dispatch paths that compose them. Paths below are relative to
  \<open>src/crates\<close>; \<open>X/y.rs\<close> stands for \<open>queryflux-X/src/y.rs\<close>.

  \<^bold>\<open>How the code is read.\<close> Structs are records, enums are datatypes with the same
  constructors, \<open>Result\<close> is a sum with the error on the left, a panic is \<open>None\<close>, a hash map is an
  association list, and integers are words of their width, natural numbers (where the code saturates or cannot
  overflow, which is then proved or said) or integers. Characters are those of HOL, U+0000 to U+00FF: the byte
  length of a string is that of its UTF-8 form (\<open>Rust_Strings\<close>). Instants and durations are natural
  numbers of nanoseconds with the bounds of \<open>std::time\<close>; calendar times are milliseconds.
  What the program asks of code that is not in the repository (the SQL parser and sqlglot, regular
  expressions, Python scripts, HTTP servers, hash functions, serde) is an argument of the definitions, so the
  theorems hold for every answer. Concurrency is modelled where it decides the outcome: counters
  are compare-and-swap steps of any number of threads (\<open>Cluster_State\<close>), admission runs under an
  arbitrary interference of other queries (\<open>Cluster_Manager\<close>), caches are step relations with lookups and answers
  that interleave (\<open>Access_Controller\<close>, \<open>Identity\<close>), and a dispatched query is the list of calls it makes while
  the rest of the system answers as it likes (\<open>Dispatch\<close>). No definition needs fuel: loops that are not structural
  have a measure.

  \<^bold>\<open>The theories.\<close>

  \<^item> \<open>QF_Prelude\<close>, \<open>Rust_Strings\<close>: machine integers, durations and instants, and the parts of \<open>std\<close> on
    strings that the sources call, with the lemma collections the other theories share.
  \<^item> \<open>Core_Types\<close> (\<open>core/query.rs\<close>, \<open>core/error.rs\<close>): identifiers, protocols, engines, dialects, the error
    type; dialect compatibility is an equivalence, and which errors are transient.
  \<^item> \<open>Query_Tags\<close> (\<open>core/tags.rs\<close>) and \<open>Session\<close> (\<open>core/session.rs\<close>, \<open>auth/credentials.rs\<close>): tag parsing with its limits and
    its one panic; sessions, agent context and authenticated users.
  \<^item> \<open>Circuit_Breaker\<close> (\<open>cluster-manager/circuit_breaker.rs\<close>): the breaker as a state machine with its window
    of samples; the counters agree with the window in every reachable state, when it opens, how it backs off and
    recovers, and that one probe runs at a time.
  \<^item> \<open>Cluster_State\<close>, \<open>Strategy\<close>, \<open>Cluster_Manager\<close> (\<open>cluster-manager/{cluster_state,strategy,simple}.rs\<close>): the
    running and queued counters of a cluster and the lock-free reservation loops, where the compare-and-swap steps of any
    number of threads never pass the limit; the selection strategies; acquisition and release of a slot of a group,
    with and without interference.
  \<^item> \<open>Routers\<close>, \<open>Router_Chain\<close> (\<open>routing/\<close>): the eight routers and the chain; the first match
    wins, the trace tells the same story, groups exist, and every router but the Python script reads the identity from
    verified authentication alone.
  \<^item> \<open>Capacity\<close>, \<open>Quota\<close>, \<open>Quota_Admission\<close>, \<open>Batched_Release\<close> (\<open>persistence/{lib,quota,quota_admission,batched_release}.rs\<close>):
    the capacity-store interface as a locale, the allocator that splits a limit over the replicas, the admission
    of a replica on its quota, and the store that sends releases in batches. The hard limit, max-min fairness,
    exact accounting and that a flush covers every earlier release.
  \<^item> \<open>In_Memory\<close>, \<open>Config_Store\<close> (\<open>persistence/in_memory.rs\<close> with the records of \<open>cluster_config.rs\<close>,
    \<open>script_library.rs\<close>, \<open>cache_store.rs\<close>): executing and queued queries, cluster, group and script configuration; references stay intact under every
    operation.
  \<^item> \<open>Authentication\<close> (\<open>auth/{provider,ldap,admin_credentials}.rs\<close>): the providers (none, static, OIDC with its key
    cache, LDAP) and the administrator's password; the identity a provider answers was proven to it, and a changed password
    replaces the old one.
  \<^item> \<open>Authorization\<close> (\<open>auth/authorization.rs\<close>, \<open>frontend/snowflake/in_flight.rs\<close>): who may run queries on a group
    and act on an existing one.
  \<^item> \<open>Identity\<close> (\<open>auth/resolver.rs\<close>, \<open>engine-adapters/wire_auth.rs\<close>): the credentials a query
    runs with, the token-exchange cache, and what is stored for later polls.
  \<^item> \<open>Sql_Classify\<close>, \<open>Guardrails\<close> (\<open>sql/classify.rs\<close>, \<open>guardrails/\<close>): reads and writes, the built-in and external
    guards, the chain, and the validation of its configuration.
  \<^item> \<open>Access_Model\<close>, \<open>Opa\<close>, \<open>Access_Controller\<close>, \<open>Access_Guard\<close> (\<open>core/access_model.rs\<close>, \<open>access-control/\<close>,
    \<open>frontend/access_control_guard.rs\<close>, \<open>sql/access.rs\<close>): requests and decisions, the OPA client, the decision cache and
    the fail-open rule, and the guard that judges a statement, its writes and its reads, and rewrites it with
    the row filters and masks of the policy.
  \<^item> \<open>Dispatch_Slot\<close>, \<open>Dispatch\<close> (\<open>frontend/{dispatch,state,sql_pipeline}.rs\<close>): the guard that owns a slot, the
    admission gate, the queue, and \<open>dispatch_query\<close> in its stages. Every slot is given back or handed over
    exactly once on every path, and nothing is submitted that did not pass every check.
  \<^item> \<open>Query_End\<close> (\<open>frontend/{state,admin}.rs\<close>, \<open>frontend/mcp/tools.rs\<close>, \<open>queryflux/src/startup/tasks.rs\<close>): the ways a submitted
    query ends: the call every poll handler makes, cancelling by the administrator or a tool call, and the sweeps. Over every history a cluster holds one slot for each stored
    executing query, less one for each release that was made although the store failed to answer the delete.
  \<^item> \<open>Result_Cache\<close> (\<open>cache/\<close>, \<open>frontend/tee_sink.rs\<close>): the key of a result, the local store, the sink that copies a result
    while it streams, and replay. Keys tell requests apart, a hit replays a committed stream of the same key, and the copy leaves
    the client's stream as it is but for the translated-SQL notice, which it does not pass on.
  \<^item> \<open>Sync_Dispatch\<close>, \<open>Sync_Guarantees\<close> (\<open>frontend/dispatch.rs\<close>, \<open>execute_to_sink\<close>): the streaming path, with its wait for
    capacity, its cancel guard and the cache before it. Slots balance, execution and cached answers come only after the checks,
    the wait is bounded, and a query has at most one record.

  \<^bold>\<open>Interfaces.\<close> Each is a locale whose laws are discharged for the definitions of the program: a store that releases leases, alone or
  in batches (\<open>releasing_store\<close>, given by \<open>single_release_store\<close>, in \<open>Capacity\<close>), on which the batched releases are built; rows under a key
  (\<open>keyed_rows\<close>, \<open>keyed_rows_keeping\<close> in \<open>In_Memory\<close>) for the executing, queued, cache and settings tables; a strategy that picks a
  candidate (\<open>selection_strategy\<close> in \<open>Strategy\<close>) for each of the strategies; routers confined to their targets
  (\<open>confined_routers\<close> in \<open>Router_Chain\<close>); and what a result is streamed into (\<open>result_sink\<close> in \<open>Result_Cache\<close>), for the client's
  own sink and for the sink that copies into the cache.

  \<^bold>\<open>Not modelled.\<close> The Postgres backend (its behaviour is that of SQL statements run by a server), the wire protocols, the
  admin API beyond ending queries and its password, the MCP server beyond its cancel tool, engine adapters and catalog clients
  (drivers of external systems), translation (a Python library), query history and its statistics, metrics, process
  startup and reload of the live configuration, the session store of the Snowflake frontend, and the Cerbos provider. Of a lease
  only the calls of the store interface are modelled: expiry and heartbeats belong to the Postgres store.
\<close>

end
